(* ===== verification/Prelude.thy ===== *)
theory Prelude
  imports Main "HOL-Library.Word" "HOL-Library.Sublist" "HOL-Library.AList"
begin

text \<open>
  The vocabulary every component shares.

  \<^item> the machine integers of the Rust sources (\<open>u8\<close>, \<open>u16\<close>, \<open>u32\<close>, \<open>i32\<close>) as words;
  \<^item> the result type \<open>outcome\<close>: a Rust function returns a value, returns an error, panics
    (a failed \<open>assert!\<close>, an \<open>unwrap\<close>, an index out of range, an arithmetic overflow under
    the overflow checks of the development profile), or recurses without bound until the
    stack is exhausted;
  \<^item> Rust's \<open>Ordering\<close> with the lexicographic comparison of byte strings;
  \<^item> Rust's \<open>String\<close> as its UTF-8 bytes (\<open>string\<close>, whose characters are octets), with the
    well-formedness test of \<open>String::from_utf8\<close> and the lower-casing used on labels. The
    lower-casing maps the letters A to Z, which is exact for labels of ASCII text;
  \<^item> association lists ordered by a comparison function, the model of \<open>BTreeMap\<close>, with
    the locale \<open>comparator\<close> of the laws a comparison function owes the map;
  \<^item> the lemmas on words and lists the components use.
\<close>

unbundle bit_operations_syntax

section \<open>Machine integers\<close>

type_synonym u8 = "8 word"
type_synonym u16 = "16 word"
type_synonym u32 = "32 word"
type_synonym i32 = "32 word"
type_synonym bytes = "8 word list"

section \<open>Outcomes of Rust functions\<close>

datatype ('a, 'e) outcome = Ok 'a | Err 'e | Panic | Overrun

fun bind_outcome :: "('a, 'e) outcome \<Rightarrow> ('a \<Rightarrow> ('b, 'e) outcome) \<Rightarrow> ('b, 'e) outcome" where
  "bind_outcome (Ok x) f = f x"
| "bind_outcome (Err e) f = Err e"
| "bind_outcome Panic f = Panic"
| "bind_outcome Overrun f = Overrun"

fun map_outcome_err :: "('e \<Rightarrow> 'd) \<Rightarrow> ('a, 'e) outcome \<Rightarrow> ('a, 'd) outcome" where
  "map_outcome_err g (Ok x) = Ok x"
| "map_outcome_err g (Err e) = Err (g e)"
| "map_outcome_err g Panic = Panic"
| "map_outcome_err g Overrun = Overrun"

fun is_ok :: "('a, 'e) outcome \<Rightarrow> bool" where
  "is_ok (Ok _) = True"
| "is_ok _ = False"

lemma bind_outcome_Ok_iff:
  "bind_outcome m f = Ok y \<longleftrightarrow> (\<exists>x. m = Ok x \<and> f x = Ok y)"
  by (cases m) auto

lemma bind_outcome_Ok_D [dest!]:
  assumes "bind_outcome m f = Ok y"
  shows "\<exists>x. m = Ok x \<and> f x = Ok y"
  using assms by (simp add: bind_outcome_Ok_iff)

lemma bind_outcome_assoc:
  "bind_outcome (bind_outcome m f) g = bind_outcome m (\<lambda>x. bind_outcome (f x) g)"
  by (cases m) auto

lemma is_ok_iff: "is_ok m \<longleftrightarrow> (\<exists>x. m = Ok x)"
  by (cases m) auto

section \<open>Ordering\<close>

datatype ordering = Less | Equal | Greater

fun rev_ordering :: "ordering \<Rightarrow> ordering" where
  "rev_ordering Less = Greater"
| "rev_ordering Equal = Equal"
| "rev_ordering Greater = Less"

definition cmp_nat :: "nat \<Rightarrow> nat \<Rightarrow> ordering" where
  "cmp_nat a b = (if a < b then Less else if a = b then Equal else Greater)"

text \<open>Lexicographic comparison of byte strings, as \<open>Ord\<close> for \<open>str\<close> and \<open>[u8]\<close>.\<close>

fun cmp_list :: "('a \<Rightarrow> 'a \<Rightarrow> ordering) \<Rightarrow> 'a list \<Rightarrow> 'a list \<Rightarrow> ordering" where
  "cmp_list c [] [] = Equal"
| "cmp_list c [] (y # ys) = Less"
| "cmp_list c (x # xs) [] = Greater"
| "cmp_list c (x # xs) (y # ys) =
     (case c x y of Less \<Rightarrow> Less | Greater \<Rightarrow> Greater | Equal \<Rightarrow> cmp_list c xs ys)"

definition cmp_char :: "char \<Rightarrow> char \<Rightarrow> ordering" where
  "cmp_char a b = cmp_nat (of_char a) (of_char b)"

definition cmp_u8 :: "u8 \<Rightarrow> u8 \<Rightarrow> ordering" where
  "cmp_u8 a b = cmp_nat (unat a) (unat b)"

abbreviation cmp_str :: "string \<Rightarrow> string \<Rightarrow> ordering" where
  "cmp_str \<equiv> cmp_list cmp_char"

abbreviation cmp_bytes :: "bytes \<Rightarrow> bytes \<Rightarrow> ordering" where
  "cmp_bytes \<equiv> cmp_list cmp_u8"

text \<open>
  What a comparison function owes its users: it is reflexive, swapping its arguments
  reverses the result, and its strict part composes with itself and with its equality.
\<close>

locale comparator =
  fixes cmp :: "'a \<Rightarrow> 'a \<Rightarrow> ordering"
  assumes cmp_refl: "cmp x x = Equal"
    and cmp_swap: "cmp y x = rev_ordering (cmp x y)"
    and cmp_Less_trans: "cmp x y = Less \<Longrightarrow> cmp y z = Less \<Longrightarrow> cmp x z = Less"
    and cmp_Equal_trans: "cmp x y = Equal \<Longrightarrow> cmp y z = Equal \<Longrightarrow> cmp x z = Equal"
    and cmp_Equal_Less: "cmp x y = Equal \<Longrightarrow> cmp y z = Less \<Longrightarrow> cmp x z = Less"
begin

lemma cmp_Equal_sym: "cmp x y = Equal \<Longrightarrow> cmp y x = Equal"
  by (subst cmp_swap) simp

lemma cmp_Greater_iff: "cmp x y = Greater \<longleftrightarrow> cmp y x = Less"
  by (subst cmp_swap) (cases "cmp y x"; simp)

lemma cmp_Less_Equal: "cmp x y = Less \<Longrightarrow> cmp y z = Equal \<Longrightarrow> cmp x z = Less"
proof -
  assume xy: "cmp x y = Less" and yz: "cmp y z = Equal"
  from yz have zy: "cmp z y = Equal" by (rule cmp_Equal_sym)
  have "cmp z x \<noteq> Less"
  proof
    assume "cmp z x = Less"
    from cmp_Less_trans [OF this xy] zy show False by simp
  qed
  moreover have "cmp z x \<noteq> Equal"
  proof
    assume "cmp z x = Equal"
    from cmp_Equal_Less [OF this xy] zy show False by simp
  qed
  ultimately have "cmp z x = Greater" by (cases "cmp z x") auto
  then show "cmp x z = Less" by (simp add: cmp_Greater_iff)
qed

lemma cmp_Equal_left: "cmp x y = Equal \<Longrightarrow> cmp x z = cmp y z"
proof -
  assume xy: "cmp x y = Equal"
  note yx = cmp_Equal_sym [OF xy]
  show "cmp x z = cmp y z"
  proof (cases "cmp y z")
    case Less
    with xy show ?thesis by (simp add: cmp_Equal_Less)
  next
    case Equal
    with xy show ?thesis by (auto intro: cmp_Equal_trans)
  next
    case Greater
    then have "cmp z y = Less" by (simp add: cmp_Greater_iff)
    from cmp_Less_Equal [OF this yx] have "cmp z x = Less" .
    then have "cmp x z = Greater" using cmp_Greater_iff [of x z] by simp
    with Greater show ?thesis by simp
  qed
qed

lemma cmp_Equal_right: "cmp x y = Equal \<Longrightarrow> cmp z x = cmp z y"
  by (metis cmp_swap cmp_Equal_left)

lemma cmp_not_Less_self: "cmp x y = Less \<Longrightarrow> cmp y x \<noteq> Less"
  by (subst cmp_swap) simp

end

section \<open>Maps ordered by a comparison function (BTreeMap)\<close>

text \<open>
  A \<open>BTreeMap\<close> is its list of entries in ascending key order, which is the order its
  iterators yield. Storing under a key that compares equal to a stored one replaces the
  value and keeps the stored key, as \<open>BTreeMap::insert\<close> does.
\<close>

type_synonym ('k, 'v) btree = "('k \<times> 'v) list"

fun bt_get :: "('k \<Rightarrow> 'k \<Rightarrow> ordering) \<Rightarrow> 'k \<Rightarrow> ('k, 'v) btree \<Rightarrow> 'v option" where
  "bt_get c k [] = None"
| "bt_get c k ((k', v) # m) = (case c k k' of Equal \<Rightarrow> Some v | _ \<Rightarrow> bt_get c k m)"

fun bt_insert :: "('k \<Rightarrow> 'k \<Rightarrow> ordering) \<Rightarrow> 'k \<Rightarrow> 'v \<Rightarrow> ('k, 'v) btree \<Rightarrow> ('k, 'v) btree" where
  "bt_insert c k v [] = [(k, v)]"
| "bt_insert c k v ((k', v') # m) =
     (case c k k' of
        Less \<Rightarrow> (k, v) # (k', v') # m
      | Equal \<Rightarrow> (k', v) # m
      | Greater \<Rightarrow> (k', v') # bt_insert c k v m)"

fun bt_remove :: "('k \<Rightarrow> 'k \<Rightarrow> ordering) \<Rightarrow> 'k \<Rightarrow> ('k, 'v) btree \<Rightarrow> ('k, 'v) btree" where
  "bt_remove c k [] = []"
| "bt_remove c k ((k', v) # m) = (case c k k' of Equal \<Rightarrow> m | _ \<Rightarrow> (k', v) # bt_remove c k m)"

definition bt_sorted :: "('k \<Rightarrow> 'k \<Rightarrow> ordering) \<Rightarrow> ('k, 'v) btree \<Rightarrow> bool" where
  "bt_sorted c m = sorted_wrt (\<lambda>x y. c (fst x) (fst y) = Less) m"

lemma bt_sorted_Nil [simp]: "bt_sorted c []"
  by (simp add: bt_sorted_def)

lemma bt_sorted_Cons [simp]:
  "bt_sorted c (x # m) \<longleftrightarrow> (\<forall>y \<in> set m. c (fst x) (fst y) = Less) \<and> bt_sorted c m"
  by (simp add: bt_sorted_def)

lemma bt_get_mem: "bt_get c k m = Some v \<Longrightarrow> \<exists>k'. (k', v) \<in> set m \<and> c k k' = Equal"
  by (induction m) (auto split: ordering.splits)

lemma bt_get_None_iff: "bt_get c k m = None \<longleftrightarrow> (\<forall>x \<in> set m. c k (fst x) \<noteq> Equal)"
  by (induction m) (auto split: ordering.splits)

lemma bt_insert_mem:
  "x \<in> set (bt_insert c k v m) \<Longrightarrow>
   x = (k, v) \<or> x \<in> set m \<or> (snd x = v \<and> fst x \<in> fst ` set m \<and> c k (fst x) = Equal)"
  by (induction m) (auto split: ordering.splits)

lemma set_bt_remove_subset: "set (bt_remove c k m) \<subseteq> set m"
  by (induction m) (auto split: ordering.splits)

lemma bt_sorted_remove: "bt_sorted c m \<Longrightarrow> bt_sorted c (bt_remove c k m)"
proof (induction m)
  case (Cons x m)
  from Cons.prems set_bt_remove_subset [of c k m] Cons.IH show ?case
    by (cases x) (auto split: ordering.splits)
qed simp

context comparator
begin

lemma bt_sorted_insert: "bt_sorted cmp m \<Longrightarrow> bt_sorted cmp (bt_insert cmp k v m)"
proof (induction m)
  case (Cons x m)
  obtain a b where x: "x = (a, b)" by (cases x)
  show ?case
  proof (cases "cmp k a")
    case Less
    with Cons.prems x show ?thesis by (auto intro: cmp_Less_trans)
  next
    case Equal
    with Cons.prems x show ?thesis by simp
  next
    case Greater
    then have ak: "cmp a k = Less" by (simp add: cmp_Greater_iff)
    have "cmp a (fst y) = Less" if "y \<in> set (bt_insert cmp k v m)" for y
      using bt_insert_mem [OF that] Cons.prems x ak by auto
    with Greater Cons x show ?thesis by simp
  qed
qed simp

lemma bt_get_insert_same: "bt_sorted cmp m \<Longrightarrow> cmp k' k = Equal \<Longrightarrow> bt_get cmp k' (bt_insert cmp k v m) = Some v"
  by (induction m) (auto simp: cmp_Equal_left split: ordering.splits)

lemma bt_get_insert_other: "cmp k' k \<noteq> Equal \<Longrightarrow> bt_get cmp k' (bt_insert cmp k v m) = bt_get cmp k' m"
proof (induction m)
  case (Cons x m)
  obtain a b where x: "x = (a, b)" by (cases x)
  have "cmp k' a \<noteq> Equal" if "cmp k a = Equal"
    using Cons.prems cmp_Equal_right [OF that, of k'] by simp
  with Cons x show ?case by (auto split: ordering.splits)
qed (auto split: ordering.splits)

lemma bt_get_insert:
  "bt_sorted cmp m \<Longrightarrow>
   bt_get cmp k' (bt_insert cmp k v m) = (if cmp k' k = Equal then Some v else bt_get cmp k' m)"
  by (simp add: bt_get_insert_same bt_get_insert_other)

lemma bt_get_remove:
  "bt_sorted cmp m \<Longrightarrow>
   bt_get cmp k' (bt_remove cmp k m) = (if cmp k' k = Equal then None else bt_get cmp k' m)"
proof (induction m)
  case (Cons x m)
  obtain a b where x: "x = (a, b)" by (cases x)
  have gt: "cmp a (fst y) = Less" if "y \<in> set m" for y
    using Cons.prems that x by auto
  show ?case
  proof (cases "cmp k a = Equal")
    case True
    have none: "bt_get cmp k m = None"
      using gt cmp_Equal_left [OF True] by (simp add: bt_get_None_iff)
    show ?thesis
    proof (cases "cmp k' k = Equal")
      case True': True
      have "bt_get cmp k' m = None"
        using none cmp_Equal_left [OF True'] by (simp add: bt_get_None_iff)
      with True True' x show ?thesis by simp
    next
      case False
      with cmp_Equal_right [OF True, of k'] have "cmp k' a \<noteq> Equal" by simp
      with True False x show ?thesis by (simp split: ordering.splits)
    qed
  next
    case False
    have "cmp k' a \<noteq> Equal" if "cmp k' k = Equal"
      using False cmp_Equal_left [OF that, of a] by simp
    with Cons False x show ?thesis by (auto split: ordering.splits)
  qed
qed simp

lemma bt_get_cong: "cmp k k' = Equal \<Longrightarrow> bt_get cmp k m = bt_get cmp k' m"
  by (induction m) (auto simp: cmp_Equal_left split: ordering.splits)

lemma bt_get_mem_iff:
  assumes "bt_sorted cmp m"
  shows "bt_get cmp k m = Some v \<longleftrightarrow> (\<exists>k'. (k', v) \<in> set m \<and> cmp k k' = Equal)"
  using assms
proof (induction m)
  case (Cons x m)
  obtain a b where x: "x = (a, b)" by (cases x)
  have "cmp k k' \<noteq> Equal" if "cmp k a = Equal" "(k', v') \<in> set m" for k' v'
    using Cons.prems that x cmp_Equal_left [OF that(1), of k'] by force
  with Cons x show ?case by (auto split: ordering.splits)
qed simp

end

text \<open>The comparison functions of the model satisfy the laws; lists inherit them.\<close>

interpretation nat_cmp: comparator cmp_nat
  by unfold_locales (auto simp: cmp_nat_def split: if_splits)

interpretation char_cmp: comparator cmp_char
  by unfold_locales (auto simp: cmp_char_def cmp_nat_def split: if_splits)

interpretation u8_cmp: comparator cmp_u8
  by unfold_locales (auto simp: cmp_u8_def cmp_nat_def split: if_splits)

lemma cmp_nat_simps [simp]:
  "cmp_nat a b = Equal \<longleftrightarrow> a = b"
  "cmp_nat a b = Less \<longleftrightarrow> a < b"
  "cmp_nat a b = Greater \<longleftrightarrow> b < a"
  by (auto simp: cmp_nat_def)

lemma cmp_char_Equal [simp]: "cmp_char a b = Equal \<longleftrightarrow> a = b"
  by (simp add: cmp_char_def)

lemma cmp_u8_Equal [simp]: "cmp_u8 a b = Equal \<longleftrightarrow> a = b"
  by (simp add: cmp_u8_def word_unat_eq_iff)

lemma cmp_list_comparator:
  assumes "comparator c"
  shows "comparator (cmp_list c)"
proof -
  note refl = comparator.cmp_refl [OF assms]
  note swap = comparator.cmp_swap [OF assms]
  note left = comparator.cmp_Equal_left [OF assms]
  note right = comparator.cmp_Equal_right [OF assms]
  note less = comparator.cmp_Less_trans [OF assms]
  show ?thesis
  proof
    show "cmp_list c x x = Equal" for x
      by (induction x) (auto simp: refl)
    show sw: "cmp_list c y x = rev_ordering (cmp_list c x y)" for x y
    proof (induction x arbitrary: y)
      case Nil
      then show ?case by (cases y) auto
    next
      case IH: (Cons a x)
      show ?case
      proof (cases y)
        case (Cons b y')
        with IH.IH [of y'] show ?thesis
          using swap [of b a] by (cases "c a b") auto
      qed simp
    qed
    have eq: "cmp_list c x z = cmp_list c y z" if "cmp_list c x y = Equal" for x y z
      using that
    proof (induction x arbitrary: y z)
      case Nil
      then show ?case by (cases y) auto
    next
      case (Cons a x)
      from Cons.prems obtain b y' where y: "y = b # y'" by (cases y) auto
      with Cons.prems have "c a b = Equal" "cmp_list c x y' = Equal"
        by (auto split: ordering.splits)
      with y show ?case
        by (cases z) (auto simp: left [of a b] Cons.IH split: ordering.splits)
    qed
    show "cmp_list c x z = Equal" if "cmp_list c x y = Equal" "cmp_list c y z = Equal" for x y z
      using eq [OF that(1), of z] that(2) by simp
    show "cmp_list c x z = Less" if "cmp_list c x y = Equal" "cmp_list c y z = Less" for x y z
      using eq [OF that(1), of z] that(2) by simp
    show "cmp_list c x z = Less" if "cmp_list c x y = Less" "cmp_list c y z = Less" for x y z
      using that
    proof (induction x arbitrary: y z)
      case Nil
      then show ?case by (cases y; cases z) auto
    next
      case (Cons a x)
      then obtain b y' where y: "y = b # y'" by (cases y) auto
      with Cons.prems obtain d z' where z: "z = d # z'" by (cases z) auto
      from Cons y z show ?case
        using less [of a b d] left [of a b d] right [of b d a]
        by (auto split: ordering.splits)
    qed
  qed
qed

lemma comparator_map:
  assumes "comparator c"
  shows "comparator (\<lambda>a b. c (f a) (f b))"
  using assms unfolding comparator_def by blast

interpretation str_cmp: comparator cmp_str
  by (rule cmp_list_comparator) (rule char_cmp.comparator_axioms)

interpretation bytes_cmp: comparator cmp_bytes
  by (rule cmp_list_comparator) (rule u8_cmp.comparator_axioms)

lemma cmp_list_Equal_iff:
  "(\<And>a b. c a b = Equal \<longleftrightarrow> a = b) \<Longrightarrow> cmp_list c xs ys = Equal \<longleftrightarrow> xs = ys"
proof (induction xs arbitrary: ys)
  case Nil
  then show ?case by (cases ys) auto
next
  case IH: (Cons x xs)
  show ?case
  proof (cases ys)
    case (Cons y ys')
    with IH.IH [OF IH.prems, of ys'] IH.prems [of x y] show ?thesis by (cases "c x y") auto
  qed simp
qed

lemma cmp_str_Equal [simp]: "cmp_str a b = Equal \<longleftrightarrow> a = b"
  by (rule cmp_list_Equal_iff) simp

lemma cmp_bytes_Equal [simp]: "cmp_bytes a b = Equal \<longleftrightarrow> a = b"
  by (rule cmp_list_Equal_iff) simp

section \<open>Strings\<close>

definition str_of_bytes :: "bytes \<Rightarrow> string" where
  "str_of_bytes bs = map (\<lambda>b. char_of (unat b)) bs"

definition bytes_of_str :: "string \<Rightarrow> bytes" where
  "bytes_of_str s = map of_char s"

lemma length_str_of_bytes [simp]: "length (str_of_bytes bs) = length bs"
  by (simp add: str_of_bytes_def)

lemma length_bytes_of_str [simp]: "length (bytes_of_str s) = length s"
  by (simp add: bytes_of_str_def)

lemma of_char_char_of_u8 [simp]: "of_char (char_of (unat (b :: u8))) = b"
proof -
  have "unat b < 256" using unsigned_less [of b] by simp
  then have "(of_char (char_of (unat b)) :: nat) = unat b" by simp
  then have "of_nat (of_char (char_of (unat b))) = (of_nat (unat b) :: u8)" by metis
  then show ?thesis by (simp only: of_nat_of_char of_nat_unat ucast_id)
qed

lemma char_of_of_char_u8 [simp]: "char_of (unat (of_char c :: u8)) = c"
proof -
  have "(of_char c :: nat) < 256" by simp
  then have "unat (of_nat (of_char c) :: u8) = of_char c"
    by (simp add: unat_of_nat)
  then show ?thesis by (simp add: of_nat_of_char)
qed

lemma bytes_of_str_of_bytes [simp]: "bytes_of_str (str_of_bytes bs) = bs"
  by (simp add: bytes_of_str_def str_of_bytes_def comp_def)

lemma str_of_bytes_of_str [simp]: "str_of_bytes (bytes_of_str s) = s"
  by (simp add: bytes_of_str_def str_of_bytes_def comp_def)

lemma bytes_of_str_inject [simp]: "bytes_of_str s = bytes_of_str t \<longleftrightarrow> s = t"
  by (metis str_of_bytes_of_str)

lemma bytes_of_str_Nil [simp]: "bytes_of_str [] = []" "bytes_of_str s = [] \<longleftrightarrow> s = []"
  by (simp_all add: bytes_of_str_def)

lemma bytes_of_str_append [simp]: "bytes_of_str (s @ t) = bytes_of_str s @ bytes_of_str t"
  by (simp add: bytes_of_str_def)

text \<open>\<open>String::from_utf8\<close> accepts exactly the well-formed UTF-8 sequences.\<close>

definition utf8_cont :: "u8 \<Rightarrow> bool" where
  "utf8_cont b \<longleftrightarrow> 0x80 \<le> b \<and> b \<le> 0xBF"

fun valid_utf8 :: "bytes \<Rightarrow> bool" where
  "valid_utf8 [] = True"
| "valid_utf8 (a # r) =
    (if a < 0x80 then valid_utf8 r
     else if 0xC2 \<le> a \<and> a \<le> 0xDF then
       (case r of b # r1 \<Rightarrow> utf8_cont b \<and> valid_utf8 r1 | _ \<Rightarrow> False)
     else if 0xE0 \<le> a \<and> a \<le> 0xEF then
       (case r of
          b # c # r2 \<Rightarrow>
            utf8_cont b \<and> (a = 0xE0 \<longrightarrow> 0xA0 \<le> b) \<and> (a = 0xED \<longrightarrow> b \<le> 0x9F) \<and>
            utf8_cont c \<and> valid_utf8 r2
        | _ \<Rightarrow> False)
     else if 0xF0 \<le> a \<and> a \<le> 0xF4 then
       (case r of
          b # c # d # r3 \<Rightarrow>
            utf8_cont b \<and> (a = 0xF0 \<longrightarrow> 0x90 \<le> b) \<and> (a = 0xF4 \<longrightarrow> b \<le> 0x8F) \<and>
            utf8_cont c \<and> utf8_cont d \<and> valid_utf8 r3
        | _ \<Rightarrow> False)
     else False)"

lemma valid_utf8_ascii: "\<forall>b \<in> set bs. b < 0x80 \<Longrightarrow> valid_utf8 bs"
  by (induction bs) auto

text \<open>Lower-casing of text: the letters A to Z.\<close>

definition lower_char :: "char \<Rightarrow> char" where
  "lower_char c =
     (let n = of_char c :: nat in if 65 \<le> n \<and> n \<le> 90 then char_of (n + 32) else c)"

definition to_lower :: "string \<Rightarrow> string" where
  "to_lower s = map lower_char s"

lemma lower_char_idem [simp]: "lower_char (lower_char c) = lower_char c"
  by (auto simp: lower_char_def Let_def)

lemma to_lower_idem [simp]: "to_lower (to_lower s) = to_lower s"
  by (simp add: to_lower_def)

lemma length_to_lower [simp]: "length (to_lower s) = length s"
  by (simp add: to_lower_def)

lemma to_lower_Nil_iff [simp]: "to_lower s = [] \<longleftrightarrow> s = []"
  by (simp add: to_lower_def)

section \<open>Lists and words\<close>

lemma nth_append_at [simp]: "(xs @ y # ys) ! length xs = y"
  by simp

lemma take_drop_append_mid: "take (length ys) (drop (length xs) (xs @ ys @ zs)) = ys"
  by simp

lemma unat_u8_less: "unat (b :: u8) < 256"
  using unsigned_less [of b] by simp

lemma unat_u16_less: "unat (b :: u16) < 65536"
  using unsigned_less [of b] by simp

lemma unat_u32_less: "unat (b :: u32) < 4294967296"
  using unsigned_less [of b] by simp

lemma unat_of_nat_u8 [simp]: "n < 256 \<Longrightarrow> unat (of_nat n :: u8) = n"
  by (simp add: unat_of_nat)

lemma unat_of_nat_u16 [simp]: "n < 65536 \<Longrightarrow> unat (of_nat n :: u16) = n"
  by (simp add: unat_of_nat)

lemma unat_of_nat_u32 [simp]: "n < 4294967296 \<Longrightarrow> unat (of_nat n :: u32) = n"
  by (simp add: unat_of_nat)

section \<open>Hash maps\<close>

text \<open>
  A \<open>HashMap\<close> is an association list; two of them are equal when every key has the same value in
  both.
\<close>

definition hm_eq :: "('k \<times> 'v) list \<Rightarrow> ('k \<times> 'v) list \<Rightarrow> bool" where
  "hm_eq xs ys \<longleftrightarrow> list_all (\<lambda>k. map_of xs k = map_of ys k) (map fst xs @ map fst ys)"

lemma hm_eq_iff: "hm_eq xs ys \<longleftrightarrow> map_of xs = map_of ys"
proof
  assume h: "hm_eq xs ys"
  show "map_of xs = map_of ys"
  proof
    fix k
    show "map_of xs k = map_of ys k"
    proof (cases "k \<in> set (map fst xs @ map fst ys)")
      case True
      with h show ?thesis unfolding hm_eq_def list_all_iff by blast
    next
      case False
      then have "map_of xs k = None" "map_of ys k = None" by (simp_all add: map_of_eq_None_iff)
      then show ?thesis by simp
    qed
  qed
qed (simp add: hm_eq_def list_all_iff)

section \<open>Evaluation\<close>

text \<open>Characters and octets are compared by binary numerals when terms are evaluated.\<close>

lemma int_of_char: "int (of_char c :: nat) = (of_char c :: int)"
  by (cases c) simp

lemma cmp_char_code [code]:
  "cmp_char a b = (let x = of_char a :: int; y = of_char b in if x < y then Less else if x = y then Equal else Greater)"
  unfolding cmp_char_def cmp_nat_def Let_def int_of_char [symmetric] of_nat_less_iff of_nat_eq_iff by simp

lemma cmp_u8_code [code]: "cmp_u8 a b = (if a < b then Less else if a = b then Equal else Greater)"
  by (simp add: cmp_u8_def cmp_nat_def word_less_nat_alt word_unat_eq_iff)

lemma lower_char_code [code]:
  "lower_char c =
     (let n = of_char c :: int in
      if 65 \<le> n \<and> n \<le> 90 then (case c of Char b0 b1 b2 b3 b4 _ b6 b7 \<Rightarrow> Char b0 b1 b2 b3 b4 True b6 b7) else c)"
proof (cases c)
  case (Char b0 b1 b2 b3 b4 b5 b6 b7)
  show ?thesis unfolding Char lower_char_def Let_def
    by (cases b0; cases b1; cases b2; cases b3; cases b4; cases b5; cases b6; cases b7) (simp_all add: char_of_def bit_0)
qed

end
