(* ===== verification/Binary.thy ===== *)
theory Binary
  imports Prelude
begin

text \<open>
  The binary decoder and encoder (\<open>client/src/serialize/binary\<close>) with the error kinds of
  \<open>client/src/error\<close> they return.

  A decoding function maps the decoder to a value and the advanced decoder; \<open>try_dec\<close> is the
  \<open>try!\<close> that threads the decoder through a sequence of reads. An encoding function returns
  its result beside the encoder, because a caller that ignores the error keeps the bytes
  written before it; \<open>enc_seq\<close> is a sequence of \<open>try!\<close> statements.

  The lemmas give the closed form of each primitive (what is read or appended, and the only
  cases in which it fails), that no decoder built from them leaves the buffer or moves
  backwards, and that the integer decoders invert the integer encoders.
\<close>

section \<open>Errors\<close>

text \<open>A domain name is its labels; \<open>Domain\<close> holds the operations on it.\<close>

datatype name = Name (labels: "string list")

datatype decode_error =
    Message string
  | Msg string
  | UTF8
  | UnknownDnsClassValue u16
  | UnknownDnsClassStr string
  | UnknownRecordTypeValue u16
  | UnknownRecordTypeStr string
  | UnknownAlgorithmTypeValue u8
  | EdnsNameNotRoot name
  | DnsKeyProtocolNot3 u8
  | UnrecognizedNsec3Flags u8
  | UnrecognizedLabelCode u8
  | IncorrectRDataLengthRead nat nat
  | UnknownNsec3HashAlgorithm u8

datatype encode_error =
    CharacterDataTooLong nat
  | LabelBytesTooLong nat
  | DomainNameTooLong nat

section \<open>The decoder\<close>

record bin_decoder =
  d_buffer :: bytes
  d_index :: nat

type_synonym 'a dec = "bin_decoder \<Rightarrow> ('a \<times> bin_decoder, decode_error) outcome"

definition dec_return :: "'a \<Rightarrow> 'a dec" where
  "dec_return x d = Ok (x, d)"

definition dec_fail :: "decode_error \<Rightarrow> 'a dec" where
  "dec_fail e d = Err e"

definition dec_panic :: "'a dec" where
  "dec_panic d = Panic"

definition dec_lift :: "('a, decode_error) outcome \<Rightarrow> 'a dec" where
  "dec_lift r d = bind_outcome r (\<lambda>x. Ok (x, d))"

definition try_dec :: "'a dec \<Rightarrow> ('a \<Rightarrow> 'b dec) \<Rightarrow> 'b dec" where
  "try_dec m f d = bind_outcome (m d) (\<lambda>(x, d'). f x d')"

definition new_decoder :: "bytes \<Rightarrow> bin_decoder" where
  "new_decoder buf = \<lparr>d_buffer = buf, d_index = 0\<rparr>"

definition pop :: "u8 dec" where
  "pop d =
     (if d_index d < length (d_buffer d)
      then Ok (d_buffer d ! d_index d, d\<lparr>d_index := d_index d + 1\<rparr>)
      else Err (Message ''unexpected end of input reached''))"

text \<open>\<open>len\<close> subtracts without a check: it panics when the index is past the end.\<close>

definition dec_len :: "nat dec" where
  "dec_len d =
     (if d_index d \<le> length (d_buffer d) then Ok (length (d_buffer d) - d_index d, d) else Panic)"

definition peek :: "bin_decoder \<Rightarrow> u8 option" where
  "peek d = (if d_index d < length (d_buffer d) then Some (d_buffer d ! d_index d) else None)"

definition dec_index :: "nat dec" where
  "dec_index d = Ok (d_index d, d)"

definition clone_at :: "bin_decoder \<Rightarrow> u16 \<Rightarrow> bin_decoder" where
  "clone_at d index_at = \<lparr>d_buffer = d_buffer d, d_index = unat index_at\<rparr>"

primrec read_vec :: "nat \<Rightarrow> bytes dec" where
  "read_vec 0 = dec_return []"
| "read_vec (Suc n) = try_dec pop (\<lambda>b. try_dec (read_vec n) (\<lambda>bs. dec_return (b # bs)))"

definition string_from_utf8 :: "bytes \<Rightarrow> (string, decode_error) outcome" where
  "string_from_utf8 bs = (if valid_utf8 bs then Ok (str_of_bytes bs) else Err UTF8)"

definition read_character_data :: "string dec" where
  "read_character_data =
     try_dec pop (\<lambda>length.
     try_dec (read_vec (unat length)) (\<lambda>label_vec.
     dec_lift (string_from_utf8 label_vec)))"

definition read_u8 :: "u8 dec" where
  "read_u8 = pop"

definition read_u16 :: "u16 dec" where
  "read_u16 =
     try_dec pop (\<lambda>b1.
     try_dec pop (\<lambda>b2.
     dec_return (push_bit 8 (ucast b1) + ucast b2)))"

definition read_i32 :: "i32 dec" where
  "read_i32 =
     try_dec pop (\<lambda>b1.
     try_dec pop (\<lambda>b2.
     try_dec pop (\<lambda>b3.
     try_dec pop (\<lambda>b4.
     dec_return (push_bit 24 (ucast b1) + push_bit 16 (ucast b2) + push_bit 8 (ucast b3) + ucast b4)))))"

definition read_u32 :: "u32 dec" where
  "read_u32 =
     try_dec pop (\<lambda>b1.
     try_dec pop (\<lambda>b2.
     try_dec pop (\<lambda>b3.
     try_dec pop (\<lambda>b4.
     dec_return (push_bit 24 (ucast b1) + push_bit 16 (ucast b2) + push_bit 8 (ucast b3) + ucast b4)))))"

section \<open>The encoder\<close>

datatype encode_mode = Signing | Normal

record bin_encoder =
  e_offset :: u32
  e_buffer :: bytes
  name_pointers :: "string list \<Rightarrow> u16 option"
  e_mode :: encode_mode
  canonical_names :: bool

type_synonym enc = "bin_encoder \<Rightarrow> (unit, encode_error) outcome \<times> bin_encoder"

definition enc_return :: enc where
  "enc_return e = (Ok (), e)"

definition enc_fail :: "encode_error \<Rightarrow> enc" where
  "enc_fail x e = (Err x, e)"

definition enc_panic :: enc where
  "enc_panic e = (Panic, e)"

fun enc_seq :: "enc list \<Rightarrow> enc" where
  "enc_seq [] e = (Ok (), e)"
| "enc_seq (m # ms) e = (case m e of (Ok _, e') \<Rightarrow> enc_seq ms e' | r \<Rightarrow> r)"

definition with_offset :: "bytes \<Rightarrow> u32 \<Rightarrow> encode_mode \<Rightarrow> bin_encoder" where
  "with_offset buf offset mode =
     \<lparr>e_offset = offset, e_buffer = buf, name_pointers = Map.empty, e_mode = mode,
      canonical_names = False\<rparr>"

definition with_mode :: "bytes \<Rightarrow> encode_mode \<Rightarrow> bin_encoder" where
  "with_mode buf mode = with_offset buf 0 mode"

definition new_encoder :: "bytes \<Rightarrow> bin_encoder" where
  "new_encoder buf = with_offset buf 0 Normal"

definition set_canonical_names :: "bool \<Rightarrow> bin_encoder \<Rightarrow> bin_encoder" where
  "set_canonical_names b e = e\<lparr>canonical_names := b\<rparr>"

definition emit :: "u8 \<Rightarrow> enc" where
  "emit b e =
     (if e_offset e = - 1 then (Panic, e)
      else (Ok (), e\<lparr>e_offset := e_offset e + 1, e_buffer := e_buffer e @ [b]\<rparr>))"

definition store_label_pointer :: "string list \<Rightarrow> bin_encoder \<Rightarrow> bin_encoder" where
  "store_label_pointer ls e =
     (if e_offset e < 0x3FFF
      then e\<lparr>name_pointers := (name_pointers e)(ls \<mapsto> ucast (e_offset e))\<rparr>
      else e)"

definition get_label_pointer :: "string list \<Rightarrow> bin_encoder \<Rightarrow> u16 option" where
  "get_label_pointer ls e = name_pointers e ls"

definition emit_vec :: "bytes \<Rightarrow> enc" where
  "emit_vec data = enc_seq (map emit data)"

definition emit_character_data :: "string \<Rightarrow> enc" where
  "emit_character_data char_data =
     (let char_bytes = bytes_of_str char_data in
      if length char_bytes > 255 then enc_fail (CharacterDataTooLong (length char_bytes))
      else enc_seq (emit (of_nat (length char_bytes)) # map emit char_bytes))"

definition emit_u16 :: "u16 \<Rightarrow> enc" where
  "emit_u16 data =
     enc_seq [emit (ucast (drop_bit 8 data AND 0xFF)),
              emit (ucast (data AND 0xFF))]"

text \<open>The shift of an \<open>i32\<close> is arithmetic; the mask leaves the same byte as a logical one.\<close>

definition emit_i32 :: "i32 \<Rightarrow> enc" where
  "emit_i32 data =
     enc_seq [emit (ucast (signed_drop_bit 24 data AND 0xFF)),
              emit (ucast (signed_drop_bit 16 data AND 0xFF)),
              emit (ucast (signed_drop_bit 8 data AND 0xFF)),
              emit (ucast (data AND 0xFF))]"

definition emit_u32 :: "u32 \<Rightarrow> enc" where
  "emit_u32 data =
     enc_seq [emit (ucast (drop_bit 24 data AND 0xFF)),
              emit (ucast (drop_bit 16 data AND 0xFF)),
              emit (ucast (drop_bit 8 data AND 0xFF)),
              emit (ucast (data AND 0xFF))]"

section \<open>Decoding lemmas\<close>

named_theorems dec_defs \<open>the combinators a decoding function is built from\<close>

lemmas [dec_defs] = try_dec_def dec_return_def dec_fail_def dec_panic_def dec_lift_def

lemma try_dec_Ok_iff:
  "try_dec m f d = Ok (y, d'') \<longleftrightarrow> (\<exists>x d'. m d = Ok (x, d') \<and> f x d' = Ok (y, d''))"
  by (auto simp: try_dec_def bind_outcome_Ok_iff)

lemma try_dec_OkI: "m d = Ok (x, d') \<Longrightarrow> try_dec m f d = f x d'"
  by (simp add: try_dec_def)

lemma dec_return_Ok_iff [simp]: "dec_return x d = Ok (y, d') \<longleftrightarrow> y = x \<and> d' = d"
  by (auto simp: dec_return_def)

lemma dec_fail_not_Ok [simp]: "dec_fail e d \<noteq> Ok r"
  by (simp add: dec_fail_def)

lemma dec_panic_not_Ok [simp]: "dec_panic d \<noteq> Ok r"
  by (simp add: dec_panic_def)

lemma dec_lift_Ok_iff [simp]: "dec_lift r d = Ok (y, d') \<longleftrightarrow> r = Ok y \<and> d' = d"
  by (cases r) (auto simp: dec_lift_def)

lemma dec_index_Ok_iff [simp]: "dec_index d = Ok (n, d') \<longleftrightarrow> n = d_index d \<and> d' = d"
  by (auto simp: dec_index_def)

lemma pop_Ok_iff:
  "pop d = Ok (b, d') \<longleftrightarrow>
     d_index d < length (d_buffer d) \<and> b = d_buffer d ! d_index d \<and>
     d' = d\<lparr>d_index := d_index d + 1\<rparr>"
  by (auto simp: pop_def)

lemma read_vec_closed:
  assumes "d_index d \<le> length (d_buffer d)"
  shows "read_vec n d =
     (if d_index d + n \<le> length (d_buffer d)
      then Ok (take n (drop (d_index d) (d_buffer d)), d\<lparr>d_index := d_index d + n\<rparr>)
      else Err (Message ''unexpected end of input reached''))"
  using assms
proof (induction n arbitrary: d)
  case (Suc n)
  show ?case
  proof (cases "d_index d < length (d_buffer d)")
    case True
    with Suc.IH [of "d\<lparr>d_index := d_index d + 1\<rparr>"] show ?thesis
      by (simp add: dec_defs pop_def Cons_nth_drop_Suc [symmetric] Suc_eq_plus1 [symmetric]
          del: Suc_eq_plus1)
  next
    case False
    with Suc.prems show ?thesis by (simp add: dec_defs pop_def)
  qed
qed (simp add: dec_defs)

lemma read_vec_Ok_iff:
  "read_vec n d = Ok (bs, d') \<longleftrightarrow>
     (n = 0 \<or> d_index d + n \<le> length (d_buffer d)) \<and>
     bs = take n (drop (d_index d) (d_buffer d)) \<and> d' = d\<lparr>d_index := d_index d + n\<rparr>"
proof (cases "d_index d \<le> length (d_buffer d)")
  case True
  then show ?thesis by (auto simp: read_vec_closed)
next
  case False
  then show ?thesis by (cases n) (auto simp: dec_defs pop_def)
qed

lemma length_read_vec: "read_vec n d = Ok (bs, d') \<Longrightarrow> length bs = n"
  by (auto simp: read_vec_Ok_iff)

text \<open>
  A decoding function advances: it leaves the buffer alone, never moves backwards, and never
  passes the end of the buffer.
\<close>

definition advances :: "'a dec \<Rightarrow> bool" where
  "advances r \<longleftrightarrow>
     (\<forall>d x d'. r d = Ok (x, d') \<longrightarrow>
        d_buffer d' = d_buffer d \<and> d_index d \<le> d_index d' \<and>
        (d_index d \<le> length (d_buffer d) \<longrightarrow> d_index d' \<le> length (d_buffer d)))"

named_theorems advancing \<open>decoding functions that advance\<close>

lemma advancesD:
  assumes "advances r" "r d = Ok (x, d')"
  shows "d_buffer d' = d_buffer d" "d_index d \<le> d_index d'"
    "d_index d \<le> length (d_buffer d) \<Longrightarrow> d_index d' \<le> length (d_buffer d)"
  using assms by (auto simp: advances_def)

lemma advances_try [advancing]:
  assumes "advances m" "\<And>x. advances (f x)"
  shows "advances (try_dec m f)"
  unfolding advances_def
proof (intro allI impI)
  fix d y d''
  assume "try_dec m f d = Ok (y, d'')"
  then obtain x d' where m: "m d = Ok (x, d')" and f: "f x d' = Ok (y, d'')"
    by (auto simp: try_dec_Ok_iff)
  from advancesD [OF assms(1) m] advancesD [OF assms(2) f]
  show "d_buffer d'' = d_buffer d \<and> d_index d \<le> d_index d'' \<and>
        (d_index d \<le> length (d_buffer d) \<longrightarrow> d_index d'' \<le> length (d_buffer d))"
    by auto
qed

lemma advances_basic [advancing]:
  "advances (dec_return x)" "advances (dec_fail e)" "advances dec_panic" "advances (dec_lift r)"
  "advances dec_index"
  by (simp_all add: advances_def)

lemma advances_if [advancing]:
  "(b \<Longrightarrow> advances m) \<Longrightarrow> (\<not> b \<Longrightarrow> advances m') \<Longrightarrow> advances (if b then m else m')"
  by simp

lemma advances_pop [advancing]: "advances pop"
  by (auto simp: advances_def pop_Ok_iff)

lemma advances_dec_len [advancing]: "advances dec_len"
  by (auto simp: advances_def dec_len_def split: if_splits)

lemma advances_read_vec [advancing]: "advances (read_vec n)"
  by (auto simp: advances_def read_vec_Ok_iff)

lemma advances_read_character_data [advancing]: "advances read_character_data"
  unfolding read_character_data_def by (intro advancing)

lemma advances_integers [advancing]:
  "advances read_u8" "advances read_u16" "advances read_i32" "advances read_u32"
  unfolding read_u8_def read_u16_def read_i32_def read_u32_def by (intro advancing)+

lemma dec_len_Ok_iff:
  "dec_len d = Ok (n, d') \<longleftrightarrow>
     d_index d \<le> length (d_buffer d) \<and> n = length (d_buffer d) - d_index d \<and> d' = d"
  by (auto simp: dec_len_def)

section \<open>Encoding lemmas\<close>

lemma enc_seq_Cons_Ok_iff:
  "enc_seq (m # ms) e = (Ok (), e'') \<longleftrightarrow> (\<exists>e'. m e = (Ok (), e') \<and> enc_seq ms e' = (Ok (), e''))"
  by (auto split: prod.splits outcome.splits)

lemma enc_seq_append:
  "enc_seq (ms @ ns) e = enc_seq [enc_seq ms, enc_seq ns] e"
  by (induction ms arbitrary: e) (auto split: prod.splits outcome.splits)

text \<open>The encoder after appending bytes, and when that is possible without overflow.\<close>

definition push_bytes :: "bytes \<Rightarrow> bin_encoder \<Rightarrow> bin_encoder" where
  "push_bytes bs e = e\<lparr>e_offset := e_offset e + of_nat (length bs), e_buffer := e_buffer e @ bs\<rparr>"

definition room_for :: "nat \<Rightarrow> bin_encoder \<Rightarrow> bool" where
  "room_for n e \<longleftrightarrow> unat (e_offset e) + n < 2 ^ 32"

lemma push_bytes_sel [simp]:
  "e_offset (push_bytes bs e) = e_offset e + of_nat (length bs)"
  "e_buffer (push_bytes bs e) = e_buffer e @ bs"
  "name_pointers (push_bytes bs e) = name_pointers e"
  "e_mode (push_bytes bs e) = e_mode e"
  "canonical_names (push_bytes bs e) = canonical_names e"
  by (simp_all add: push_bytes_def)

lemma push_bytes_Nil [simp]: "push_bytes [] e = e"
  by (simp add: push_bytes_def)

lemma push_bytes_push_bytes [simp]: "push_bytes cs (push_bytes bs e) = push_bytes (bs @ cs) e"
  by (simp add: push_bytes_def algebra_simps)

lemma unat_offset_push:
  "room_for (length bs) e \<Longrightarrow> unat (e_offset (push_bytes bs e)) = unat (e_offset e) + length bs"
  by (simp add: room_for_def unat_word_ariths(1) unat_of_nat)

lemma emit_room: "emit b e = (if room_for 1 e then (Ok (), push_bytes [b] e) else (Panic, e))"
proof -
  have "e_offset e = - 1 \<longleftrightarrow> unat (e_offset e) = 2 ^ 32 - 1"
    by (simp add: word_unat_eq_iff unsigned_minus_1_eq_mask mask_eq_exp_minus_1)
  moreover have "unat (e_offset e) < 2 ^ 32"
    using unsigned_less [of "e_offset e"] by simp
  ultimately show ?thesis
    by (auto simp: emit_def room_for_def push_bytes_def)
qed

lemma emit_vec_Ok_iff:
  "emit_vec bs e = (Ok (), e') \<longleftrightarrow> room_for (length bs) e \<and> e' = push_bytes bs e"
proof (induction bs arbitrary: e)
  case Nil
  then show ?case using unat_u32_less [of "e_offset e"] by (auto simp: emit_vec_def room_for_def)
next
  case (Cons b bs)
  have "room_for (length bs) (push_bytes [b] e) = room_for (length (b # bs)) e" if "room_for 1 e"
    using that unat_offset_push [of "[b]" e] by (simp add: room_for_def)
  moreover have "room_for 1 e" if "room_for (length (b # bs)) e"
    using that by (simp add: room_for_def)
  ultimately show ?case
    using Cons.IH [of "push_bytes [b] e"]
    by (auto simp: emit_vec_def enc_seq_Cons_Ok_iff emit_room simp del: enc_seq.simps)
qed

text \<open>Big-endian byte order: the encoders append these bytes, and the decoders rebuild the value.\<close>

definition be16 :: "u16 \<Rightarrow> bytes" where
  "be16 x = [ucast (drop_bit 8 x), ucast x]"

definition be32 :: "u32 \<Rightarrow> bytes" where
  "be32 x = [ucast (drop_bit 24 x), ucast (drop_bit 16 x), ucast (drop_bit 8 x), ucast x]"

lemma length_be [simp]: "length (be16 x) = 2" "length (be32 y) = 4"
  by (simp_all add: be16_def be32_def)

lemma ucast_and_0xFF: "(ucast ((w :: 'a :: len word) AND 0xFF) :: u8) = ucast w"
proof -
  have m: "(0xFF :: 'a word) = mask 8" by (simp add: mask_eq_exp_minus_1)
  show ?thesis unfolding m by (rule bit_word_eqI) (auto simp: bit_simps dest: bit_imp_le_length)
qed

lemma ucast_signed_drop_bit:
  "n \<le> 24 \<Longrightarrow> (ucast (signed_drop_bit n (w :: i32)) :: u8) = ucast (drop_bit n w)"
  by (rule bit_word_eqI) (auto simp: bit_simps)

lemma emit_u16_eq: "emit_u16 x = emit_vec (be16 x)"
  by (simp add: emit_u16_def emit_vec_def be16_def ucast_and_0xFF)

lemma emit_u32_eq: "emit_u32 x = emit_vec (be32 x)"
  by (simp add: emit_u32_def emit_vec_def be32_def ucast_and_0xFF)

lemma emit_i32_eq: "emit_i32 x = emit_vec (be32 x)"
  by (simp add: emit_i32_def emit_vec_def be32_def ucast_and_0xFF ucast_signed_drop_bit)

lemma emit_eq_vec: "emit b = emit_vec [b]"
  by (rule ext) (auto simp: emit_vec_def split: prod.splits outcome.splits)

lemma emit_character_data_eq:
  "emit_character_data s =
     (if length s > 255 then enc_fail (CharacterDataTooLong (length s))
      else emit_vec (of_nat (length s) # bytes_of_str s))"
  by (simp add: emit_character_data_def emit_vec_def Let_def)

lemma be16_join: "push_bit 8 (ucast (ucast (drop_bit 8 x) :: u8)) + ucast (ucast x :: u8) = (x :: u16)"
  by (subst disjunctive_add) (simp add: bit_simps, rule bit_word_eqI, auto simp: bit_simps)

lemma be32_join:
  "push_bit 24 (ucast (ucast (drop_bit 24 x) :: u8)) + push_bit 16 (ucast (ucast (drop_bit 16 x) :: u8)) +
   push_bit 8 (ucast (ucast (drop_bit 8 x) :: u8)) + ucast (ucast x :: u8) = (x :: u32)"
proof ((subst disjunctive_add, (auto simp: bit_simps)[1])+, rule bit_word_eqI, goal_cases)
  case (1 n)
  then consider "n < 8" | "8 \<le> n" "n < 16" | "16 \<le> n" "n < 24" | "24 \<le> n" by linarith
  then show ?case using 1 by cases (auto simp: bit_simps)
qed

text \<open>Reading at a position where given bytes stand.\<close>

definition bytes_at :: "bytes \<Rightarrow> nat \<Rightarrow> bytes \<Rightarrow> bool" where
  "bytes_at buf i bs \<longleftrightarrow> (\<exists>pre rest. buf = pre @ bs @ rest \<and> length pre = i)"

lemma bytes_at_Cons:
  "bytes_at buf i (b # bs) \<longleftrightarrow> i < length buf \<and> buf ! i = b \<and> bytes_at buf (Suc i) bs"
proof
  assume "bytes_at buf i (b # bs)"
  then obtain pre rest where "buf = pre @ (b # bs) @ rest" "length pre = i"
    by (auto simp: bytes_at_def)
  moreover from this have "bytes_at buf (Suc i) bs"
    unfolding bytes_at_def by (intro exI [of _ "pre @ [b]"] exI [of _ rest]) simp
  ultimately show "i < length buf \<and> buf ! i = b \<and> bytes_at buf (Suc i) bs" by auto
next
  assume r: "i < length buf \<and> buf ! i = b \<and> bytes_at buf (Suc i) bs"
  then obtain pre rest where buf: "buf = pre @ bs @ rest" "length pre = Suc i"
    by (auto simp: bytes_at_def)
  then obtain pre' b' where pre: "pre = pre' @ [b']" "length pre' = i"
    by (metis length_Suc_conv_rev)
  with buf r have "b' = b" by (simp add: nth_append)
  with buf pre show "bytes_at buf i (b # bs)"
    unfolding bytes_at_def by (intro exI [of _ pre'] exI [of _ rest]) simp
qed

lemma bytes_at_append:
  "bytes_at buf i (bs @ cs) \<longleftrightarrow> bytes_at buf i bs \<and> bytes_at buf (i + length bs) cs"
proof (induction bs arbitrary: i)
  case Nil
  then show ?case
    by (auto simp: bytes_at_def)
qed (auto simp: bytes_at_Cons)

lemma bytes_at_mid [simp]: "bytes_at (pre @ bs @ rest) (length pre) bs"
  by (auto simp: bytes_at_def)

lemma bytes_at_take:
  assumes "i \<le> length buf"
  shows "bytes_at buf i (take n (drop i buf))"
  unfolding bytes_at_def
  by (intro exI [of _ "take i buf"] exI [of _ "drop n (drop i buf)"] conjI)
    (simp add: append_take_drop_id [of n "drop i buf"] del: drop_drop, use assms in simp)

lemma bytes_at_Nil: "bytes_at buf i [] \<longleftrightarrow> i \<le> length buf"
  using bytes_at_take [of i buf 0] by (auto simp: bytes_at_def)

lemma bytes_at_le: "bytes_at buf i bs \<Longrightarrow> i + length bs \<le> length buf"
  by (auto simp: bytes_at_def)

lemma pop_at: "bytes_at (d_buffer d) (d_index d) [b] \<Longrightarrow> pop d = Ok (b, d\<lparr>d_index := d_index d + 1\<rparr>)"
  by (auto simp: bytes_at_Cons pop_def)

lemma read_vec_at:
  "bytes_at (d_buffer d) (d_index d) bs \<Longrightarrow>
   read_vec (length bs) d = Ok (bs, d\<lparr>d_index := d_index d + length bs\<rparr>)"
  by (auto simp: read_vec_Ok_iff bytes_at_def)

lemma read_u8_at:
  "bytes_at (d_buffer d) (d_index d) [b] \<Longrightarrow> read_u8 d = Ok (b, d\<lparr>d_index := d_index d + 1\<rparr>)"
  by (simp add: read_u8_def pop_at)

lemma read_u16_at:
  "bytes_at (d_buffer d) (d_index d) (be16 x) \<Longrightarrow> read_u16 d = Ok (x, d\<lparr>d_index := d_index d + 2\<rparr>)"
  by (simp add: read_u16_def be16_def bytes_at_Cons dec_defs pop_def be16_join)

lemma read_u32_at:
  "bytes_at (d_buffer d) (d_index d) (be32 x) \<Longrightarrow> read_u32 d = Ok (x, d\<lparr>d_index := d_index d + 4\<rparr>)"
  by (simp add: read_u32_def be32_def bytes_at_Cons dec_defs pop_def be32_join)

lemma read_i32_at:
  "bytes_at (d_buffer d) (d_index d) (be32 x) \<Longrightarrow> read_i32 d = Ok (x, d\<lparr>d_index := d_index d + 4\<rparr>)"
  by (simp add: read_i32_def be32_def bytes_at_Cons dec_defs pop_def be32_join)

lemma read_character_data_at:
  assumes "bytes_at (d_buffer d) (d_index d) (of_nat (length s) # bytes_of_str s)"
    and "length s \<le> 255" "valid_utf8 (bytes_of_str s)"
  shows "read_character_data d = Ok (s, d\<lparr>d_index := d_index d + 1 + length s\<rparr>)"
proof -
  have "pop d = Ok (of_nat (length s), d\<lparr>d_index := d_index d + 1\<rparr>)"
    using assms(1) by (simp add: pop_def bytes_at_Cons)
  moreover have "read_vec (length s) (d\<lparr>d_index := d_index d + 1\<rparr>) =
      Ok (bytes_of_str s, d\<lparr>d_index := d_index d + 1 + length s\<rparr>)"
    using assms(1) read_vec_at [of "d\<lparr>d_index := d_index d + 1\<rparr>" "bytes_of_str s"]
    by (simp add: bytes_at_Cons)
  ultimately show ?thesis
    using assms(2,3) by (simp add: read_character_data_def dec_defs string_from_utf8_def)
qed

text \<open>
  Character data read back is what was written: whenever \<open>emit_character_data\<close> succeeds
  on a string, \<open>read_character_data\<close> at the position where it was written returns that
  string and stops right after it, whatever follows in the buffer.
\<close>
lemma character_data_roundtrip:
  assumes "emit_character_data s e = (Ok (), e')" "valid_utf8 (bytes_of_str s)"
  shows "read_character_data \<lparr>d_buffer = e_buffer e' @ rest, d_index = length (e_buffer e)\<rparr> =
           Ok (s, \<lparr>d_buffer = e_buffer e' @ rest, d_index = length (e_buffer e')\<rparr>)"
proof -
  from assms(1) have len: "length s \<le> 255"
    and e': "e' = push_bytes (of_nat (length s) # bytes_of_str s) e"
    by (auto simp: emit_character_data_eq emit_vec_Ok_iff enc_fail_def split: if_splits)
  have "bytes_at (e_buffer e' @ rest) (length (e_buffer e)) (of_nat (length s) # bytes_of_str s)"
    unfolding e' 
    using bytes_at_mid [of "e_buffer e" "of_nat (length s) # bytes_of_str s" rest] by simp
  with len assms(2) show ?thesis
    by (subst read_character_data_at) (simp_all add: e')
qed

end
