(* ===== verification/Record_Types.thy ===== *)
theory Record_Types
  imports Binary
begin

text \<open>
  The code-point types of the protocol: \<open>RecordType\<close>, \<open>DNSClass\<close>, \<open>OpCode\<close> and
  \<open>ResponseCode\<close>, and those of DNSSEC: \<open>Algorithm\<close>, \<open>DigestType\<close>,
  \<open>Nsec3HashAlgorithm\<close> and the bit set \<open>SupportedAlgorithms\<close>.

  The lemmas show which codes decode, that decoding inverts encoding where it does, where it
  does not (\<open>IXFR\<close>, the response codes 11 to 15 and above 23), and that \<open>SupportedAlgorithms\<close>
  is a set of algorithms.
\<close>

section \<open>Decimal formatting\<close>

fun show_nat :: "nat \<Rightarrow> string" where
  "show_nat n =
     (if n < 10 then [char_of (48 + n)] else show_nat (n div 10) @ [char_of (48 + n mod 10)])"

declare show_nat.simps [simp del]

section \<open>Record types\<close>

datatype record_type =
    RT_A
  | RT_AAAA
  | RT_ANY
  | RT_AXFR
  | RT_CNAME
  | RT_DNSKEY
  | RT_DS
  | RT_IXFR
  | RT_KEY
  | RT_MX
  | RT_NS
  | RT_NULL
  | RT_NSEC
  | RT_NSEC3
  | RT_NSEC3PARAM
  | RT_OPT
  | RT_PTR
  | RT_RRSIG
  | RT_SIG
  | RT_SOA
  | RT_SRV
  | RT_TXT

fun rt_to_u16 :: "record_type \<Rightarrow> u16" where
  "rt_to_u16 RT_A = 1"
| "rt_to_u16 RT_AAAA = 28"
| "rt_to_u16 RT_ANY = 255"
| "rt_to_u16 RT_AXFR = 252"
| "rt_to_u16 RT_CNAME = 5"
| "rt_to_u16 RT_DNSKEY = 48"
| "rt_to_u16 RT_DS = 43"
| "rt_to_u16 RT_IXFR = 251"
| "rt_to_u16 RT_KEY = 25"
| "rt_to_u16 RT_MX = 15"
| "rt_to_u16 RT_NS = 2"
| "rt_to_u16 RT_NULL = 0"
| "rt_to_u16 RT_NSEC = 47"
| "rt_to_u16 RT_NSEC3 = 50"
| "rt_to_u16 RT_NSEC3PARAM = 51"
| "rt_to_u16 RT_OPT = 41"
| "rt_to_u16 RT_PTR = 12"
| "rt_to_u16 RT_RRSIG = 46"
| "rt_to_u16 RT_SIG = 24"
| "rt_to_u16 RT_SOA = 6"
| "rt_to_u16 RT_SRV = 33"
| "rt_to_u16 RT_TXT = 16"

fun rt_to_str :: "record_type \<Rightarrow> string" where
  "rt_to_str RT_A = ''A''"
| "rt_to_str RT_AAAA = ''AAAA''"
| "rt_to_str RT_ANY = ''ANY''"
| "rt_to_str RT_AXFR = ''AXFR''"
| "rt_to_str RT_CNAME = ''CNAME''"
| "rt_to_str RT_DNSKEY = ''DNSKEY''"
| "rt_to_str RT_DS = ''DS''"
| "rt_to_str RT_IXFR = ''IXFR''"
| "rt_to_str RT_KEY = ''KEY''"
| "rt_to_str RT_MX = ''MX''"
| "rt_to_str RT_NS = ''NS''"
| "rt_to_str RT_NULL = ''NULL''"
| "rt_to_str RT_NSEC = ''NSEC''"
| "rt_to_str RT_NSEC3 = ''NSEC3''"
| "rt_to_str RT_NSEC3PARAM = ''NSEC3PARAM''"
| "rt_to_str RT_OPT = ''OPT''"
| "rt_to_str RT_PTR = ''PTR''"
| "rt_to_str RT_RRSIG = ''RRSIG''"
| "rt_to_str RT_SIG = ''SIG''"
| "rt_to_str RT_SOA = ''SOA''"
| "rt_to_str RT_SRV = ''SRV''"
| "rt_to_str RT_TXT = ''TXT''"

definition rt_from_u16 :: "u16 \<Rightarrow> (record_type, decode_error) outcome" where
  "rt_from_u16 value =
    (if value = 1 then Ok RT_A
     else if value = 28 then Ok RT_AAAA
     else if value = 255 then Ok RT_ANY
     else if value = 252 then Ok RT_AXFR
     else if value = 5 then Ok RT_CNAME
     else if value = 48 then Ok RT_DNSKEY
     else if value = 43 then Ok RT_DS
     else if value = 25 then Ok RT_KEY
     else if value = 15 then Ok RT_MX
     else if value = 2 then Ok RT_NS
     else if value = 47 then Ok RT_NSEC
     else if value = 50 then Ok RT_NSEC3
     else if value = 51 then Ok RT_NSEC3PARAM
     else if value = 0 then Ok RT_NULL
     else if value = 41 then Ok RT_OPT
     else if value = 12 then Ok RT_PTR
     else if value = 46 then Ok RT_RRSIG
     else if value = 24 then Ok RT_SIG
     else if value = 6 then Ok RT_SOA
     else if value = 33 then Ok RT_SRV
     else if value = 16 then Ok RT_TXT
     else Err (UnknownRecordTypeValue value))"

definition rt_from_str :: "string \<Rightarrow> (record_type, decode_error) outcome" where
  "rt_from_str s =
    (if s = ''A'' then Ok RT_A
     else if s = ''AAAA'' then Ok RT_AAAA
     else if s = ''CNAME'' then Ok RT_CNAME
     else if s = ''NULL'' then Ok RT_NULL
     else if s = ''MX'' then Ok RT_MX
     else if s = ''NS'' then Ok RT_NS
     else if s = ''PTR'' then Ok RT_PTR
     else if s = ''SOA'' then Ok RT_SOA
     else if s = ''SRV'' then Ok RT_SRV
     else if s = ''TXT'' then Ok RT_TXT
     else if s = ''ANY'' \<or> s = ''*'' then Ok RT_ANY
     else if s = ''AXFR'' then Ok RT_AXFR
     else Err (UnknownRecordTypeStr s))"

definition rt_read :: "record_type dec" where
  "rt_read = try_dec read_u16 (\<lambda>value. dec_lift (rt_from_u16 value))"

definition rt_emit :: "record_type \<Rightarrow> enc" where
  "rt_emit rt = emit_u16 (rt_to_u16 rt)"

definition rt_cmp :: "record_type \<Rightarrow> record_type \<Rightarrow> ordering" where
  "rt_cmp a b = cmp_nat (unat (rt_to_u16 a)) (unat (rt_to_u16 b))"

section \<open>Classes\<close>

datatype dns_class = CL_IN | CL_CH | CL_HS | CL_NONE | CL_ANY | CL_OPT u16

fun class_to_u16 :: "dns_class \<Rightarrow> u16" where
  "class_to_u16 CL_IN = 1"
| "class_to_u16 CL_CH = 3"
| "class_to_u16 CL_HS = 4"
| "class_to_u16 CL_NONE = 254"
| "class_to_u16 CL_ANY = 255"
| "class_to_u16 (CL_OPT version) = version"

fun class_to_str :: "dns_class \<Rightarrow> string" where
  "class_to_str CL_IN = ''IN''"
| "class_to_str CL_CH = ''CH''"
| "class_to_str CL_HS = ''HS''"
| "class_to_str CL_NONE = ''NONE''"
| "class_to_str CL_ANY = ''ANY''"
| "class_to_str (CL_OPT _) = ''OPT''"

definition class_from_u16 :: "u16 \<Rightarrow> (dns_class, decode_error) outcome" where
  "class_from_u16 value =
    (if value = 1 then Ok CL_IN
     else if value = 3 then Ok CL_CH
     else if value = 4 then Ok CL_HS
     else if value = 254 then Ok CL_NONE
     else if value = 255 then Ok CL_ANY
     else Err (UnknownDnsClassValue value))"

definition class_from_str :: "string \<Rightarrow> (dns_class, decode_error) outcome" where
  "class_from_str s =
    (if s = ''IN'' then Ok CL_IN
     else if s = ''CH'' then Ok CL_CH
     else if s = ''HS'' then Ok CL_HS
     else if s = ''NONE'' then Ok CL_NONE
     else if s = ''ANY'' \<or> s = ''*'' then Ok CL_ANY
     else Err (UnknownDnsClassStr s))"

definition class_for_opt :: "u16 \<Rightarrow> dns_class" where
  "class_for_opt value = CL_OPT value"

definition class_read :: "dns_class dec" where
  "class_read = try_dec read_u16 (\<lambda>value. dec_lift (class_from_u16 value))"

definition class_emit :: "dns_class \<Rightarrow> enc" where
  "class_emit c = emit_u16 (class_to_u16 c)"

definition class_cmp :: "dns_class \<Rightarrow> dns_class \<Rightarrow> ordering" where
  "class_cmp a b = cmp_nat (unat (class_to_u16 a)) (unat (class_to_u16 b))"

section \<open>Operation codes\<close>

datatype op_code = OP_Query | OP_Status | OP_Notify | OP_Update

fun op_to_u8 :: "op_code \<Rightarrow> u8" where
  "op_to_u8 OP_Query = 0"
| "op_to_u8 OP_Status = 2"
| "op_to_u8 OP_Notify = 4"
| "op_to_u8 OP_Update = 5"

definition op_from_u8 :: "u8 \<Rightarrow> (op_code, decode_error) outcome" where
  "op_from_u8 value =
    (if value = 0 then Ok OP_Query
     else if value = 2 then Ok OP_Status
     else if value = 4 then Ok OP_Notify
     else if value = 5 then Ok OP_Update
     else Err (Msg (''unknown OpCode: '' @ show_nat (unat value))))"

section \<open>Response codes\<close>

datatype response_code =
    NoError
  | FormErr
  | ServFail
  | NXDomain
  | NotImp
  | Refused
  | YXDomain
  | YXRRSet
  | NXRRSet
  | NotAuth
  | NotZone
  | BADVERS
  | BADSIG
  | BADKEY
  | BADTIME
  | BADMODE
  | BADNAME
  | BADALG
  | BADTRUNC
  | BADCOOKIE

fun rcode_to_u16 :: "response_code \<Rightarrow> u16" where
  "rcode_to_u16 NoError = 0"
| "rcode_to_u16 FormErr = 1"
| "rcode_to_u16 ServFail = 2"
| "rcode_to_u16 NXDomain = 3"
| "rcode_to_u16 NotImp = 4"
| "rcode_to_u16 Refused = 5"
| "rcode_to_u16 YXDomain = 6"
| "rcode_to_u16 YXRRSet = 7"
| "rcode_to_u16 NXRRSet = 8"
| "rcode_to_u16 NotAuth = 9"
| "rcode_to_u16 NotZone = 10"
| "rcode_to_u16 BADVERS = 16"
| "rcode_to_u16 BADSIG = 16"
| "rcode_to_u16 BADKEY = 17"
| "rcode_to_u16 BADTIME = 18"
| "rcode_to_u16 BADMODE = 19"
| "rcode_to_u16 BADNAME = 20"
| "rcode_to_u16 BADALG = 21"
| "rcode_to_u16 BADTRUNC = 22"
| "rcode_to_u16 BADCOOKIE = 23"

text \<open>The catch-all arm is \<open>unimplemented!()\<close>.\<close>

definition rcode_from_u16 :: "u16 \<Rightarrow> (response_code, decode_error) outcome" where
  "rcode_from_u16 value =
    (if value = 0 then Ok NoError
     else if value = 1 then Ok FormErr
     else if value = 2 then Ok ServFail
     else if value = 3 then Ok NXDomain
     else if value = 4 then Ok NotImp
     else if value = 5 then Ok Refused
     else if value = 6 then Ok YXDomain
     else if value = 7 then Ok YXRRSet
     else if value = 8 then Ok NXRRSet
     else if value = 9 then Ok NotAuth
     else if value = 10 then Ok NotZone
     else if value = 16 then Ok BADSIG
     else if value = 17 then Ok BADKEY
     else if value = 18 then Ok BADTIME
     else if value = 19 then Ok BADMODE
     else if value = 20 then Ok BADNAME
     else if value = 21 then Ok BADALG
     else if value = 22 then Ok BADTRUNC
     else if value = 23 then Ok BADCOOKIE
     else Panic)"

definition rcode_low :: "response_code \<Rightarrow> u8" where
  "rcode_low rc = ucast (rcode_to_u16 rc AND 0x000F)"

definition rcode_from :: "u8 \<Rightarrow> u8 \<Rightarrow> (response_code, decode_error) outcome" where
  "rcode_from high low = rcode_from_u16 (push_bit 4 (ucast high) OR (ucast low AND 0x000F))"

fun rcode_to_str :: "response_code \<Rightarrow> string" where
  "rcode_to_str NoError = ''No Error''"
| "rcode_to_str FormErr = ''Form Error''"
| "rcode_to_str ServFail = ''Server Failure''"
| "rcode_to_str NXDomain = ''Non-Existent Domain''"
| "rcode_to_str NotImp = ''Not Implemented''"
| "rcode_to_str Refused = ''Query Refused''"
| "rcode_to_str YXDomain = ''Name should not exist''"
| "rcode_to_str YXRRSet = ''RR Set should not exist''"
| "rcode_to_str NXRRSet = ''RR Set does not exist''"
| "rcode_to_str NotAuth = ''Not authorized''"
| "rcode_to_str NotZone = ''Name not in zone''"
| "rcode_to_str BADVERS = ''Bad option verions''"
| "rcode_to_str BADSIG = ''TSIG Failure''"
| "rcode_to_str BADKEY = ''Key not recognized''"
| "rcode_to_str BADTIME = ''Signature out of time window''"
| "rcode_to_str BADMODE = ''Bad TKEY mode''"
| "rcode_to_str BADNAME = ''Duplicate key name''"
| "rcode_to_str BADALG = ''Algorithm not supported''"
| "rcode_to_str BADTRUNC = ''Bad truncation''"
| "rcode_to_str BADCOOKIE = ''Bad server cookie''"
section \<open>DNSSEC algorithms\<close>

datatype algorithm =
    RSASHA1
  | RSASHA1NSEC3SHA1
  | RSASHA256
  | RSASHA512
  | ECDSAP256SHA256
  | ECDSAP384SHA384
  | ED25519

fun alg_to_u8 :: "algorithm \<Rightarrow> u8" where
  "alg_to_u8 RSASHA1 = 5"
| "alg_to_u8 RSASHA1NSEC3SHA1 = 7"
| "alg_to_u8 RSASHA256 = 8"
| "alg_to_u8 RSASHA512 = 10"
| "alg_to_u8 ECDSAP256SHA256 = 13"
| "alg_to_u8 ECDSAP384SHA384 = 14"
| "alg_to_u8 ED25519 = 15"

definition alg_from_u8 :: "u8 \<Rightarrow> (algorithm, decode_error) outcome" where
  "alg_from_u8 value =
    (if value = 5 then Ok RSASHA1
     else if value = 7 then Ok RSASHA1NSEC3SHA1
     else if value = 8 then Ok RSASHA256
     else if value = 10 then Ok RSASHA512
     else if value = 13 then Ok ECDSAP256SHA256
     else if value = 14 then Ok ECDSAP384SHA384
     else if value = 15 then Ok ED25519
     else Err (UnknownAlgorithmTypeValue value))"

fun alg_hash_len :: "algorithm \<Rightarrow> nat" where
  "alg_hash_len RSASHA1 = 20"
| "alg_hash_len RSASHA1NSEC3SHA1 = 20"
| "alg_hash_len RSASHA256 = 32"
| "alg_hash_len ECDSAP256SHA256 = 32"
| "alg_hash_len ED25519 = 32"
| "alg_hash_len ECDSAP384SHA384 = 48"
| "alg_hash_len RSASHA512 = 64"

fun alg_to_str :: "algorithm \<Rightarrow> string" where
  "alg_to_str RSASHA1 = ''RSASHA1''"
| "alg_to_str RSASHA256 = ''RSASHA256''"
| "alg_to_str RSASHA1NSEC3SHA1 = ''RSASHA1-NSEC3-SHA1''"
| "alg_to_str RSASHA512 = ''RSASHA512''"
| "alg_to_str ECDSAP256SHA256 = ''ECDSAP256SHA256''"
| "alg_to_str ECDSAP384SHA384 = ''ECDSAP384SHA384''"
| "alg_to_str ED25519 = ''ED25519''"

definition alg_from_str :: "string \<Rightarrow> (algorithm, decode_error) outcome" where
  "alg_from_str s =
    (if s = ''RSASHA1'' then Ok RSASHA1
     else if s = ''RSASHA256'' then Ok RSASHA256
     else if s = ''RSASHA1-NSEC3-SHA1'' then Ok RSASHA1NSEC3SHA1
     else if s = ''RSASHA512'' then Ok RSASHA512
     else if s = ''ECDSAP256SHA256'' then Ok ECDSAP256SHA256
     else if s = ''ECDSAP384SHA384'' then Ok ECDSAP384SHA384
     else if s = ''ED25519'' then Ok ED25519
     else Err (Msg (''unrecognized string '' @ s)))"

definition alg_read :: "algorithm dec" where
  "alg_read = try_dec read_u8 (\<lambda>algorithm_id. dec_lift (alg_from_u8 algorithm_id))"

definition alg_emit :: "algorithm \<Rightarrow> enc" where
  "alg_emit a = emit (alg_to_u8 a)"

section \<open>Digest types and the NSEC3 hash algorithm\<close>

datatype digest_type = DT_SHA1 | DT_SHA256 | DT_SHA384 | DT_SHA512 | DT_ED25519

definition digest_from_u8 :: "u8 \<Rightarrow> (digest_type, decode_error) outcome" where
  "digest_from_u8 value =
    (if value = 1 then Ok DT_SHA1
     else if value = 2 then Ok DT_SHA256
     else if value = 4 then Ok DT_SHA384
     else if value = 5 then Ok DT_ED25519
     else Err (UnknownAlgorithmTypeValue value))"

fun digest_to_u8 :: "digest_type \<Rightarrow> u8" where
  "digest_to_u8 DT_SHA1 = 1"
| "digest_to_u8 DT_SHA256 = 2"
| "digest_to_u8 DT_SHA384 = 4"
| "digest_to_u8 DT_ED25519 = 5"
| "digest_to_u8 DT_SHA512 = 255"

fun digest_of_alg :: "algorithm \<Rightarrow> digest_type" where
  "digest_of_alg RSASHA1 = DT_SHA1"
| "digest_of_alg RSASHA1NSEC3SHA1 = DT_SHA1"
| "digest_of_alg RSASHA256 = DT_SHA256"
| "digest_of_alg RSASHA512 = DT_SHA512"
| "digest_of_alg ECDSAP256SHA256 = DT_SHA256"
| "digest_of_alg ECDSAP384SHA384 = DT_SHA384"
| "digest_of_alg ED25519 = DT_ED25519"

datatype nsec3_hash_algorithm = NSEC3_SHA1

definition nsec3_hash_from_u8 :: "u8 \<Rightarrow> (nsec3_hash_algorithm, decode_error) outcome" where
  "nsec3_hash_from_u8 value =
    (if value = 1 then Ok NSEC3_SHA1 else Err (UnknownAlgorithmTypeValue value))"

fun nsec3_hash_to_u8 :: "nsec3_hash_algorithm \<Rightarrow> u8" where
  "nsec3_hash_to_u8 NSEC3_SHA1 = 1"

section \<open>Sets of supported algorithms\<close>

record supported_algorithms =
  sa_bit_map :: u8

definition sa_new :: supported_algorithms where
  "sa_new = \<lparr>sa_bit_map = 0\<rparr>"

definition sa_all :: supported_algorithms where
  "sa_all = \<lparr>sa_bit_map = 0x7F\<rparr>"

fun sa_bit_pos :: "algorithm \<Rightarrow> nat" where
  "sa_bit_pos RSASHA1 = 0"
| "sa_bit_pos RSASHA256 = 1"
| "sa_bit_pos RSASHA1NSEC3SHA1 = 2"
| "sa_bit_pos RSASHA512 = 3"
| "sa_bit_pos ECDSAP256SHA256 = 4"
| "sa_bit_pos ECDSAP384SHA384 = 5"
| "sa_bit_pos ED25519 = 6"

definition sa_pos :: "algorithm \<Rightarrow> u8" where
  "sa_pos a = push_bit (sa_bit_pos a) 1"

definition sa_from_pos :: "u8 \<Rightarrow> algorithm option" where
  "sa_from_pos pos =
    (if pos = 0 then Some RSASHA1
     else if pos = 1 then Some RSASHA256
     else if pos = 2 then Some RSASHA1NSEC3SHA1
     else if pos = 3 then Some RSASHA512
     else if pos = 4 then Some ECDSAP256SHA256
     else if pos = 5 then Some ECDSAP384SHA384
     else if pos = 6 then Some ED25519
     else None)"

definition sa_set :: "algorithm \<Rightarrow> supported_algorithms \<Rightarrow> supported_algorithms" where
  "sa_set a s = s\<lparr>sa_bit_map := sa_bit_map s OR sa_pos a\<rparr>"

definition sa_has :: "supported_algorithms \<Rightarrow> algorithm \<Rightarrow> bool" where
  "sa_has s a \<longleftrightarrow> sa_pos a AND sa_bit_map s = sa_pos a"

definition sa_from_vec :: "algorithm list \<Rightarrow> supported_algorithms" where
  "sa_from_vec as = fold sa_set as sa_new"

definition sa_default :: supported_algorithms where
  "sa_default = sa_from_vec [RSASHA256]"

text \<open>The iterator: the loop of \<open>next\<close>, then the sequence of items it yields.\<close>

function sa_next_loop :: "supported_algorithms \<Rightarrow> nat \<Rightarrow> (algorithm \<times> nat) option" where
  "sa_next_loop s current =
     (case sa_from_pos (of_nat current) of
        None \<Rightarrow> None
      | Some a \<Rightarrow> if sa_has s a then Some (a, current + 1) else sa_next_loop s (current + 1))"
  by auto
termination
proof (relation "measure (\<lambda>(_, c). 7 - c mod 256)")
  fix s current a
  assume "sa_from_pos (of_nat current) = Some a"
  then have "unat (of_nat current :: u8) < 7"
    by (auto simp: sa_from_pos_def split: if_splits)
  then have "current mod 256 < 7" by (simp add: unat_of_nat)
  then show "((s, current + 1), (s, current)) \<in> measure (\<lambda>(_, c). 7 - c mod 256)"
    by (simp add: mod_Suc)
qed simp

declare sa_next_loop.simps [simp del]

definition sa_next :: "supported_algorithms \<Rightarrow> nat \<Rightarrow> (algorithm \<times> nat) option" where
  "sa_next s current = (if current > 255 then None else sa_next_loop s current)"

lemma sa_next_loop_gt: "sa_next_loop s c = Some (a, c') \<Longrightarrow> c < c'"
proof (induction s c rule: sa_next_loop.induct)
  case (1 s c)
  then show ?case
    by (subst (asm) (2) sa_next_loop.simps) (force split: option.splits if_splits)
qed

function sa_iter_from :: "supported_algorithms \<Rightarrow> nat \<Rightarrow> algorithm list" where
  "sa_iter_from s current =
     (case sa_next s current of None \<Rightarrow> [] | Some (a, c') \<Rightarrow> a # sa_iter_from s c')"
  by auto
termination
  by (relation "measure (\<lambda>(_, c). 256 - c)")
    (auto simp: sa_next_def split: if_splits dest: sa_next_loop_gt)

declare sa_iter_from.simps [simp del]

definition sa_iter :: "supported_algorithms \<Rightarrow> algorithm list" where
  "sa_iter s = sa_iter_from s 0"

definition sa_len :: "supported_algorithms \<Rightarrow> u16" where
  "sa_len s = of_nat (length (sa_iter s))"

definition sa_from_bytes :: "bytes \<Rightarrow> supported_algorithms" where
  "sa_from_bytes values =
     fold (\<lambda>i s. case alg_from_u8 i of Ok a \<Rightarrow> sa_set a s | _ \<Rightarrow> s) values sa_new"

definition sa_to_bytes :: "supported_algorithms \<Rightarrow> bytes" where
  "sa_to_bytes s = map alg_to_u8 (sa_iter s)"

section \<open>Lemmas\<close>

lemma rt_from_u16_to_u16 [simp]: "rt \<noteq> RT_IXFR \<Longrightarrow> rt_from_u16 (rt_to_u16 rt) = Ok rt"
  by (cases rt) (simp_all add: rt_from_u16_def)

lemma rt_from_u16_Ok_D: "rt_from_u16 v = Ok rt \<Longrightarrow> rt_to_u16 rt = v \<and> rt \<noteq> RT_IXFR"
  by (auto simp: rt_from_u16_def split: if_splits)

lemma rt_to_u16_inject [simp]: "rt_to_u16 a = rt_to_u16 b \<longleftrightarrow> a = b"
  by (cases a; cases b) simp_all

lemma class_from_u16_to_u16 [simp]:
  "(\<forall>v. c \<noteq> CL_OPT v) \<Longrightarrow> class_from_u16 (class_to_u16 c) = Ok c"
  by (cases c) (simp_all add: class_from_u16_def)

lemma class_from_u16_Ok_D: "class_from_u16 v = Ok c \<Longrightarrow> class_to_u16 c = v \<and> (\<forall>w. c \<noteq> CL_OPT w)"
  by (auto simp: class_from_u16_def split: if_splits)

lemma op_from_u8_to_u8 [simp]: "op_from_u8 (op_to_u8 c) = Ok c"
  by (cases c) (simp_all add: op_from_u8_def)

lemma alg_from_u8_to_u8 [simp]: "alg_from_u8 (alg_to_u8 a) = Ok a"
  by (cases a) (simp_all add: alg_from_u8_def)

lemma alg_from_u8_Ok_D: "alg_from_u8 v = Ok a \<Longrightarrow> alg_to_u8 a = v"
  by (auto simp: alg_from_u8_def split: if_splits)

lemma digest_from_u8_to_u8 [simp]: "t \<noteq> DT_SHA512 \<Longrightarrow> digest_from_u8 (digest_to_u8 t) = Ok t"
  by (cases t) (simp_all add: digest_from_u8_def)

lemma nsec3_hash_from_u8_to_u8 [simp]: "nsec3_hash_from_u8 (nsec3_hash_to_u8 h) = Ok h"
  by (cases h) (simp add: nsec3_hash_from_u8_def)

lemma rcode_from_u16_to_u16: "rc \<noteq> BADVERS \<Longrightarrow> rcode_from_u16 (rcode_to_u16 rc) = Ok rc"
  by (cases rc) (simp_all add: rcode_from_u16_def)

lemma advances_types [advancing]: "advances rt_read" "advances class_read" "advances alg_read"
  unfolding rt_read_def class_read_def alg_read_def by (intro advancing)+

text \<open>The record types are linearly ordered by their codes, as their \<open>Ord\<close> instance has it.\<close>

instantiation record_type :: linorder
begin

definition less_eq_record_type :: "record_type \<Rightarrow> record_type \<Rightarrow> bool" where
  "less_eq_record_type a b \<longleftrightarrow> rt_to_u16 a \<le> rt_to_u16 b"

definition less_record_type :: "record_type \<Rightarrow> record_type \<Rightarrow> bool" where
  "less_record_type a b \<longleftrightarrow> rt_to_u16 a < rt_to_u16 b"

instance
  by standard (auto simp: less_eq_record_type_def less_record_type_def order_less_le)

end

interpretation rt_ord: comparator rt_cmp
  by unfold_locales (auto simp: rt_cmp_def nat_cmp.cmp_refl intro: nat_cmp.cmp_swap)

lemma rt_cmp_Equal [simp]: "rt_cmp a b = Equal \<longleftrightarrow> a = b"
  by (simp add: rt_cmp_def word_unat_eq_iff [symmetric])

lemma rt_cmp_Less [simp]: "rt_cmp a b = Less \<longleftrightarrow> a < b"
  by (simp add: rt_cmp_def less_record_type_def word_less_nat_alt)

interpretation class_ord: comparator class_cmp
  by unfold_locales (auto simp: class_cmp_def nat_cmp.cmp_refl intro: nat_cmp.cmp_swap)

text \<open>A bit set of algorithms behaves as a set.\<close>

lemma sa_bit_pos_less: "sa_bit_pos a < 7"
  by (cases a) simp_all

lemma sa_bit_pos_inject [simp]: "sa_bit_pos a = sa_bit_pos b \<longleftrightarrow> a = b"
  by (cases a; cases b) simp_all

lemma bit_sa_pos: "bit (sa_pos a) n \<longleftrightarrow> n = sa_bit_pos a"
  using sa_bit_pos_less [of a] by (auto simp: sa_pos_def bit_simps)

lemma sa_has_iff: "sa_has s a \<longleftrightarrow> bit (sa_bit_map s) (sa_bit_pos a)"
proof
  assume "sa_has s a"
  then have "bit (sa_pos a AND sa_bit_map s) (sa_bit_pos a)"
    by (simp add: sa_has_def bit_sa_pos)
  then show "bit (sa_bit_map s) (sa_bit_pos a)" by (simp add: bit_and_iff)
next
  assume "bit (sa_bit_map s) (sa_bit_pos a)"
  then show "sa_has s a"
    unfolding sa_has_def by (intro bit_word_eqI) (auto simp: bit_and_iff bit_sa_pos)
qed

lemma sa_has_set [simp]: "sa_has (sa_set a s) b \<longleftrightarrow> b = a \<or> sa_has s b"
  by (auto simp: sa_has_iff sa_set_def bit_or_iff bit_sa_pos)

lemma sa_has_new [simp]: "\<not> sa_has sa_new a"
  by (simp add: sa_has_iff sa_new_def)

lemma sa_has_fold: "sa_has (fold sa_set as s) b \<longleftrightarrow> b \<in> set as \<or> sa_has s b"
  by (induction as arbitrary: s) auto

lemma sa_iter_step:
  assumes "sa_from_pos (of_nat c) = Some a" "c < 255" "c' = Suc c"
  shows "sa_iter_from s c = filter (sa_has s) [a] @ sa_iter_from s c'"
proof -
  have "sa_iter_from s c = (case sa_next_loop s c of None \<Rightarrow> [] | Some (a, c') \<Rightarrow> a # sa_iter_from s c')"
    using assms(2) by (subst sa_iter_from.simps) (simp add: sa_next_def)
  moreover have "sa_iter_from s c' = (case sa_next_loop s c' of None \<Rightarrow> [] | Some (a, c') \<Rightarrow> a # sa_iter_from s c')"
    using assms(2,3) by (subst sa_iter_from.simps) (simp add: sa_next_def)
  ultimately show ?thesis
    using assms(1,3) by (subst (asm) sa_next_loop.simps) (auto split: if_splits)
qed

lemma sa_iter_end: "sa_iter_from s 7 = []"
  by (subst sa_iter_from.simps, unfold sa_next_def, subst sa_next_loop.simps) (simp add: sa_from_pos_def)

lemma sa_iter_steps:
  "sa_iter_from s 0 = filter (sa_has s) [RSASHA1] @ sa_iter_from s 1"
  "sa_iter_from s 1 = filter (sa_has s) [RSASHA256] @ sa_iter_from s 2"
  "sa_iter_from s 2 = filter (sa_has s) [RSASHA1NSEC3SHA1] @ sa_iter_from s 3"
  "sa_iter_from s 3 = filter (sa_has s) [RSASHA512] @ sa_iter_from s 4"
  "sa_iter_from s 4 = filter (sa_has s) [ECDSAP256SHA256] @ sa_iter_from s 5"
  "sa_iter_from s 5 = filter (sa_has s) [ECDSAP384SHA384] @ sa_iter_from s 6"
  "sa_iter_from s 6 = filter (sa_has s) [ED25519] @ sa_iter_from s 7"
  by (rule sa_iter_step; simp add: sa_from_pos_def)+

lemma sa_iter_filter:
  "sa_iter s = filter (sa_has s)
     [RSASHA1, RSASHA256, RSASHA1NSEC3SHA1, RSASHA512, ECDSAP256SHA256, ECDSAP384SHA384, ED25519]"
  unfolding sa_iter_def sa_iter_steps sa_iter_end
  by (simp only: append_Nil2 filter_append [symmetric] append_Cons append_Nil)

lemma set_sa_iter [simp]: "set (sa_iter s) = {a. sa_has s a}"
proof -
  have "a \<in> set [RSASHA1, RSASHA256, RSASHA1NSEC3SHA1, RSASHA512, ECDSAP256SHA256, ECDSAP384SHA384, ED25519]"
    for a by (cases a) simp_all
  then show ?thesis unfolding sa_iter_filter set_filter by blast
qed

lemma sa_from_bytes_codes: "sa_from_bytes (map alg_to_u8 as) = sa_from_vec as"
  by (simp add: sa_from_bytes_def sa_from_vec_def fold_map comp_def)

text \<open>
  The option value for supported algorithms survives encoding: writing a set of algorithms
  as a list of codes (\<open>Vec<u8>::from\<close>) and reading it back gives a set with exactly the same
  members, and the members listed by the iterator are pairwise distinct.
\<close>
lemma supported_algorithms_roundtrip:
  "(sa_has (sa_from_bytes (sa_to_bytes s)) a \<longleftrightarrow> sa_has s a) \<and> distinct (sa_iter s)"
  by (rule conjI, simp add: sa_to_bytes_def sa_from_bytes_codes sa_from_vec_def sa_has_fold)
    (unfold sa_iter_filter, rule distinct_filter, simp)

end
