(* ===== verification/Tokens.thy ===== *)
theory Tokens
  imports Record_Types
begin

text \<open>
  The tokens of master files (\<open>serialize/txt/master_lex.rs\<close>) and the errors of the text
  parsers (\<open>error/lexer_error.rs\<close>, \<open>error/parse_error.rs\<close>). A foreign error is a constructor
  without the payload of the standard library.
\<close>

datatype token =
    Tok_Blank
  | Tok_List "string list"
  | Tok_CharData string
  | Tok_At
  | Tok_Include
  | Tok_Origin
  | Tok_Ttl
  | Tok_EOL

datatype lexer_error =
    LE_Message string
  | LE_EscapedCharOutsideCharData
  | LE_IllegalCharacter char
  | LE_UnrecognizedChar char
  | LE_BadEscapedData string
  | LE_UnrecognizedOctet u32
  | LE_UnclosedQuotedString
  | LE_UnclosedList
  | LE_UnrecognizedDollar string
  | LE_EOF
  | LE_IllegalState string
  | LE_ParseInt
  | LE_FromUtf8

datatype parse_error =
    PE_Msg string
  | PE_Message string
  | PE_Decode decode_error
  | PE_Lexer lexer_error
  | PE_Io
  | PE_ParseInt
  | PE_AddrParse
  | PE_UnexpectedToken token
  | PE_MissingToken string
  | PE_CharToIntError char
  | PE_ParseTimeError string

end
