(* ===== verification/Domain.thy ===== *)
theory Domain
  imports Tokens
begin

text \<open>
  Domain names (\<open>client/src/rr/domain.rs\<close>): construction and access, case-insensitive
  comparison, parsing and printing, the wire format with compression.

  \<open>Name::read\<close> follows compression pointers by calling itself. \<open>name_loop\<close> is its state
  machine with a bound on the number of pointers still to be followed; \<open>name_read\<close> takes the
  bound 16384, the number of locations a pointer can name, and the lemmas show that this
  bound is exact: a read that exceeds it exceeds every bound, because it visits a location
  twice. The inductive relation \<open>name_at\<close> is the encoding of names that \<open>name_read\<close> accepts. It is that of
  RFC 1035 section 4.1.4 without its limits: a name may be longer than 255 octets, a pointer may name any
  place of the message and not only a prior one, and the case of letters is kept.
\<close>

section \<open>Construction and access\<close>

definition name_new :: name where
  "name_new = Name []"

definition name_root :: name where
  "name_root = name_new"

definition is_root :: "name \<Rightarrow> bool" where
  "is_root n \<longleftrightarrow> labels n = []"

text \<open>The constructors assert that a name has fewer than 256 labels.\<close>

definition with_labels :: "string list \<Rightarrow> (name, 'e) outcome" where
  "with_labels ls = (if length ls < 256 then Ok (Name ls) else Panic)"

definition add_label :: "string \<Rightarrow> name \<Rightarrow> (name, 'e) outcome" where
  "add_label l n =
     (let new_labels = labels n @ [l] in if length new_labels < 256 then Ok (Name new_labels) else Panic)"

definition name_label :: "string \<Rightarrow> name \<Rightarrow> (name, 'e) outcome" where
  "name_label l n =
     (let new_labels = labels n @ [l] in if length new_labels < 256 then Ok (Name new_labels) else Panic)"

definition prepend_label :: "string \<Rightarrow> name \<Rightarrow> (name, 'e) outcome" where
  "prepend_label l n =
     (let new_labels = l # labels n in if length new_labels < 256 then Ok (Name new_labels) else Panic)"

fun append_labels :: "string list \<Rightarrow> name \<Rightarrow> (name, 'e) outcome" where
  "append_labels [] n = Ok n"
| "append_labels (l # ls) n = bind_outcome (add_label l n) (append_labels ls)"

definition name_append :: "name \<Rightarrow> name \<Rightarrow> (name, 'e) outcome" where
  "name_append other n = append_labels (labels other) n"

definition name_to_lowercase :: "name \<Rightarrow> (name, 'e) outcome" where
  "name_to_lowercase n = with_labels (map to_lower (labels n))"

definition trim_to :: "nat \<Rightarrow> name \<Rightarrow> name" where
  "trim_to num n =
     (if length (labels n) \<ge> num then Name (drop (length (labels n) - num) (labels n)) else name_root)"

definition base_name :: "name \<Rightarrow> name" where
  "base_name n =
     (let len = length (labels n) in if len > 0 then trim_to (len - 1) n else name_root)"

text \<open>
  The loop of \<open>zone_of\<close>: \<open>get\<close> on each side, the subtraction \<open>name_len - i\<close> checked for
  overflow.
\<close>

definition list_get :: "'a list \<Rightarrow> nat \<Rightarrow> 'a option" where
  "list_get xs i = (if i < length xs then Some (xs ! i) else None)"

function zone_loop :: "string list \<Rightarrow> string list \<Rightarrow> nat \<Rightarrow> (bool, 'e) outcome" where
  "zone_loop self_lower name_lower i =
     (if i < length self_lower + 1 then
        if i > length name_lower then Panic
        else if list_get self_lower (length self_lower - i) \<noteq> list_get name_lower (length name_lower - i)
        then Ok False
        else zone_loop self_lower name_lower (i + 1)
      else Ok True)"
  by auto
termination by (relation "measure (\<lambda>(s, n, i). length s + 1 - i)") auto

declare zone_loop.simps [simp del]

definition zone_of :: "name \<Rightarrow> name \<Rightarrow> (bool, 'e) outcome" where
  "zone_of self n =
     bind_outcome (name_to_lowercase self) (\<lambda>self_lower.
     bind_outcome (name_to_lowercase n) (\<lambda>name_lower.
     zone_loop (labels self_lower) (labels name_lower) 1))"

definition num_labels :: "name \<Rightarrow> u8" where
  "num_labels n =
     (let num = of_nat (length (labels n)) :: u8 in
      if num > 0 \<and> labels n ! 0 = ''*'' then num - 1 else num)"

definition name_len :: "name \<Rightarrow> nat" where
  "name_len n =
     (let dots = if length (labels n) > 0 then length (labels n) else 1 in
      foldl (\<lambda>acc item. acc + length item) dots (labels n))"

definition name_to_string :: "name \<Rightarrow> string" where
  "name_to_string n =
     concat (map (\<lambda>l. l @ ''.'') (labels n)) @ (if is_root n then ''.'' else [])"

section \<open>Comparison, equality and hashing\<close>

fun cmp_zipped :: "bool \<Rightarrow> (string \<times> string) list \<Rightarrow> ordering" where
  "cmp_zipped ignore_case [] = Equal"
| "cmp_zipped ignore_case ((l, r) # ps) =
     (case (if ignore_case then cmp_str (to_lower l) (to_lower r) else cmp_str l r) of
        Less \<Rightarrow> Less
      | Greater \<Rightarrow> Greater
      | Equal \<Rightarrow> cmp_zipped ignore_case ps)"

definition cmp_with_case :: "name \<Rightarrow> name \<Rightarrow> bool \<Rightarrow> ordering" where
  "cmp_with_case self other ignore_case =
     (if labels self = [] \<and> labels other = [] then Equal
      else case cmp_zipped ignore_case (zip (rev (labels self)) (rev (labels other))) of
             Less \<Rightarrow> Less
           | Greater \<Rightarrow> Greater
           | Equal \<Rightarrow> cmp_nat (length (labels self)) (length (labels other)))"

definition name_cmp :: "name \<Rightarrow> name \<Rightarrow> ordering" where
  "name_cmp self other = cmp_with_case self other True"

definition name_eq :: "name \<Rightarrow> name \<Rightarrow> bool" where
  "name_eq self other \<longleftrightarrow> cmp_with_case self other True = Equal"

text \<open>What \<open>Hash\<close> feeds to the hasher.\<close>

definition name_hash_input :: "name \<Rightarrow> bytes" where
  "name_hash_input n = concat (map (\<lambda>l. bytes_of_str (to_lower l)) (labels n))"

section \<open>Parsing\<close>

text \<open>
  Classification of characters, exact for ASCII; a byte of a longer UTF-8 sequence is an
  ordinary character. \<open>utf8_encode\<close> is \<open>String::push\<close> of a Unicode scalar value.
\<close>

definition char_is_control :: "char \<Rightarrow> bool" where
  "char_is_control c = (let n = of_char c :: nat in n < 32 \<or> n = 127)"

definition char_is_whitespace :: "char \<Rightarrow> bool" where
  "char_is_whitespace c = (let n = of_char c :: nat in (9 \<le> n \<and> n \<le> 13) \<or> n = 32)"

definition char_is_numeric :: "char \<Rightarrow> bool" where
  "char_is_numeric c = (let n = of_char c :: nat in 48 \<le> n \<and> n \<le> 57)"

definition to_digit :: "char \<Rightarrow> u32 option" where
  "to_digit c = (if char_is_numeric c then Some (of_nat (of_char c - 48)) else None)"

definition utf8_encode :: "nat \<Rightarrow> string" where
  "utf8_encode v =
     map char_of
       (if v < 0x80 then [v]
        else if v < 0x800 then [0xC0 + v div 64, 0x80 + v mod 64]
        else if v < 0x10000 then [0xE0 + v div 4096, 0x80 + v div 64 mod 64, 0x80 + v mod 64]
        else [0xF0 + v div 262144, 0x80 + v div 4096 mod 64, 0x80 + v div 64 mod 64, 0x80 + v mod 64])"

definition char_from_u32 :: "u32 \<Rightarrow> nat option" where
  "char_from_u32 v =
     (let n = unat v in if n > 0x10FFFF \<or> (0xD800 \<le> n \<and> n \<le> 0xDFFF) then None else Some n)"

datatype parse_state = PS_Label | PS_Escape1 | PS_Escape2 u32 | PS_Escape3 u32 u32

definition unrecognized_char :: "char \<Rightarrow> parse_error" where
  "unrecognized_char c = PE_Msg (''unrecognized char: '' @ [c])"

definition illegal_char :: "char \<Rightarrow> parse_error" where
  "illegal_char c = PE_Msg (''illegal char: '' @ [c])"

definition parse_digit :: "char \<Rightarrow> (u32, parse_error) outcome" where
  "parse_digit c = (case to_digit c of Some d \<Rightarrow> Ok d | None \<Rightarrow> Err (illegal_char c))"

text \<open>One character of the loop: the state, the name and the label so far.\<close>

fun parse_step ::
    "parse_state \<Rightarrow> name \<Rightarrow> string \<Rightarrow> char \<Rightarrow> (parse_state \<times> name \<times> string, parse_error) outcome" where
  "parse_step PS_Label name label ch =
     (if ch = CHR ''.'' then bind_outcome (add_label label name) (\<lambda>name'. Ok (PS_Label, name', []))
      else if ch = CHR 0x5C then Ok (PS_Escape1, name, label)
      else if \<not> char_is_control ch \<and> \<not> char_is_whitespace ch then Ok (PS_Label, name, label @ [ch])
      else Err (unrecognized_char ch))"
| "parse_step PS_Escape1 name label ch =
     (if char_is_numeric ch then bind_outcome (parse_digit ch) (\<lambda>d. Ok (PS_Escape2 d, name, label))
      else Ok (PS_Label, name, label @ [ch]))"
| "parse_step (PS_Escape2 i) name label ch =
     (if char_is_numeric ch then bind_outcome (parse_digit ch) (\<lambda>d. Ok (PS_Escape3 i d, name, label))
      else Err (unrecognized_char ch))"
| "parse_step (PS_Escape3 i ii) name label ch =
     (if char_is_numeric ch then
        bind_outcome (parse_digit ch) (\<lambda>d.
        (case char_from_u32 (push_bit 16 i + push_bit 8 ii + d) of
           Some v \<Rightarrow> Ok (PS_Label, name, label @ utf8_encode v)
         | None \<Rightarrow> Err (illegal_char ch)))
      else Err (unrecognized_char ch))"

fun parse_loop ::
    "string \<Rightarrow> parse_state \<Rightarrow> name \<Rightarrow> string \<Rightarrow> (name \<times> string, parse_error) outcome" where
  "parse_loop [] state name label = Ok (name, label)"
| "parse_loop (ch # chars) state name label =
     bind_outcome (parse_step state name label ch) (\<lambda>(state', name', label').
     parse_loop chars state' name' label')"

definition name_parse :: "string \<Rightarrow> name option \<Rightarrow> (name, parse_error) outcome" where
  "name_parse local origin =
     bind_outcome (parse_loop local PS_Label name_new []) (\<lambda>(name, label).
     bind_outcome (if label \<noteq> [] then add_label label name else Ok name) (\<lambda>name'.
     if local = [] \<or> last local \<noteq> CHR ''.'' then
       (case origin of
          Some other \<Rightarrow> name_append other name'
        | None \<Rightarrow> Err (PE_Message ''$ORIGIN was not specified''))
     else Ok name'))"

section \<open>Wire format\<close>

datatype label_parse_state = LabelLengthOrPointer | LPS_Label | LPS_Pointer | LPS_Root

lemma bind_outcome_cong [fundef_cong]:
  "m = m' \<Longrightarrow> (\<And>x. m' = Ok x \<Longrightarrow> f x = f' x) \<Longrightarrow> bind_outcome m f = bind_outcome m' f'"
  by (cases m') auto

lemma read_character_data_index:
  "read_character_data d = Ok (s, d') \<Longrightarrow>
     d_buffer d' = d_buffer d \<and> d_index d < length (d_buffer d) \<and> d_index d < d_index d'"
  by (auto simp: read_character_data_def try_dec_Ok_iff pop_Ok_iff read_vec_Ok_iff)

function name_loop :: "nat \<Rightarrow> label_parse_state \<Rightarrow> string list \<Rightarrow> name dec" where
  "name_loop fuel LabelLengthOrPointer ls d =
     (case peek d of
        None \<Rightarrow> name_loop fuel LPS_Root ls d
      | Some byte \<Rightarrow>
          if byte = 0 then name_loop fuel LPS_Root ls d
          else if byte AND 0xC0 = 0xC0 then name_loop fuel LPS_Pointer ls d
          else if byte AND 0xC0 = 0 then name_loop fuel LPS_Label ls d
          else Err (UnrecognizedLabelCode byte))"
| "name_loop fuel LPS_Label ls d =
     bind_outcome (read_character_data d) (\<lambda>(l, d').
     name_loop fuel LabelLengthOrPointer (ls @ [l]) d')"
| "name_loop fuel LPS_Pointer ls d =
     bind_outcome (read_u16 d) (\<lambda>(w, d').
     let location = w AND 0x3FFF in
     if fuel = 0 then Overrun
     else
       bind_outcome (name_loop (fuel - 1) LabelLengthOrPointer [] (clone_at d' location)) (\<lambda>(pointed, _).
       Ok (Name (ls @ labels pointed), d')))"
| "name_loop fuel LPS_Root ls d =
     bind_outcome (pop d) (\<lambda>(_, d').
     Ok (Name ls, d'))"
  by pat_completeness auto
termination
  by (relation "measures [\<lambda>(fuel, st, ls, d). fuel, \<lambda>(fuel, st, ls, d). length (d_buffer d) - d_index d,
        \<lambda>(fuel, st, ls, d). if st = LabelLengthOrPointer then 1 else 0]")
    (auto dest!: read_character_data_index)

definition name_read :: "name dec" where
  "name_read = name_loop 16384 LabelLengthOrPointer []"

fun emit_labels :: "string list \<Rightarrow> nat \<Rightarrow> enc" where
  "emit_labels [] buf_len e =
     (case emit 0 e of
        (Ok _, e') \<Rightarrow>
          (let len = length (e_buffer e') - buf_len in
           if len > 255 then (Err (DomainNameTooLong len), e') else (Ok (), e'))
      | r \<Rightarrow> r)"
| "emit_labels (label # ls) buf_len e =
     (case get_label_pointer (label # ls) e of
        Some loc \<Rightarrow> emit_u16 (0xC000 OR (loc AND 0x3FFF)) e
      | None \<Rightarrow>
          if length label > 63 then (Err (LabelBytesTooLong (length label)), e)
          else
            (case emit_character_data label (store_label_pointer (label # ls) e) of
               (Ok _, e') \<Rightarrow> emit_labels ls buf_len e'
             | r \<Rightarrow> r))"

definition emit_as_canonical :: "name \<Rightarrow> bool \<Rightarrow> enc" where
  "emit_as_canonical n canonical e =
     (let buf_len = length (e_buffer e) in
      if canonical then
        enc_seq [enc_seq (map emit_character_data (labels n)), emit_labels [] buf_len] e
      else emit_labels (labels n) buf_len e)"

definition name_emit :: "name \<Rightarrow> enc" where
  "name_emit n e = emit_as_canonical n (canonical_names e) e"

definition emit_with_lowercase :: "name \<Rightarrow> bool \<Rightarrow> enc" where
  "emit_with_lowercase n lowercase e =
     (if lowercase then
        (case (name_to_lowercase n :: (name, encode_error) outcome) of
           Ok n' \<Rightarrow> emit_as_canonical n' (canonical_names e) e
         | _ \<Rightarrow> (Panic, e))
      else emit_as_canonical n (canonical_names e) e)"

section \<open>Lemmas on comparison\<close>

definition cmp_label :: "bool \<Rightarrow> string \<Rightarrow> string \<Rightarrow> ordering" where
  "cmp_label ignore_case l r = (if ignore_case then cmp_str (to_lower l) (to_lower r) else cmp_str l r)"

lemma cmp_zipped_cmp_list:
  "(case cmp_zipped ic (zip xs ys) of
      Less \<Rightarrow> Less | Greater \<Rightarrow> Greater | Equal \<Rightarrow> cmp_nat (length xs) (length ys)) =
   cmp_list (cmp_label ic) xs ys"
proof (induction xs ys rule: list_induct2')
  case (4 x xs y ys)
  then show ?case
    by (cases "cmp_label ic x y") (auto simp: cmp_label_def [symmetric] cmp_nat_def split: ordering.splits)
qed (simp_all add: cmp_nat_def)

lemma cmp_with_case_cmp_list:
  "cmp_with_case a b ic = cmp_list (cmp_label ic) (rev (labels a)) (rev (labels b))"
  using cmp_zipped_cmp_list [of "rev (labels a)" "rev (labels b)" ic, unfolded length_rev]
  by (auto simp: cmp_with_case_def)

lemma cmp_label_comparator: "comparator (cmp_label ic)"
proof (cases ic)
  case True
  then show ?thesis
    using comparator_map [OF str_cmp.comparator_axioms, of to_lower]
    by (simp add: cmp_label_def [abs_def])
next
  case False
  then show ?thesis
    using str_cmp.comparator_axioms by (simp add: cmp_label_def [abs_def])
qed

interpretation name_ord: comparator name_cmp
  using comparator_map [OF cmp_list_comparator [OF cmp_label_comparator [of True]], of "\<lambda>n. rev (labels n)"]
  by (simp add: name_cmp_def [abs_def] cmp_with_case_cmp_list)

lemma cmp_label_Equal: "cmp_label True l r = Equal \<longleftrightarrow> to_lower l = to_lower r"
  by (simp add: cmp_label_def)

lemma cmp_list_label_Equal:
  "cmp_list (cmp_label True) xs ys = Equal \<longleftrightarrow> map to_lower xs = map to_lower ys"
  by (induction "cmp_label True" xs ys rule: cmp_list.induct)
    (auto simp flip: cmp_label_Equal split: ordering.splits)

lemma name_eq_iff: "name_eq a b \<longleftrightarrow> map to_lower (labels a) = map to_lower (labels b)"
  by (simp add: name_eq_def cmp_with_case_cmp_list cmp_list_label_Equal rev_map [symmetric])

lemma name_cmp_Equal: "name_cmp a b = Equal \<longleftrightarrow> name_eq a b"
  by (simp add: name_cmp_def name_eq_def)

lemma name_eq_refl [simp]: "name_eq n n"
  by (simp add: name_eq_iff)

lemma name_eq_sym: "name_eq a b \<longleftrightarrow> name_eq b a"
  by (auto simp: name_eq_iff)

lemma name_eq_trans: "name_eq a b \<Longrightarrow> name_eq b c \<Longrightarrow> name_eq a c"
  by (simp add: name_eq_iff)

lemma name_hash_input_cong: "name_eq a b \<Longrightarrow> name_hash_input a = name_hash_input b"
proof -
  have h: "name_hash_input n = concat (map bytes_of_str (map to_lower (labels n)))" for n
    by (simp add: name_hash_input_def comp_def)
  show "name_eq a b \<Longrightarrow> ?thesis" by (simp only: h name_eq_iff)
qed

section \<open>Lemmas on construction and zones\<close>

lemma append_labels_eq:
  "append_labels ls n =
     (if ls = [] \<or> length (labels n) + length ls < 256 then Ok (Name (labels n @ ls)) else Panic)"
  by (induction ls arbitrary: n) (auto simp: add_label_def Let_def)

lemma name_to_lowercase_Ok_iff:
  "name_to_lowercase n = Ok m \<longleftrightarrow> length (labels n) < 256 \<and> m = Name (map to_lower (labels n))"
  by (auto simp: name_to_lowercase_def with_labels_def)

lemma zone_loop_prefix:
  assumes "k \<le> length sl" "k \<le> length nl"
  shows "(zone_loop sl nl (Suc k) :: (bool, 'e) outcome) =
     (if prefix (drop k (rev sl)) (drop k (rev nl)) then Ok True
      else if prefix (drop k (rev nl)) (drop k (rev sl)) then Panic else Ok False)"
  using assms
proof (induction "length sl - k" arbitrary: k)
  case 0
  then show ?case by (simp add: zone_loop.simps)
next
  case (Suc m)
  then have k: "k < length sl" by simp
  have ds: "drop k (rev sl) = rev sl ! k # drop (Suc k) (rev sl)"
    using k by (simp add: Cons_nth_drop_Suc)
  show ?case
  proof (cases "k = length nl")
    case True
    with k ds show ?thesis by (subst zone_loop.simps) simp
  next
    case False
    with Suc.prems have k': "k < length nl" by simp
    have dn: "drop k (rev nl) = rev nl ! k # drop (Suc k) (rev nl)"
      using k' by (simp add: Cons_nth_drop_Suc)
    from Suc.hyps(2) have "m = length sl - Suc k" by simp
    from Suc.hyps(1) [OF this] k k' have IH: "(zone_loop sl nl (Suc (Suc k)) :: (bool, 'e) outcome) =
       (if prefix (drop (Suc k) (rev sl)) (drop (Suc k) (rev nl)) then Ok True
        else if prefix (drop (Suc k) (rev nl)) (drop (Suc k) (rev sl)) then Panic else Ok False)"
      by simp
    show ?thesis
      using k k' IH unfolding ds dn
      by (subst zone_loop.simps) (auto simp: list_get_def rev_nth)
  qed
qed

lemma zone_of_suffix:
  assumes "length (labels z) < 256" "length (labels n) < 256"
  shows "zone_of z n =
     (if suffix (map to_lower (labels z)) (map to_lower (labels n)) then Ok True
      else if suffix (map to_lower (labels n)) (map to_lower (labels z)) then Panic else Ok False)"
  using assms
  by (simp add: zone_of_def name_to_lowercase_def with_labels_def suffix_to_prefix
      zone_loop_prefix [of 0, simplified])

section \<open>Lemmas on parsing\<close>

text \<open>A label of plain characters: nothing that needs an escape.\<close>

definition plain_char :: "char \<Rightarrow> bool" where
  "plain_char c \<longleftrightarrow>
     c \<noteq> CHR ''.'' \<and> c \<noteq> CHR 0x5C \<and> \<not> char_is_control c \<and> \<not> char_is_whitespace c"

definition plain_label :: "string \<Rightarrow> bool" where
  "plain_label l \<longleftrightarrow> list_all plain_char l"

lemma parse_loop_plain:
  "plain_label l \<Longrightarrow> parse_loop (l @ rest) PS_Label n acc = parse_loop rest PS_Label n (acc @ l)"
  by (induction l arbitrary: acc) (auto simp: plain_label_def plain_char_def)

lemma parse_loop_labels:
  assumes "list_all plain_label ls" "length (labels n) + length ls < 256"
  shows "parse_loop (concat (map (\<lambda>l. l @ ''.'') ls) @ rest) PS_Label n [] =
         parse_loop rest PS_Label (Name (labels n @ ls)) []"
  using assms
proof (induction ls arbitrary: n)
  case Nil
  then show ?case by (cases n) simp
next
  case (Cons l ls)
  then show ?case
    by (simp add: parse_loop_plain add_label_def Let_def)
qed

lemma last_concat_dots: "ls \<noteq> [] \<Longrightarrow> last (concat (map (\<lambda>l. l @ ''.'') ls)) = CHR ''.''"
  by (induction ls rule: rev_induct) auto

section \<open>Reading: the bound on pointers is exact\<close>

text \<open>
  The part of a read before the first pointer: its labels and, when a pointer ends it, the
  location the pointer names.
\<close>

function name_seg ::
    "label_parse_state \<Rightarrow> string list \<Rightarrow> bin_decoder \<Rightarrow>
      ((string list \<times> u16 option) \<times> bin_decoder, decode_error) outcome" where
  "name_seg LabelLengthOrPointer ls d =
     (case peek d of
        None \<Rightarrow> name_seg LPS_Root ls d
      | Some byte \<Rightarrow>
          if byte = 0 then name_seg LPS_Root ls d
          else if byte AND 0xC0 = 0xC0 then name_seg LPS_Pointer ls d
          else if byte AND 0xC0 = 0 then name_seg LPS_Label ls d
          else Err (UnrecognizedLabelCode byte))"
| "name_seg LPS_Label ls d =
     bind_outcome (read_character_data d) (\<lambda>(l, d'). name_seg LabelLengthOrPointer (ls @ [l]) d')"
| "name_seg LPS_Pointer ls d = bind_outcome (read_u16 d) (\<lambda>(w, d'). Ok ((ls, Some (w AND 0x3FFF)), d'))"
| "name_seg LPS_Root ls d = bind_outcome (pop d) (\<lambda>(_, d'). Ok ((ls, None), d'))"
  by pat_completeness auto
termination
  by (relation "measures [\<lambda>(st, ls, d). length (d_buffer d) - d_index d,
        \<lambda>(st, ls, d). if st = LabelLengthOrPointer then 1 else 0]")
    (auto dest!: read_character_data_index)

lemma name_loop_seg:
  "name_loop f st ls d =
     bind_outcome (name_seg st ls d) (\<lambda>((ls', p), d').
       case p of
         None \<Rightarrow> Ok (Name ls', d')
       | Some w \<Rightarrow>
           if f = 0 then Overrun
           else bind_outcome (name_loop (f - 1) LabelLengthOrPointer [] (clone_at d' w)) (\<lambda>(pointed, _).
             Ok (Name (ls' @ labels pointed), d')))"
proof (induction st ls d rule: name_seg.induct)
  case (1 ls d)
  show ?case
  proof (cases "peek d")
    case None
    with 1(1) show ?thesis by simp
  next
    case (Some b)
    with 1(2-) show ?thesis by simp
  qed
next
  case (2 ls d)
  then show ?case by (cases "read_character_data d") auto
next
  case (3 ls d)
  then show ?case by (cases "read_u16 d") (auto simp: Let_def)
next
  case (4 ls d)
  then show ?case by (cases "pop d") auto
qed

lemma read_not_Overrun [simp]:
  "pop d \<noteq> Overrun" "read_u16 d \<noteq> Overrun" "read_vec n d \<noteq> Overrun" "read_character_data d \<noteq> Overrun"
proof -
  show p: "pop d \<noteq> Overrun" for d by (simp add: pop_def)
  have t: "try_dec m f d \<noteq> Overrun" if "\<And>d. m d \<noteq> Overrun" "\<And>x d. f x d \<noteq> Overrun"
    for m :: "'a dec" and f :: "'a \<Rightarrow> 'b dec" and d
    using that(1) [of d] that(2) by (cases "m d") (auto simp: try_dec_def)
  show "read_u16 d \<noteq> Overrun" for d
    unfolding read_u16_def by (intro t p) (simp add: dec_return_def)
  show v: "read_vec n d \<noteq> Overrun" for n d
  proof (induction n arbitrary: d)
    case (Suc n)
    then show ?case unfolding read_vec.simps by (intro t p) (auto simp: dec_return_def)
  qed (simp add: dec_return_def)
  show "read_character_data d \<noteq> Overrun" for d
    unfolding read_character_data_def
    by (intro t p v) (simp add: dec_lift_def string_from_utf8_def)
qed

lemma name_seg_not_Overrun [simp]: "name_seg st ls d \<noteq> Overrun"
proof (induction st ls d rule: name_seg.induct)
  case (1 ls d)
  then show ?case by (auto split: option.splits)
next
  case (2 ls d)
  then show ?case by (cases "read_character_data d") auto
next
  case (3 ls d)
  then show ?case by (cases "read_u16 d") auto
next
  case (4 ls d)
  then show ?case by (cases "pop d") auto
qed

lemma name_seg_Ok_D:
  "name_seg st ls d = Ok ((ls', p), d') \<Longrightarrow>
     d_buffer d' = d_buffer d \<and> d_index d < d_index d' \<and> d_index d' \<le> length (d_buffer d) \<and>
     (\<forall>w. p = Some w \<longrightarrow> unat w < 16384)"
proof (induction st ls d rule: name_seg.induct)
  case (1 ls d)
  then show ?case by (auto split: option.splits if_splits)
next
  case (2 ls d)
  then obtain l e where l: "read_character_data d = Ok (l, e)"
    and r: "name_seg LabelLengthOrPointer (ls @ [l]) e = Ok ((ls', p), d')" by auto
  from 2(1) [OF l refl r] read_character_data_index [OF l] show ?case by auto
next
  case (3 ls d)
  have "unat (w AND 0x3FFF) < 16384" for w :: u16
    using word_and_le1 [of w "0x3FFF"] by (simp add: word_le_nat_alt)
  with 3 show ?case by (auto simp: read_u16_def try_dec_Ok_iff pop_Ok_iff)
next
  case (4 ls d)
  then show ?case by (auto simp: pop_Ok_iff)
qed

declare name_seg.simps [simp del] name_loop.simps [simp del]

text \<open>The location a read from \<open>t\<close> continues at, and the location after \<open>n\<close> pointers.\<close>

definition next_loc :: "bytes \<Rightarrow> nat \<Rightarrow> nat option" where
  "next_loc buf t =
     (case name_seg LabelLengthOrPointer [] \<lparr>d_buffer = buf, d_index = t\<rparr> of
        Ok ((_, Some w), _) \<Rightarrow> Some (unat w)
      | _ \<Rightarrow> None)"

primrec hop :: "bytes \<Rightarrow> nat \<Rightarrow> nat \<Rightarrow> nat option" where
  "hop buf 0 t = Some t"
| "hop buf (Suc n) t = Option.bind (next_loc buf t) (hop buf n)"

lemma next_loc_less: "next_loc buf t = Some u \<Longrightarrow> u < 16384"
  by (auto simp: next_loc_def dest: name_seg_Ok_D split: outcome.splits option.splits)

lemma hop_add: "hop buf (m + n) t = Option.bind (hop buf m t) (hop buf n)"
  by (induction m arbitrary: t) (auto split: Option.bind_splits)

lemma hop_antimono: "hop buf n t \<noteq> None \<Longrightarrow> m \<le> n \<Longrightarrow> hop buf m t \<noteq> None"
  using hop_add [of buf m "n - m" t] by (cases "hop buf m t") auto

lemma hop_less: "hop buf n t = Some u \<Longrightarrow> t < 16384 \<Longrightarrow> u < 16384"
  by (induction n arbitrary: t) (auto split: Option.bind_splits dest: next_loc_less)

lemma name_loop_Overrun_iff:
  "name_loop f LabelLengthOrPointer ls \<lparr>d_buffer = buf, d_index = t\<rparr> = Overrun \<longleftrightarrow>
     (\<exists>ls' w d'. name_seg LabelLengthOrPointer ls \<lparr>d_buffer = buf, d_index = t\<rparr> = Ok ((ls', Some w), d') \<and>
        hop buf f (unat w) \<noteq> None)"
proof (induction f arbitrary: ls t)
  case 0
  show ?case
    by (subst name_loop_seg; cases "name_seg LabelLengthOrPointer ls \<lparr>d_buffer = buf, d_index = t\<rparr>")
      (auto split: option.splits)
next
  case (Suc f)
  show ?case
  proof (cases "\<exists>ls' w d'. name_seg LabelLengthOrPointer ls \<lparr>d_buffer = buf, d_index = t\<rparr> = Ok ((ls', Some w), d')")
    case True
    then obtain ls' w d' where
      seg: "name_seg LabelLengthOrPointer ls \<lparr>d_buffer = buf, d_index = t\<rparr> = Ok ((ls', Some w), d')"
      by auto
    from name_seg_Ok_D [OF seg] have "clone_at d' w = \<lparr>d_buffer = buf, d_index = unat w\<rparr>"
      by (simp add: clone_at_def)
    moreover have "bind_outcome m (\<lambda>(pointed :: name, _ :: bin_decoder). Ok (Name (ls' @ labels pointed), d')) = Overrun
        \<longleftrightarrow> m = Overrun" for m :: "(name \<times> bin_decoder, decode_error) outcome"
      by (cases m) auto
    ultimately show ?thesis
      using Suc.IH [of "[]" "unat w"]
      by (subst name_loop_seg)
        (auto simp: seg next_loc_def split: outcome.splits option.splits Option.bind_splits)
  next
    case False
    then show ?thesis
      by (subst name_loop_seg; cases "name_seg LabelLengthOrPointer ls \<lparr>d_buffer = buf, d_index = t\<rparr>")
        (auto split: option.splits)
  qed
qed

text \<open>Sixteen thousand three hundred and eighty-four pointers without an end revisit a location.\<close>

lemma hop_cycle:
  assumes "hop buf p u = Some u" "0 < p"
  shows "hop buf n u \<noteq> None"
proof -
  have "hop buf (k * p) u = Some u" for k
    by (induction k) (simp_all add: hop_add assms(1))
  then have "hop buf (n * p) u \<noteq> None" by simp
  then show ?thesis by (rule hop_antimono) (use assms(2) in simp)
qed

lemma hop_unbounded:
  assumes some: "hop buf N t \<noteq> None" and less: "\<And>n u. hop buf n t = Some u \<Longrightarrow> u < N"
  shows "hop buf n t \<noteq> None"
proof -
  define s where "s k = the (hop buf k t)" for k
  have s: "hop buf k t = Some (s k)" if "k \<le> N" for k
    using hop_antimono [OF some that] by (auto simp: s_def)
  then have "s ` {..N} \<subseteq> {..<N}" using less by blast
  then have "card (s ` {..N}) \<le> N" using card_mono [of "{..<N}"] by fastforce
  then have "\<not> inj_on s {..N}" using pigeonhole [of s "{..N}"] by simp
  then obtain j k where jk: "j < k" "k \<le> N" "s j = s k"
    unfolding inj_on_def by (metis atMost_iff nat_neq_iff)
  then have "hop buf (k - j) (s j) = Some (s j)"
    using s [of j] s [of k] hop_add [of buf j "k - j" t] by simp
  from hop_cycle [OF this, of n] jk(1) have "hop buf n (s j) \<noteq> None" by simp
  then have "hop buf (j + n) t \<noteq> None"
    using s [of j] jk by (simp add: hop_add)
  then show ?thesis by (rule hop_antimono) simp
qed

lemma name_loop_mono:
  assumes "name_loop f LabelLengthOrPointer ls d \<noteq> Overrun" "f \<le> g"
  shows "name_loop g LabelLengthOrPointer ls d = name_loop f LabelLengthOrPointer ls d"
  using assms
proof (induction f arbitrary: g ls d)
  case 0
  then show ?case
    by (simp only: name_loop_seg [of 0] name_loop_seg [of g])
      (cases "name_seg LabelLengthOrPointer ls d"; auto split: option.splits)
next
  case (Suc f)
  show ?case
  proof (cases "\<exists>ls' w d'. name_seg LabelLengthOrPointer ls d = Ok ((ls', Some w), d')")
    case True
    then obtain ls' w d' where seg: "name_seg LabelLengthOrPointer ls d = Ok ((ls', Some w), d')" by auto
    have "name_loop f LabelLengthOrPointer [] (clone_at d' w) \<noteq> Overrun"
      using Suc.prems(1) by (subst (asm) name_loop_seg) (auto simp: seg)
    from Suc.IH [OF this, of "g - 1"] Suc.prems(2) show ?thesis
      by (subst (1 2) name_loop_seg) (simp add: seg)
  next
    case False
    then show ?thesis
      by (subst (1 2) name_loop_seg) (cases "name_seg LabelLengthOrPointer ls d"; auto split: option.splits)
  qed
qed

lemma name_read_Overrun: "name_read d = Overrun \<Longrightarrow> name_loop f LabelLengthOrPointer [] d = Overrun"
proof -
  assume over: "name_read d = Overrun"
  have d: "d = \<lparr>d_buffer = d_buffer d, d_index = d_index d\<rparr>" by simp
  from over obtain ls' w d' where
    seg: "name_seg LabelLengthOrPointer [] \<lparr>d_buffer = d_buffer d, d_index = d_index d\<rparr> = Ok ((ls', Some w), d')"
    and hop: "hop (d_buffer d) 16384 (unat w) \<noteq> None"
    unfolding name_read_def by (subst (asm) d, subst (asm) name_loop_Overrun_iff) auto
  from name_seg_Ok_D [OF seg] have "unat w < 16384" by simp
  from hop_unbounded [OF hop hop_less [OF _ this]] seg show ?thesis
    by (subst d, subst name_loop_Overrun_iff) auto
qed

lemma name_read_complete: "name_loop f LabelLengthOrPointer [] d = Ok r \<Longrightarrow> name_read d = Ok r"
proof -
  assume f: "name_loop f LabelLengthOrPointer [] d = Ok r"
  then have "name_read d \<noteq> Overrun" using name_read_Overrun [of d f] by auto
  then show ?thesis
    using f name_loop_mono [of f "[]" d "max f 16384"] name_loop_mono [of 16384 "[]" d "max f 16384"]
    by (simp add: name_read_def)
qed

section \<open>Reading: the declarative meaning\<close>

text \<open>
  \<open>name_at buf i ls j\<close>: at index \<open>i\<close> of the message stands an encoding of the labels \<open>ls\<close>,
  and the octets that belong to it end before \<open>j\<close>. A name is a sequence of labels closed by
  a zero octet or by a pointer to another name of the message.
\<close>

inductive name_at :: "bytes \<Rightarrow> nat \<Rightarrow> string list \<Rightarrow> nat \<Rightarrow> bool" for buf where
  name_at_root: "i < length buf \<Longrightarrow> buf ! i = 0 \<Longrightarrow> name_at buf i [] (i + 1)"
| name_at_label:
    "bytes_at buf i (of_nat (length l) # bytes_of_str l) \<Longrightarrow> 0 < length l \<Longrightarrow> length l \<le> 63 \<Longrightarrow>
     valid_utf8 (bytes_of_str l) \<Longrightarrow> name_at buf (i + 1 + length l) ls j \<Longrightarrow>
     name_at buf i (l # ls) j"
| name_at_pointer:
    "bytes_at buf i (be16 (0xC000 OR w)) \<Longrightarrow> w < 0x4000 \<Longrightarrow> name_at buf (unat w) ls k \<Longrightarrow>
     name_at buf i ls (i + 2)"

lemma label_code_cases:
  "((b :: u8) AND 0xC0 = 0 \<longleftrightarrow> b < 64) \<and> (b AND 0xC0 = 0xC0 \<longleftrightarrow> 0xC0 \<le> b)"
proof -
  have "list_all (\<lambda>n. ((of_nat n :: u8) AND 0xC0 = 0 \<longleftrightarrow> (of_nat n :: u8) < 64) \<and>
      ((of_nat n :: u8) AND 0xC0 = 0xC0 \<longleftrightarrow> 0xC0 \<le> (of_nat n :: u8))) [0..<256]"
    by code_simp
  then show ?thesis
    using unat_u8_less [of b] by (auto simp: list_all_iff dest: bspec [of _ _ "unat b"])
qed

lemma name_seg_append:
  "name_seg st (xs @ ls) d =
     bind_outcome (name_seg st ls d) (\<lambda>((ls', p), d'). Ok ((xs @ ls', p), d'))"
proof (induction st ls d rule: name_seg.induct)
  case (1 ls d)
  show ?case
  proof (cases "peek d")
    case None
    with 1(1) show ?thesis by (simp add: name_seg.simps(1))
  next
    case (Some b)
    with 1(2-) show ?thesis by (simp add: name_seg.simps(1))
  qed
next
  case (2 ls d)
  then show ?case by (cases "read_character_data d") (auto simp: name_seg.simps)
next
  case (3 ls d)
  then show ?case by (cases "read_u16 d") (auto simp: name_seg.simps)
next
  case (4 ls d)
  then show ?case by (cases "pop d") (auto simp: name_seg.simps)
qed

lemma name_loop_append:
  "name_loop f st (xs @ ls) d =
     bind_outcome (name_loop f st ls d) (\<lambda>(n, d'). Ok (Name (xs @ labels n), d'))"
  unfolding name_loop_seg [of f st] name_seg_append
  by (cases "name_seg st ls d")
    (auto simp: bind_outcome_assoc split: option.splits intro!: bind_outcome_cong)

lemma name_loop_to_label:
  "peek d = Some b \<Longrightarrow> b \<noteq> 0 \<Longrightarrow> b < 64 \<Longrightarrow>
   name_loop f LabelLengthOrPointer ls d = name_loop f LPS_Label ls d"
  by (simp add: name_loop.simps(1) label_code_cases)
    (use order.strict_trans1 [of "0xC0" b 64] in auto)

lemma name_loop_to_pointer:
  "peek d = Some b \<Longrightarrow> 0xC0 \<le> b \<Longrightarrow>
   name_loop f LabelLengthOrPointer ls d = name_loop f LPS_Pointer ls d"
  by (auto simp: name_loop.simps(1) label_code_cases)

lemma pointer_low_bits: "(w :: u16) < 0x4000 \<Longrightarrow> (0xC000 OR w) AND 0x3FFF = w"
proof -
  assume "w < 0x4000"
  then have "w AND mask 14 = w" by (intro less_mask_eq) simp
  then have "w AND 0x3FFF = w" by (simp add: mask_eq_exp_minus_1)
  then show ?thesis by (simp add: word_ao_dist)
qed

lemma pointer_high_byte: "0xC0 \<le> (ucast (drop_bit 8 (0xC000 OR (w :: u16))) :: u8)"
proof -
  have "(ucast (drop_bit 8 (0xC000 OR w)) :: u8) = 0xC0 OR ucast (drop_bit 8 w)"
    by (simp add: unsigned_or_eq)
  then show ?thesis using le_word_or2 by metis
qed

lemma name_at_loop:
  "name_at buf i ls j \<Longrightarrow>
     \<exists>f. name_loop f LabelLengthOrPointer [] \<lparr>d_buffer = buf, d_index = i\<rparr> =
         Ok (Name ls, \<lparr>d_buffer = buf, d_index = j\<rparr>)"
proof (induction rule: name_at.induct)
  case (name_at_root i)
  then show ?case by (simp add: name_loop.simps peek_def pop_def)
next
  case (name_at_label i l ls j)
  then obtain f where f: "name_loop f LabelLengthOrPointer [] \<lparr>d_buffer = buf, d_index = i + 1 + length l\<rparr> =
      Ok (Name ls, \<lparr>d_buffer = buf, d_index = j\<rparr>)" by blast
  from name_at_label have "peek \<lparr>d_buffer = buf, d_index = i\<rparr> = Some (of_nat (length l))"
    by (simp add: peek_def bytes_at_Cons)
  moreover have "(of_nat (length l) :: u8) \<noteq> 0" "(of_nat (length l) :: u8) < 64"
    using name_at_label by (simp_all add: word_unat_eq_iff word_less_nat_alt)
  moreover have "read_character_data \<lparr>d_buffer = buf, d_index = i\<rparr> =
      Ok (l, \<lparr>d_buffer = buf, d_index = i + 1 + length l\<rparr>)"
    using name_at_label by (subst read_character_data_at) simp_all
  ultimately have "name_loop f LabelLengthOrPointer [] \<lparr>d_buffer = buf, d_index = i\<rparr> =
      name_loop f LabelLengthOrPointer ([l] @ []) \<lparr>d_buffer = buf, d_index = i + 1 + length l\<rparr>"
    by (simp add: name_loop_to_label name_loop.simps(2))
  also have "\<dots> = Ok (Name (l # ls), \<lparr>d_buffer = buf, d_index = j\<rparr>)"
    unfolding name_loop_append f by simp
  finally show ?case by blast
next
  case (name_at_pointer i w ls k)
  then obtain f where f: "name_loop f LabelLengthOrPointer [] \<lparr>d_buffer = buf, d_index = unat w\<rparr> =
      Ok (Name ls, \<lparr>d_buffer = buf, d_index = k\<rparr>)" by blast
  have "peek \<lparr>d_buffer = buf, d_index = i\<rparr> = Some (ucast (drop_bit 8 (0xC000 OR w)))"
    using name_at_pointer by (simp add: peek_def bytes_at_Cons be16_def)
  moreover have "read_u16 \<lparr>d_buffer = buf, d_index = i\<rparr> = Ok (0xC000 OR w, \<lparr>d_buffer = buf, d_index = i + 2\<rparr>)"
    using name_at_pointer by (subst read_u16_at) simp_all
  ultimately have "name_loop (Suc f) LabelLengthOrPointer [] \<lparr>d_buffer = buf, d_index = i\<rparr> =
      Ok (Name ls, \<lparr>d_buffer = buf, d_index = i + 2\<rparr>)"
    using f pointer_low_bits [OF name_at_pointer(2)] pointer_high_byte [of w]
    by (simp add: name_loop_to_pointer name_loop.simps(3) clone_at_def)
  then show ?case by blast
qed

lemma be16_split: "be16 (push_bit 8 (ucast b1) + ucast b2) = [b1, b2]"
proof -
  have "(push_bit 8 (ucast b1) + ucast b2 :: u16) = push_bit 8 (ucast b1) OR ucast b2"
    by (subst disjunctive_add) (auto simp: bit_simps dest: bit_imp_le_length)
  then show ?thesis
    by (auto simp: be16_def bit_eq_iff bit_simps dest: bit_imp_le_length)
qed

lemma pointer_high_bits:
  assumes "0xC0 \<le> (ucast (drop_bit 8 (v :: u16)) :: u8)"
  shows "0xC000 OR (v AND 0x3FFF) = v"
proof -
  let ?b = "ucast (drop_bit 8 v) :: u8"
  have "?b AND 0xC0 = 0xC0" using assms label_code_cases by blast
  then have "bit (?b AND 0xC0) 6" "bit (?b AND 0xC0) 7" by simp_all
  then have "bit v 14" "bit v 15" by (simp_all add: bit_simps)
  moreover have "(0x3FFF :: u16) = mask 14" by (simp add: mask_eq_exp_minus_1)
  moreover have "(0xC000 :: u16) = push_bit 14 (mask 2)" by (simp add: mask_eq_exp_minus_1)
  moreover have "bit (push_bit 14 (mask 2) OR (v AND mask 14)) n = bit v n"
    if "n < 16" "bit v 14" "bit v 15" for n
  proof -
    from that(1) consider "n < 14" | "n = 14" | "n = 15" by linarith
    then show ?thesis using that(2,3) by cases (simp_all add: bit_simps)
  qed
  ultimately show ?thesis
    by (intro bit_word_eqI) simp
qed

lemma read_u16_bytes_at:
  "read_u16 d = Ok (v, d') \<Longrightarrow>
     bytes_at (d_buffer d) (d_index d) (be16 v) \<and> d' = d\<lparr>d_index := d_index d + 2\<rparr>"
  by (auto simp: read_u16_def try_dec_Ok_iff pop_Ok_iff be16_split bytes_at_Cons bytes_at_Nil)

lemma read_character_data_bytes_at:
  assumes "read_character_data d = Ok (l, d')"
  shows "bytes_at (d_buffer d) (d_index d) (of_nat (length l) # bytes_of_str l) \<and>
     valid_utf8 (bytes_of_str l) \<and> d_buffer d ! d_index d = of_nat (length l) \<and> length l < 256 \<and>
     d' = d\<lparr>d_index := d_index d + 1 + length l\<rparr>"
proof -
  let ?n = "d_buffer d ! d_index d"
  let ?bs = "take (unat ?n) (drop (Suc (d_index d)) (d_buffer d))"
  from assms have i: "d_index d < length (d_buffer d)" and v: "valid_utf8 ?bs"
    and l: "l = str_of_bytes ?bs"
    and n: "unat ?n = 0 \<or> Suc (d_index d + unat ?n) \<le> length (d_buffer d)"
    and d': "d' = d\<lparr>d_index := Suc (d_index d + unat ?n)\<rparr>"
    by (auto simp: read_character_data_def try_dec_Ok_iff pop_Ok_iff read_vec_Ok_iff
        string_from_utf8_def split: if_splits)
  from n i have len: "length ?bs = unat ?n" by auto
  have "bytes_at (d_buffer d) (Suc (d_index d)) ?bs"
    using i by (intro bytes_at_take) simp
  with i v l len d' show ?thesis
    using unat_u8_less [of ?n] by (auto simp: bytes_at_Cons)
qed

definition seg_state_ok :: "label_parse_state \<Rightarrow> bin_decoder \<Rightarrow> bool" where
  "seg_state_ok st d =
     (case st of
        LabelLengthOrPointer \<Rightarrow> True
      | LPS_Label \<Rightarrow> (\<exists>b. peek d = Some b \<and> b \<noteq> 0 \<and> b < 64)
      | LPS_Pointer \<Rightarrow> (\<exists>b. peek d = Some b \<and> 0xC0 \<le> b)
      | LPS_Root \<Rightarrow> peek d = None \<or> peek d = Some 0)"

text \<open>What a segment says of the buffer: a complete name, or one that continues at a location.\<close>

definition seg_reads :: "bytes \<Rightarrow> nat \<Rightarrow> string list \<Rightarrow> u16 option \<Rightarrow> nat \<Rightarrow> bool" where
  "seg_reads buf i ls p j =
     (case p of
        None \<Rightarrow> name_at buf i ls j
      | Some w \<Rightarrow> \<forall>ls' k. name_at buf (unat w) ls' k \<longrightarrow> name_at buf i (ls @ ls') j)"

lemma seg_reads_label:
  "bytes_at buf i (of_nat (length l) # bytes_of_str l) \<Longrightarrow> 0 < length l \<Longrightarrow> length l \<le> 63 \<Longrightarrow>
   valid_utf8 (bytes_of_str l) \<Longrightarrow> seg_reads buf (i + 1 + length l) ls p j \<Longrightarrow> seg_reads buf i (l # ls) p j"
  using name_at_label [of buf i l _ j] by (cases p) (auto simp: seg_reads_def)

lemma name_seg_name_at:
  assumes "name_seg st ls d = Ok ((ls', p), d')" "seg_state_ok st d"
  shows "\<exists>ls2. ls' = ls @ ls2 \<and> seg_reads (d_buffer d) (d_index d) ls2 p (d_index d')"
  using assms
proof (induction st ls d rule: name_seg.induct)
  case (1 ls d)
  then show ?case
    by (auto simp: name_seg.simps(1) seg_state_ok_def label_code_cases split: option.splits if_splits)
next
  case (2 ls d)
  from 2(2) obtain l e where l: "read_character_data d = Ok (l, e)"
    and r: "name_seg LabelLengthOrPointer (ls @ [l]) e = Ok ((ls', p), d')"
    by (auto simp: name_seg.simps)
  note at = read_character_data_bytes_at [OF l]
  from 2(3) at have len: "0 < length l" "length l \<le> 63"
    by (auto simp: seg_state_ok_def peek_def word_less_nat_alt word_unat_eq_iff split: if_splits)
  from 2(1) [OF l refl r] obtain ls2 where "ls' = (ls @ [l]) @ ls2"
    and "seg_reads (d_buffer e) (d_index e) ls2 p (d_index d')"
    by (auto simp: seg_state_ok_def)
  with at len show ?case
    by (intro exI [of _ "l # ls2"]) (auto intro: seg_reads_label)
next
  case (3 ls d)
  then obtain v where v: "read_u16 d = Ok (v, d')" and p: "p = Some (v AND 0x3FFF)" "ls' = ls"
    by (auto simp: name_seg.simps)
  note at = read_u16_bytes_at [OF v]
  from 3(2) at have "0xC0 \<le> (ucast (drop_bit 8 v) :: u8)"
    by (auto simp: seg_state_ok_def peek_def bytes_at_Cons be16_def)
  from pointer_high_bits [OF this] have "0xC000 OR (v AND 0x3FFF) = v" .
  moreover have "v AND 0x3FFF < 0x4000"
    using word_and_le1 [of v "0x3FFF"] by (simp add: word_le_nat_alt word_less_nat_alt)
  ultimately show ?case
    using at p name_at_pointer [of "d_buffer d" "d_index d" "v AND 0x3FFF"]
    by (auto simp: seg_reads_def)
next
  case (4 ls d)
  then show ?case
    using name_at_root [of "d_index d" "d_buffer d"]
    by (auto simp: name_seg.simps pop_Ok_iff seg_state_ok_def peek_def seg_reads_def split: if_splits)
qed

lemma name_loop_name_at:
  "name_loop f LabelLengthOrPointer [] d = Ok (n, d') \<Longrightarrow>
     name_at (d_buffer d) (d_index d) (labels n) (d_index d') \<and> d_buffer d' = d_buffer d"
proof (induction f arbitrary: d n d')
  case 0
  from 0 obtain ls where seg: "name_seg LabelLengthOrPointer [] d = Ok ((ls, None), d')" and n: "n = Name ls"
    by (subst (asm) name_loop_seg) (auto split: option.splits)
  from name_seg_name_at [OF seg] name_seg_Ok_D [OF seg] n show ?case
    by (simp add: seg_state_ok_def seg_reads_def)
next
  case (Suc f)
  from Suc.prems obtain ls p where seg: "name_seg LabelLengthOrPointer [] d = Ok ((ls, p), d')"
    and r: "case p of None \<Rightarrow> n = Name ls
      | Some w \<Rightarrow> \<exists>m e. name_loop f LabelLengthOrPointer [] (clone_at d' w) = Ok (m, e) \<and> n = Name (ls @ labels m)"
    by (subst (asm) name_loop_seg) (auto split: option.splits)
  from name_seg_Ok_D [OF seg] have "d_buffer d' = d_buffer d" by simp
  with name_seg_name_at [OF seg] r Suc.IH show ?case
    by (fastforce simp: seg_state_ok_def clone_at_def seg_reads_def split: option.splits)
qed

lemma name_read_name_at:
  "name_read d = Ok (n, d') \<longleftrightarrow>
     name_at (d_buffer d) (d_index d) (labels n) (d_index d') \<and> d_buffer d' = d_buffer d"
proof
  assume r: "name_read d = Ok (n, d')"
  then have "name_loop 16384 LabelLengthOrPointer [] d = Ok (n, d')" by (simp add: name_read_def)
  then show "name_at (d_buffer d) (d_index d) (labels n) (d_index d') \<and> d_buffer d' = d_buffer d"
    by (rule name_loop_name_at)
next
  assume a: "name_at (d_buffer d) (d_index d) (labels n) (d_index d') \<and> d_buffer d' = d_buffer d"
  then obtain f where f: "name_loop f LabelLengthOrPointer [] \<lparr>d_buffer = d_buffer d, d_index = d_index d\<rparr> =
      Ok (Name (labels n), \<lparr>d_buffer = d_buffer d, d_index = d_index d'\<rparr>)"
    using name_at_loop by blast
  have "\<lparr>d_buffer = d_buffer d, d_index = d_index d\<rparr> = d"
    "\<lparr>d_buffer = d_buffer d, d_index = d_index d'\<rparr> = d'"
    using a by simp_all
  with f show "name_read d = Ok (n, d')" by (simp add: name_read_complete)
qed

lemma name_at_advances: "name_at buf i ls j \<Longrightarrow> i < j \<and> j \<le> length buf"
  by (induction rule: name_at.induct) (auto dest: bytes_at_le)

lemma advances_name_read [advancing]: "advances name_read"
  unfolding advances_def name_read_name_at by (auto dest: name_at_advances)

lemma bytes_at_extend: "bytes_at buf i bs \<Longrightarrow> bytes_at (buf @ rest) i bs"
  unfolding bytes_at_def by (metis append.assoc)

lemma name_at_extend: "name_at buf i ls j \<Longrightarrow> name_at (buf @ rest) i ls j"
proof (induction rule: name_at.induct)
  case (name_at_root i)
  then show ?case by (intro name_at.name_at_root) (auto simp: nth_append)
next
  case (name_at_label i l ls j)
  then show ?case by (intro name_at.name_at_label bytes_at_extend)
next
  case (name_at_pointer i w ls k)
  from name_at.name_at_pointer [OF bytes_at_extend [OF name_at_pointer(1)] name_at_pointer(2,4)]
  show ?case .
qed

section \<open>Properties of names\<close>

text \<open>
  C3. Which names \<open>Name::read\<close> accepts: it succeeds with a name and an advanced decoder exactly when the
  labels of the name are encoded at the decoder's index, possibly through pointers, and the decoder then
  stands right behind the octets of the encoding in the same buffer. The encoding is that of the code and
  more than its comments allow: the length of the name is not limited to 255 octets, its letters keep
  their case, and a pointer may name any place of the message, also a later one.
\<close>
theorem name_read_meaning:
  "name_read d = Ok (n, d') \<longleftrightarrow>
     name_at (d_buffer d) (d_index d) (labels n) (d_index d') \<and> d_buffer d' = d_buffer d"
  by (rule name_read_name_at)

text \<open>
  The bound on pointers is exact: \<open>Name::read\<close> recurses without end exactly when the
  bound of 16384 pointers is exceeded, and every larger bound gives the same result.
\<close>
lemma name_read_bound_exact:
  "(name_read d = Overrun \<longleftrightarrow> (\<forall>f. name_loop f LabelLengthOrPointer [] d = Overrun)) \<and>
   (16384 \<le> f \<longrightarrow> name_loop f LabelLengthOrPointer [] d = name_read d)"
proof (intro conjI impI)
  show "name_read d = Overrun \<longleftrightarrow> (\<forall>f. name_loop f LabelLengthOrPointer [] d = Overrun)"
    using name_read_Overrun [of d] by (auto simp: name_read_def)
  assume "16384 \<le> f"
  then show "name_loop f LabelLengthOrPointer [] d = name_read d"
    using name_loop_mono [of 16384 "[]" d f] name_read_Overrun [of d f]
    by (cases "name_read d = Overrun") (auto simp: name_read_def)
qed

text \<open>
  A pointer to its own location is never rejected: \<open>Name::read\<close> on it recurses without
  end, whatever the rest of the message.
\<close>
lemma name_read_self_pointer:
  assumes "bytes_at buf i (be16 (0xC000 OR of_nat i))" "i < 0x4000"
  shows "name_read \<lparr>d_buffer = buf, d_index = i\<rparr> = Overrun"
proof -
  have w: "(of_nat i :: u16) < 0x4000" using assms(2) by (simp add: word_less_nat_alt)
  have peek: "peek \<lparr>d_buffer = buf, d_index = i\<rparr> = Some (ucast (drop_bit 8 (0xC000 OR (of_nat i :: u16))))"
    using assms(1) by (simp add: peek_def bytes_at_Cons be16_def)
  have read: "read_u16 \<lparr>d_buffer = buf, d_index = i\<rparr> = Ok (0xC000 OR of_nat i, \<lparr>d_buffer = buf, d_index = i + 2\<rparr>)"
    using assms(1) by (subst read_u16_at) simp_all
  have "name_loop f LabelLengthOrPointer [] \<lparr>d_buffer = buf, d_index = i\<rparr> = Overrun" for f
  proof (induction f)
    case (Suc f)
    then show ?case
      using assms(2) pointer_low_bits [OF w] name_loop_to_pointer [OF peek pointer_high_byte]
      by (simp add: name_loop.simps(3) read clone_at_def)
  qed (use name_loop_to_pointer [OF peek pointer_high_byte] in \<open>simp add: name_loop.simps(3) read\<close>)
  then show ?thesis by (simp add: name_read_def)
qed

text \<open>
  C34. Names are ordered canonically: equality is equality of the labels up to case, it is
  respected by the order and by the hash, and the order is antisymmetric up to equality and
  transitive.
\<close>
theorem name_order_laws:
  "(name_eq a b \<longleftrightarrow> map to_lower (labels a) = map to_lower (labels b)) \<and>
   (name_cmp a b = Equal \<longleftrightarrow> name_eq a b) \<and>
   name_cmp b a = rev_ordering (name_cmp a b) \<and>
   (name_eq a b \<longrightarrow> name_cmp a c = name_cmp b c \<and> name_hash_input a = name_hash_input b) \<and>
   (name_cmp a b = Less \<and> name_cmp b c = Less \<longrightarrow> name_cmp a c = Less)"
  using name_ord.cmp_swap [of b a] name_ord.cmp_Less_trans [of a b c] name_ord.cmp_Equal_left [of a b c]
    name_hash_input_cong [of a b] name_cmp_Equal [of a b]
  by (auto simp: name_eq_iff)

theorem name_order_laws_witness:
  "name_cmp (Name [''a'', ''Example'']) (Name [''z'', ''example'']) = Less \<and>
   name_cmp (Name [''a'', ''Example'']) (Name [''A'', ''a'', ''test'']) = Less \<and>
   name_hash_input (Name [''A'', ''b'']) = name_hash_input (Name [''a'', ''B''])"
proof -
  have "name_cmp (Name [''a'', ''Example'']) (Name [''z'', ''example'']) = Less"
    "name_cmp (Name [''z'', ''example'']) (Name [''A'', ''a'', ''test'']) = Less"
    "name_eq (Name [''A'', ''b'']) (Name [''a'', ''B''])" by code_simp+
  then show ?thesis
    using name_order_laws [of "Name [''a'', ''Example'']" "Name [''z'', ''example'']" "Name [''A'', ''a'', ''test'']"]
      name_order_laws [of "Name [''A'', ''b'']" "Name [''a'', ''B'']"] by blast
qed

text \<open>
  C35. \<open>zone_of\<close> decides whether the labels of the zone are a suffix of those of the name, up
  to case. When instead the name is a proper suffix of the zone, as \<open>com\<close> is of
  \<open>example.com\<close>, the index subtraction overflows: a panic under overflow checks.
\<close>
theorem zone_of_decides_suffix:
  assumes "length (labels z) < 256" "length (labels n) < 256"
  shows "zone_of z n =
     (if suffix (map to_lower (labels z)) (map to_lower (labels n)) then Ok True
      else if suffix (map to_lower (labels n)) (map to_lower (labels z)) then Panic
      else Ok False)"
  using assms by (rule zone_of_suffix)

theorem zone_of_decides_suffix_witness:
  "zone_of (Name [''example'', ''com'']) (Name [''www'', ''Example'', ''com'']) =
     (Ok True :: (bool, nat) outcome) \<and>
   zone_of (Name [''example'', ''com'']) (Name [''com'']) = (Panic :: (bool, nat) outcome) \<and>
   zone_of (Name [''example'', ''com'']) (Name [''net'']) = (Ok False :: (bool, nat) outcome)"
  by (simp add: zone_of_decides_suffix suffix_def)
    (simp add: to_lower_def lower_char_def suffix_to_prefix char_of_def bit_Suc_0_iff)

definition plain_name :: "name \<Rightarrow> bool" where
  "plain_name n \<longleftrightarrow> labels n \<noteq> [] \<and> length (labels n) < 256 \<and> list_all plain_label (labels n)"

lemma name_parse_printed: "plain_name n \<Longrightarrow> name_parse (name_to_string n) origin = Ok n"
proof -
  assume n: "plain_name n"
  have str: "name_to_string n = concat (map (\<lambda>l. l @ ''.'') (labels n)) @ []"
    using n by (simp add: name_to_string_def is_root_def plain_name_def)
  have "parse_loop (name_to_string n) PS_Label name_new [] = Ok (n, [])"
    unfolding str using n by (subst parse_loop_labels) (simp_all add: name_new_def plain_name_def)
  moreover have "last (name_to_string n) = CHR ''.''" "name_to_string n \<noteq> []"
    using n last_concat_dots [of "labels n"] by (auto simp: str plain_name_def)
  ultimately show ?thesis by (simp add: name_parse_def)
qed

text \<open>
  Printing and parsing agree: the printed form of a name with at least one label, all of
  plain characters, parses back to that name without an origin. The printed form of the root
  does not: \<open>.\<close> parses to a name with one empty label.
\<close>
lemma name_parse_to_string:
  assumes "labels n \<noteq> []" "length (labels n) < 256" "list_all plain_label (labels n)"
  shows "name_parse (name_to_string n) None = Ok n \<and>
         name_parse (name_to_string name_root) None = Ok (Name [[]])"
proof
  show "name_parse (name_to_string n) None = Ok n"
    using assms by (intro name_parse_printed) (simp add: plain_name_def)
  show "name_parse (name_to_string name_root) None = Ok (Name [[]])"
    by (simp add: name_parse_def name_to_string_def name_root_def name_new_def is_root_def
        add_label_def Let_def)
qed

text \<open>
  A name that does not end in a dot is completed by the origin: plain labels joined by
  dots parse to those labels followed by the labels of the origin, and are rejected when no
  origin is given.
\<close>
lemma name_parse_relative:
  assumes "list_all plain_label ls" "plain_label l" "l \<noteq> []"
    and "length ls + 1 + length (labels origin) < 256"
  shows "name_parse (concat (map (\<lambda>l. l @ ''.'') ls) @ l) (Some origin) = Ok (Name (ls @ l # labels origin)) \<and>
         name_parse (concat (map (\<lambda>l. l @ ''.'') ls) @ l) None = Err (PE_Message ''$ORIGIN was not specified'')"
proof -
  have "parse_loop (concat (map (\<lambda>l. l @ ''.'') ls) @ l) PS_Label name_new [] = Ok (Name ls, l)"
    using assms parse_loop_plain [OF assms(2), of "[]" "Name ls" "[]"]
    by (subst parse_loop_labels) (simp_all add: name_new_def)
  moreover have "last l \<noteq> CHR ''.''"
    using assms(2,3) by (auto simp: plain_label_def plain_char_def list_all_iff)
  ultimately show ?thesis
    using assms(3,4) by (simp add: name_parse_def add_label_def Let_def name_append_def append_labels_eq)
qed

end
