(* ===== verification/Codec.thy ===== *)
theory Codec
  imports Domain
begin

text \<open>
  The contract between the encoders and the decoders of the wire format.

  An encoder starts at some position of a message whose earlier octets are \<open>pre\<close>; the
  invariant \<open>enc_inv\<close> says that its offset is its position and that every location it holds
  for a list of labels is one where a reader finds these labels. \<open>writes m r x\<close> says that
  whenever the encoding function \<open>m\<close> succeeds, it keeps the invariant and appends octets from
  which the decoding function \<open>r\<close> reads \<open>x\<close>, whatever precedes and follows them. The locale
  \<open>wire_codec\<close> is that contract for a pair of functions and a type; it is interpreted for
  the integers, the code points, character data and domain names.
\<close>

section \<open>The invariant of an encoder\<close>

definition enc_inv :: "bytes \<Rightarrow> bin_encoder \<Rightarrow> bool" where
  "enc_inv pre e \<longleftrightarrow>
     unat (e_offset e) = length pre + length (e_buffer e) \<and>
     (\<forall>ls p. name_pointers e ls = Some p \<longrightarrow>
        p < 0x3FFF \<and> (\<exists>j. name_at (pre @ e_buffer e) (unat p) ls j))"

definition dec_at :: "bytes \<Rightarrow> nat \<Rightarrow> bin_decoder" where
  "dec_at buf i = \<lparr>d_buffer = buf, d_index = i\<rparr>"

lemma dec_at_sel [simp]: "d_buffer (dec_at buf i) = buf" "d_index (dec_at buf i) = i"
  "dec_at buf i\<lparr>d_index := j\<rparr> = dec_at buf j" "new_decoder buf = dec_at buf 0"
  by (simp_all add: dec_at_def new_decoder_def)

lemma enc_inv_new: "unat (e_offset e) = length pre \<Longrightarrow> e_buffer e = [] \<Longrightarrow> name_pointers e = Map.empty \<Longrightarrow> enc_inv pre e"
  by (simp add: enc_inv_def)

lemma enc_inv_new_encoder [simp]: "enc_inv [] (new_encoder [])" "enc_inv [] (with_mode [] m)"
  by (simp_all add: enc_inv_def new_encoder_def with_mode_def with_offset_def)

lemma enc_inv_push:
  assumes "enc_inv pre e" "room_for (length bs) e"
  shows "enc_inv pre (push_bytes bs e)"
  using assms unat_offset_push [OF assms(2)] name_at_extend [of "pre @ e_buffer e" _ _ _ bs]
  unfolding enc_inv_def by (simp only: push_bytes_sel) (simp, blast)

section \<open>What an encoding function writes\<close>

text \<open>
  \<open>writes_to c lim k m r x\<close>: an encoder at position \<open>k\<close> whose canonical flag is \<open>c\<close> lets
  \<open>m\<close> append octets up to some position \<open>j\<close>; the decoding function \<open>r j\<close>, which may depend
  on that position, reads \<open>x\<close> from \<open>k\<close> to \<open>j\<close> provided \<open>j\<close> does not pass \<open>lim\<close>.
\<close>

definition writes_to :: "bool \<Rightarrow> nat \<Rightarrow> nat \<Rightarrow> enc \<Rightarrow> (nat \<Rightarrow> 'a dec) \<Rightarrow> 'a \<Rightarrow> bool" where
  "writes_to c lim k m r x \<longleftrightarrow>
     (\<forall>pre e e'. enc_inv pre e \<and> canonical_names e = c \<and> length pre + length (e_buffer e) = k \<and>
        m e = (Ok (), e') \<longrightarrow>
        enc_inv pre e' \<and> e_mode e' = e_mode e \<and> canonical_names e' = c \<and>
        (\<exists>bs. e_buffer e' = e_buffer e @ bs \<and>
          (k + length bs \<le> lim \<longrightarrow>
            (\<forall>rest. r (k + length bs) (dec_at (pre @ e_buffer e' @ rest) k) =
               Ok (x, dec_at (pre @ e_buffer e' @ rest) (k + length bs))))))"

definition writes :: "bool \<Rightarrow> enc \<Rightarrow> 'a dec \<Rightarrow> 'a \<Rightarrow> bool" where
  "writes c m r x \<longleftrightarrow> (\<forall>lim k. writes_to c lim k m (\<lambda>_. r) x)"

text \<open>The reader is told the number of octets, at most 65535, as for RDATA.\<close>

definition writes_sized :: "bool \<Rightarrow> enc \<Rightarrow> (u16 \<Rightarrow> 'a dec) \<Rightarrow> 'a \<Rightarrow> bool" where
  "writes_sized c m r x \<longleftrightarrow> (\<forall>k. writes_to c (k + 65535) k m (\<lambda>j. r (of_nat (j - k))) x)"

named_theorems codec \<open>encoding functions and the decoding functions that read them\<close>

lemma writes_toI:
  assumes "\<And>pre e e'. enc_inv pre e \<Longrightarrow> canonical_names e = c \<Longrightarrow> k = length pre + length (e_buffer e) \<Longrightarrow>
      m e = (Ok (), e') \<Longrightarrow>
      enc_inv pre e' \<and> e_mode e' = e_mode e \<and> canonical_names e' = c \<and>
      (\<exists>bs. e_buffer e' = e_buffer e @ bs \<and>
        (k + length bs \<le> lim \<longrightarrow>
          (\<forall>rest. r (k + length bs) (dec_at (pre @ e_buffer e' @ rest) k) =
             Ok (x, dec_at (pre @ e_buffer e' @ rest) (k + length bs)))))"
  shows "writes_to c lim k m r x"
  using assms unfolding writes_to_def by blast

lemma writes_toD:
  assumes "writes_to c lim k m r x" "enc_inv pre e" "canonical_names e = c"
    "k = length pre + length (e_buffer e)" "m e = (Ok (), e')"
  obtains bs where "enc_inv pre e'" "e_mode e' = e_mode e" "canonical_names e' = c"
    "e_buffer e' = e_buffer e @ bs"
    "\<And>rest. k + length bs \<le> lim \<Longrightarrow>
       r (k + length bs) (dec_at (pre @ e_buffer e' @ rest) k) =
       Ok (x, dec_at (pre @ e_buffer e' @ rest) (k + length bs))"
  using assms unfolding writes_to_def by blast

lemma writesD:
  assumes "writes c m r x" "enc_inv pre e" "canonical_names e = c" "m e = (Ok (), e')"
  obtains bs where "enc_inv pre e'" "e_mode e' = e_mode e" "canonical_names e' = c"
    "e_buffer e' = e_buffer e @ bs"
    "\<And>rest. r (dec_at (pre @ e_buffer e' @ rest) (length pre + length (e_buffer e))) =
       Ok (x, dec_at (pre @ e_buffer e' @ rest) (length pre + length (e_buffer e) + length bs))"
proof -
  let ?k = "length pre + length (e_buffer e)"
  have "writes_to c (length pre + length (e_buffer e')) ?k m (\<lambda>_. r) x"
    using assms(1) by (simp add: writes_def)
  from writes_toD [OF this assms(2,3) refl assms(4)] obtain bs where "enc_inv pre e'"
    "e_mode e' = e_mode e" "canonical_names e' = c" "e_buffer e' = e_buffer e @ bs"
    "\<And>rest. ?k + length bs \<le> length pre + length (e_buffer e') \<Longrightarrow>
       r (dec_at (pre @ e_buffer e' @ rest) ?k) = Ok (x, dec_at (pre @ e_buffer e' @ rest) (?k + length bs))"
    by blast
  then show thesis by (intro that) auto
qed

lemma writes_to_writes: "writes c m r x \<Longrightarrow> writes_to c lim k m (\<lambda>_. r) x"
  by (simp add: writes_def)

lemma writes_to_Nil [codec]: "writes_to c lim k (enc_seq []) (\<lambda>_. dec_return x) x"
  by (rule writes_toI) (simp add: dec_return_def)

text \<open>An encoding function that always appends the same number of octets.\<close>

definition emits_size :: "enc \<Rightarrow> nat \<Rightarrow> bool" where
  "emits_size m n \<longleftrightarrow> (\<forall>e e'. m e = (Ok (), e') \<longrightarrow> length (e_buffer e') = length (e_buffer e) + n)"

lemma writes_to_Cons_strong:
  assumes m: "writes c m r x"
    and ms: "\<And>k'. k \<le> k' \<Longrightarrow> (\<And>n. emits_size m n \<Longrightarrow> k' = k + n) \<Longrightarrow> writes_to c lim k' (enc_seq ms) (f x) y"
  shows "writes_to c lim k (enc_seq (m # ms)) (\<lambda>j. try_dec r (\<lambda>x. f x j)) y"
proof (rule writes_toI)
  fix pre e e''
  assume inv: "enc_inv pre e" and c: "canonical_names e = c" and k: "k = length pre + length (e_buffer e)"
    and "enc_seq (m # ms) e = (Ok (), e'')"
  then obtain e' where m': "m e = (Ok (), e')" and ms': "enc_seq ms e' = (Ok (), e'')"
    by (auto simp: enc_seq_Cons_Ok_iff simp del: enc_seq.simps)
  from writesD [OF m inv c m'] obtain bs where 1: "enc_inv pre e'" "e_mode e' = e_mode e" "canonical_names e' = c"
    "e_buffer e' = e_buffer e @ bs"
    "\<And>rest. r (dec_at (pre @ e_buffer e' @ rest) k) = Ok (x, dec_at (pre @ e_buffer e' @ rest) (k + length bs))"
    unfolding k by blast
  have k': "k + length bs = length pre + length (e_buffer e')" by (simp add: 1(4) k)
  have "k + length bs = k + n" if "emits_size m n" for n
    using that m' 1(4) by (metis (no_types) emits_size_def add_left_cancel length_append)
  from writes_toD [OF ms [OF _ this] 1(1,3) k' ms'] obtain cs where 2: "enc_inv pre e''" "e_mode e'' = e_mode e'"
    "canonical_names e'' = c" "e_buffer e'' = e_buffer e' @ cs"
    "\<And>rest. k + length bs + length cs \<le> lim \<Longrightarrow>
       f x (k + length bs + length cs) (dec_at (pre @ e_buffer e'' @ rest) (k + length bs)) =
       Ok (y, dec_at (pre @ e_buffer e'' @ rest) (k + length bs + length cs))"
    by auto
  have "try_dec r (\<lambda>x. f x (k + length (bs @ cs))) (dec_at (pre @ e_buffer e'' @ rest) k) =
      Ok (y, dec_at (pre @ e_buffer e'' @ rest) (k + length (bs @ cs)))"
    if "k + length (bs @ cs) \<le> lim" for rest
    using that 1(5) [of "cs @ rest"] 2(5) [of rest] by (simp add: try_dec_def 2(4) add.assoc)
  with 1 2 show "enc_inv pre e'' \<and> e_mode e'' = e_mode e \<and> canonical_names e'' = c \<and>
      (\<exists>bs. e_buffer e'' = e_buffer e @ bs \<and>
        (k + length bs \<le> lim \<longrightarrow>
          (\<forall>rest. try_dec r (\<lambda>x. f x (k + length bs)) (dec_at (pre @ e_buffer e'' @ rest) k) =
             Ok (y, dec_at (pre @ e_buffer e'' @ rest) (k + length bs)))))"
    by (intro conjI exI [of _ "bs @ cs"]) auto
qed

lemma writes_to_Cons:
  "writes c m r x \<Longrightarrow> (\<And>k'. k \<le> k' \<Longrightarrow> writes_to c lim k' (enc_seq ms) (f x) y) \<Longrightarrow>
   writes_to c lim k (enc_seq (m # ms)) (\<lambda>j. try_dec r (\<lambda>x. f x j)) y"
  by (rule writes_to_Cons_strong)

lemma writes_to_Cons_size:
  "writes c m r x \<Longrightarrow> emits_size m n \<Longrightarrow> writes_to c lim (k + n) (enc_seq ms) (f x) y \<Longrightarrow>
   writes_to c lim k (enc_seq (m # ms)) (\<lambda>j. try_dec r (\<lambda>x. f x j)) y"
  by (rule writes_to_Cons_strong) auto

lemma writes_to_cong:
  assumes "writes_to c lim k m r' x" "\<And>j. k \<le> j \<Longrightarrow> j \<le> lim \<Longrightarrow> r j = r' j"
  shows "writes_to c lim k m r x"
proof (rule writes_toI)
  fix pre e e'
  assume "enc_inv pre e" "canonical_names e = c" "k = length pre + length (e_buffer e)" "m e = (Ok (), e')"
  from writes_toD [OF assms(1) this] obtain bs where w: "enc_inv pre e'" "e_mode e' = e_mode e"
    "canonical_names e' = c" "e_buffer e' = e_buffer e @ bs"
    "\<And>rest. k + length bs \<le> lim \<Longrightarrow> r' (k + length bs) (dec_at (pre @ e_buffer e' @ rest) k) =
       Ok (x, dec_at (pre @ e_buffer e' @ rest) (k + length bs))"
    by blast
  then show "enc_inv pre e' \<and> e_mode e' = e_mode e \<and> canonical_names e' = c \<and>
      (\<exists>bs. e_buffer e' = e_buffer e @ bs \<and>
        (k + length bs \<le> lim \<longrightarrow>
          (\<forall>rest. r (k + length bs) (dec_at (pre @ e_buffer e' @ rest) k) =
             Ok (x, dec_at (pre @ e_buffer e' @ rest) (k + length bs)))))"
    using assms(2) [of "k + length bs"] by auto
qed

lemma writes_to_reader:
  assumes "writes_to c lim k m r x"
    and "\<And>buf j. k \<le> j \<Longrightarrow> j \<le> lim \<Longrightarrow> r j (dec_at buf k) = Ok (x, dec_at buf j) \<Longrightarrow>
      r' j (dec_at buf k) = Ok (y, dec_at buf j)"
  shows "writes_to c lim k m r' y"
  using assms unfolding writes_to_def by (metis le_add1)

lemma writes_to_index:
  "writes_to c lim k m (g k) x \<Longrightarrow> writes_to c lim k m (\<lambda>j. try_dec dec_index (\<lambda>i. g i j)) x"
  by (erule writes_to_reader) (simp add: try_dec_def dec_index_def)

lemma writes_to_map:
  "writes_to c lim k m r x \<Longrightarrow> writes_to c lim k m (\<lambda>j. try_dec (r j) (\<lambda>v. dec_return (g v))) (g x)"
  by (erule writes_to_reader) (simp add: try_dec_def dec_return_def)

lemma writes_Nil [codec]: "writes c (enc_seq []) (dec_return x) x"
  unfolding writes_def by (intro allI codec)

lemma writes_Cons [codec]:
  "writes c m r x \<Longrightarrow> writes c (enc_seq ms) (f x) y \<Longrightarrow> writes c (enc_seq (m # ms)) (try_dec r f) y"
  unfolding writes_def [of _ "enc_seq _"] by (intro allI writes_to_Cons) auto

lemma writes_to_single: "writes_to c lim k (enc_seq [m]) r x \<longleftrightarrow> writes_to c lim k m r x"
proof -
  have "enc_seq [m] e = (Ok (), e') \<longleftrightarrow> m e = (Ok (), e')" for e e'
    by (auto split: prod.splits outcome.splits)
  then show ?thesis by (simp add: writes_to_def)
qed

lemma writes_single: "writes c (enc_seq [m]) r x \<longleftrightarrow> writes c m r x"
  by (simp add: writes_def writes_to_single)

lemma writes_map:
  assumes "writes c m r x"
  shows "writes c m (try_dec r (\<lambda>y. dec_return (f y))) (f x)"
  by (subst writes_single [symmetric], rule writes_Cons [OF assms], rule writes_Nil)

lemma writes_fail: "(\<And>e e'. m e \<noteq> (Ok (), e')) \<Longrightarrow> writes c m r x"
  by (simp add: writes_def writes_to_def)

lemma writes_sized_writes: "writes c m r x \<Longrightarrow> writes_sized c m (\<lambda>_. r) x"
  by (simp add: writes_sized_def writes_def)

lemma writes_vec:
  assumes "\<And>d. bytes_at (d_buffer d) (d_index d) bs \<Longrightarrow> r d = Ok (x, d\<lparr>d_index := d_index d + length bs\<rparr>)"
  shows "writes c (emit_vec bs) r x"
  unfolding writes_def
proof (intro allI writes_toI)
  fix lim k pre e e'
  assume inv: "enc_inv pre e" and c: "canonical_names e = c" and k: "k = length pre + length (e_buffer e)"
    and "emit_vec bs e = (Ok (), e')"
  then have room: "room_for (length bs) e" and e': "e' = push_bytes bs e"
    by (auto simp: emit_vec_Ok_iff)
  have "bytes_at (pre @ e_buffer e @ bs @ rest) k bs" for rest
    using bytes_at_mid [of "pre @ e_buffer e" bs rest] by (simp add: k)
  with assms [of "dec_at (pre @ e_buffer e @ bs @ rest) k" for rest] enc_inv_push [OF inv room] c
  show "enc_inv pre e' \<and> e_mode e' = e_mode e \<and> canonical_names e' = c \<and>
      (\<exists>bs. e_buffer e' = e_buffer e @ bs \<and>
        (k + length bs \<le> lim \<longrightarrow>
          (\<forall>rest. r (dec_at (pre @ e_buffer e' @ rest) k) =
             Ok (x, dec_at (pre @ e_buffer e' @ rest) (k + length bs)))))"
    by (simp add: e')
qed

section \<open>Domain names\<close>

text \<open>A label that can be encoded: not empty, at most 63 octets of UTF-8.\<close>

definition wf_label :: "string \<Rightarrow> bool" where
  "wf_label l \<longleftrightarrow> 0 < length l \<and> length l \<le> 63 \<and> valid_utf8 (bytes_of_str l)"

definition wf_name :: "name \<Rightarrow> bool" where
  "wf_name n \<longleftrightarrow> list_all wf_label (labels n)"

text \<open>
  While a name is being written, the locations stored for it are not yet readable; those of
  shorter label lists are.
\<close>

definition ptr_ok :: "bytes \<Rightarrow> bin_encoder \<Rightarrow> nat \<Rightarrow> bool" where
  "ptr_ok pre e k \<longleftrightarrow>
     (\<forall>ls p. name_pointers e ls = Some p \<and> length ls \<le> k \<longrightarrow>
        p < 0x3FFF \<and> (\<exists>j. name_at (pre @ e_buffer e) (unat p) ls j))"

definition name_written :: "bytes \<Rightarrow> bin_encoder \<Rightarrow> string list \<Rightarrow> bin_encoder \<Rightarrow> bool" where
  "name_written pre e ls e' \<longleftrightarrow>
     (\<exists>bs. e_buffer e' = e_buffer e @ bs) \<and>
     unat (e_offset e') = length pre + length (e_buffer e') \<and>
     e_mode e' = e_mode e \<and> canonical_names e' = canonical_names e \<and>
     name_at (pre @ e_buffer e') (length pre + length (e_buffer e)) ls (length pre + length (e_buffer e')) \<and>
     (\<forall>ls' p. name_pointers e' ls' = Some p \<longrightarrow>
        name_pointers e ls' = Some p \<or> (p < 0x3FFF \<and> (\<exists>j. name_at (pre @ e_buffer e') (unat p) ls' j)))"

lemma low_bits_location: "(loc :: u16) < 0x3FFF \<Longrightarrow> loc AND 0x3FFF = loc"
  using less_mask_eq [of loc 14] by (simp add: mask_eq_exp_minus_1 word_less_nat_alt)

lemma emit_root_written:
  assumes "emit_labels [] bl e = (Ok (), e')" "unat (e_offset e) = length pre + length (e_buffer e)"
  shows "name_written pre e [] e'"
proof -
  from assms(1) have room: "room_for 1 e" and e': "e' = push_bytes [0] e"
    by (auto simp: emit_room Let_def split: if_splits)
  have "name_at (pre @ e_buffer e @ [0]) (length pre + length (e_buffer e)) [] (length pre + length (e_buffer e) + 1)"
    by (rule name_at_root) (simp_all add: nth_append)
  with room assms(2) show ?thesis
    using unat_offset_push [of "[0]" e] by (simp add: name_written_def e')
qed

lemma name_written_label:
  assumes buf2: "e_buffer e2 = e_buffer e @ of_nat (length l) # bytes_of_str l"
    and same: "e_mode e2 = e_mode e" "canonical_names e2 = canonical_names e"
    and ptr: "\<And>ls' p. name_pointers e2 ls' = Some p \<Longrightarrow> name_pointers e ls' \<noteq> Some p \<Longrightarrow>
       p < 0x3FFF \<and> unat p = length pre + length (e_buffer e) \<and> ls' = l # ls"
    and l: "wf_label l"
    and w: "name_written pre e2 ls e'"
  shows "name_written pre e (l # ls) e'"
proof -
  from w obtain bs where bs: "e_buffer e' = e_buffer e2 @ bs" by (auto simp: name_written_def)
  have "bytes_at (pre @ e_buffer e') (length pre + length (e_buffer e)) (of_nat (length l) # bytes_of_str l)"
    using bytes_at_mid [of "pre @ e_buffer e" "of_nat (length l) # bytes_of_str l" bs] by (simp add: bs buf2)
  with w l have at: "name_at (pre @ e_buffer e') (length pre + length (e_buffer e)) (l # ls)
      (length pre + length (e_buffer e'))"
    by (intro name_at_label) (auto simp: name_written_def wf_label_def buf2 add.assoc)
  then have "p < 0x3FFF \<and> (\<exists>j. name_at (pre @ e_buffer e') (unat p) ls' j)"
    if "name_pointers e2 ls' = Some p" "name_pointers e ls' \<noteq> Some p" for ls' p
    using ptr [OF that] by auto
  moreover have "e_buffer e' = e_buffer e @ (of_nat (length l) # bytes_of_str l @ bs)"
    by (simp add: bs buf2)
  ultimately show ?thesis using w at same unfolding name_written_def by metis
qed

lemma store_label_pointer_new:
  assumes "name_pointers (store_label_pointer ls e) ls' = Some p" "name_pointers e ls' \<noteq> Some p"
    and "unat (e_offset e) = n"
  shows "p < 0x3FFF \<and> unat p = n \<and> ls' = ls"
proof -
  from assms have p: "ls' = ls" "p = ucast (e_offset e)" "e_offset e < 0x3FFF"
    by (auto simp: store_label_pointer_def split: if_splits)
  then have less: "unat (e_offset e) < 0x3FFF" by (simp add: word_less_nat_alt)
  then have "unat p = unat (e_offset e)"
    using p(2) by (simp add: unsigned_ucast_eq take_bit_nat_eq_self)
  with assms(3) p(1) less show ?thesis by (simp add: word_less_nat_alt)
qed

lemma emit_labels_written:
  assumes "emit_labels ls bl e = (Ok (), e')" "list_all wf_label ls"
    and "unat (e_offset e) = length pre + length (e_buffer e)" "ptr_ok pre e (length ls)"
  shows "name_written pre e ls e'"
  using assms
proof (induction ls arbitrary: e)
  case Nil
  then show ?case by (intro emit_root_written)
next
  case (Cons l ls)
  show ?case
  proof (cases "name_pointers e (l # ls)")
    case None
    let ?e1 = "store_label_pointer (l # ls) e"
    let ?e2 = "push_bytes (of_nat (length l) # bytes_of_str l) ?e1"
    have st: "e_offset ?e1 = e_offset e" "e_buffer ?e1 = e_buffer e"
      by (simp_all add: store_label_pointer_def)
    from Cons.prems(1,2) None have room: "room_for (Suc (length l)) ?e1"
      and rest: "emit_labels ls bl ?e2 = (Ok (), e')"
      by (auto simp: get_label_pointer_def emit_character_data_eq emit_vec_Ok_iff enc_fail_def
          split: if_splits prod.splits outcome.splits)
    have "unat (e_offset ?e2) = length pre + length (e_buffer ?e2)"
      using unat_offset_push [of "of_nat (length l) # bytes_of_str l" ?e1] room Cons.prems(3)
      by (simp add: st)
    moreover have "ptr_ok pre ?e2 (length ls)"
      unfolding ptr_ok_def
    proof (intro allI impI)
      fix ls' p
      assume a: "name_pointers ?e2 ls' = Some p \<and> length ls' \<le> length ls"
      then have "name_pointers e ls' = Some p" by (auto simp: store_label_pointer_def split: if_splits)
      moreover have "length ls' \<le> length (l # ls)" using a by simp
      ultimately obtain j where "p < 0x3FFF" "name_at (pre @ e_buffer e) (unat p) ls' j"
        using Cons.prems(4) unfolding ptr_ok_def by blast
      then show "p < 0x3FFF \<and> (\<exists>j. name_at (pre @ e_buffer ?e2) (unat p) ls' j)"
        using name_at_extend [of "pre @ e_buffer e" "unat p" ls' j "of_nat (length l) # bytes_of_str l"]
        by (auto simp: st)
    qed
    ultimately have "name_written pre ?e2 ls e'"
      using Cons.IH [OF rest] Cons.prems(2) by simp
    then show ?thesis
      using Cons.prems(2) store_label_pointer_new [OF _ _ Cons.prems(3)]
      by (intro name_written_label [of ?e2]) (simp_all add: store_label_pointer_def)
  next
    case (Some loc)
    then obtain j where loc: "loc < 0x3FFF" and at: "name_at (pre @ e_buffer e) (unat loc) (l # ls) j"
      using Cons.prems(4) unfolding ptr_ok_def by (metis order_refl)
    let ?bs = "be16 (0xC000 OR loc)"
    from Cons.prems(1) Some loc have room: "room_for 2 e" and e': "e' = push_bytes ?bs e"
      by (auto simp: get_label_pointer_def emit_u16_eq emit_vec_Ok_iff low_bits_location)
    have "bytes_at (pre @ e_buffer e @ ?bs) (length pre + length (e_buffer e)) ?bs"
      using bytes_at_mid [of "pre @ e_buffer e" ?bs "[]"] by simp
    moreover have "loc < 0x4000" using loc by (simp add: word_less_nat_alt)
    ultimately have "name_at (pre @ e_buffer e @ ?bs) (length pre + length (e_buffer e)) (l # ls)
        (length pre + length (e_buffer e) + 2)"
      using name_at_extend [OF at, of ?bs] by (intro name_at_pointer) simp_all
    then show ?thesis
      using room Cons.prems(3) unat_offset_push [of ?bs e] by (simp add: name_written_def e')
  qed
qed

lemma emit_character_data_Ok_iff:
  "emit_character_data s e = (Ok (), e') \<longleftrightarrow>
     length s \<le> 255 \<and> room_for (Suc (length s)) e \<and> e' = push_bytes (of_nat (length s) # bytes_of_str s) e"
  by (auto simp: emit_character_data_eq emit_vec_Ok_iff enc_fail_def)

lemma enc_seq_Nil_Ok_iff: "enc_seq [] e = (Ok (), e') \<longleftrightarrow> e' = e"
  by auto

lemma emit_canonical_written:
  assumes "enc_seq (map emit_character_data ls) e = (Ok (), e1)" "emit_labels [] bl e1 = (Ok (), e')"
    and "list_all wf_label ls" "unat (e_offset e) = length pre + length (e_buffer e)"
  shows "name_written pre e ls e'"
  using assms
proof (induction ls arbitrary: e)
  case Nil
  then show ?case by (intro emit_root_written) simp_all
next
  case (Cons l ls)
  let ?e2 = "push_bytes (of_nat (length l) # bytes_of_str l) e"
  from Cons.prems(1,3) have room: "room_for (Suc (length l)) e"
    and rest: "enc_seq (map emit_character_data ls) ?e2 = (Ok (), e1)"
    by (auto simp: enc_seq_Cons_Ok_iff emit_character_data_Ok_iff simp del: enc_seq.simps)
  have "unat (e_offset ?e2) = length pre + length (e_buffer ?e2)"
    using unat_offset_push [of "of_nat (length l) # bytes_of_str l" e] room Cons.prems(4) by simp
  from Cons.IH [OF rest Cons.prems(2) _ this] Cons.prems(3) show ?case
    by (intro name_written_label [of ?e2]) simp_all
qed

lemma enc_inv_written:
  assumes "enc_inv pre e" "name_written pre e ls e'"
  shows "enc_inv pre e'"
proof -
  from assms(2) obtain bs where bs: "e_buffer e' = e_buffer e @ bs" by (auto simp: name_written_def)
  have "p < 0x3FFF \<and> (\<exists>j. name_at (pre @ e_buffer e') (unat p) ls' j)" if "name_pointers e ls' = Some p" for ls' p
    using that assms(1) name_at_extend [of "pre @ e_buffer e" "unat p" ls' _ bs]
    unfolding enc_inv_def bs by fastforce
  with assms(2) show ?thesis unfolding enc_inv_def name_written_def by blast
qed

lemma writes_name [codec]: "wf_name n \<Longrightarrow> writes c (name_emit n) name_read n"
  unfolding writes_def
proof (intro allI writes_toI)
  fix lim k pre e e'
  assume wf: "wf_name n" and inv: "enc_inv pre e" and c: "canonical_names e = c"
    and k: "k = length pre + length (e_buffer e)" and emit: "name_emit n e = (Ok (), e')"
  from inv have "unat (e_offset e) = length pre + length (e_buffer e)" "ptr_ok pre e (length (labels n))"
    by (auto simp: enc_inv_def ptr_ok_def)
  with wf emit have w: "name_written pre e (labels n) e'"
    by (auto simp: name_emit_def emit_as_canonical_def Let_def wf_name_def enc_seq_Cons_Ok_iff enc_seq_Nil_Ok_iff
        simp del: enc_seq.simps emit_labels.simps split: if_splits
        intro: emit_labels_written emit_canonical_written)
  then obtain bs where bs: "e_buffer e' = e_buffer e @ bs" by (auto simp: name_written_def)
  have "name_at (pre @ e_buffer e' @ rest) k (labels n) (k + length bs)" for rest
    using w name_at_extend [of "pre @ e_buffer e'" _ _ _ rest] by (simp add: name_written_def k bs add.assoc)
  with enc_inv_written [OF inv w] w bs c
  show "enc_inv pre e' \<and> e_mode e' = e_mode e \<and> canonical_names e' = c \<and>
      (\<exists>bs. e_buffer e' = e_buffer e @ bs \<and>
        (k + length bs \<le> lim \<longrightarrow>
          (\<forall>rest. name_read (dec_at (pre @ e_buffer e' @ rest) k) =
             Ok (n, dec_at (pre @ e_buffer e' @ rest) (k + length bs)))))"
    by (simp add: name_written_def name_read_name_at)
qed

section \<open>The contract of a codec\<close>

text \<open>Reading a given number of values in sequence: a \<open>for\<close> loop over a count.\<close>

primrec dec_times :: "nat \<Rightarrow> 'a dec \<Rightarrow> 'a list dec" where
  "dec_times 0 r = dec_return []"
| "dec_times (Suc n) r = try_dec r (\<lambda>x. try_dec (dec_times n r) (\<lambda>xs. dec_return (x # xs)))"

lemma advances_dec_times [advancing]: "advances r \<Longrightarrow> advances (dec_times n r)"
  by (induction n) (auto intro!: advancing)

lemma writes_new:
  assumes "writes False m r x" "m (new_encoder []) = (Ok (), e')"
  shows "r (new_decoder (e_buffer e')) = Ok (x, dec_at (e_buffer e') (length (e_buffer e')))"
  by (rule writesD [OF assms(1) enc_inv_new_encoder(1) _ assms(2)])
    (auto simp: new_encoder_def with_offset_def dest: meta_spec [of _ "[]"])

locale wire_codec =
  fixes put :: "'a \<Rightarrow> enc" and get :: "'a dec" and wf :: "'a \<Rightarrow> bool"
  assumes put_get: "wf x \<Longrightarrow> writes False (put x) get x"
begin

lemma put_get_list: "list_all wf xs \<Longrightarrow> writes False (enc_seq (map put xs)) (dec_times (length xs) get) xs"
proof (induction xs)
  case Nil
  show ?case by (simp del: enc_seq.simps) (rule writes_Nil)
next
  case (Cons x xs)
  then have "writes False (enc_seq (map put xs)) (try_dec (dec_times (length xs) get) (\<lambda>ys. dec_return (x # ys))) (x # xs)"
    by (intro writes_map) simp
  with Cons.prems show ?case
    by (simp del: enc_seq.simps) (rule writes_Cons [OF put_get], simp_all)
qed

lemma put_get_new:
  assumes "wf x" "put x (new_encoder []) = (Ok (), e')"
  shows "get (new_decoder (e_buffer e')) = Ok (x, dec_at (e_buffer e') (length (e_buffer e')))"
  using assms(1) by (intro writes_new [OF put_get assms(2)])

end

lemma writes_emit_vec [codec]: "writes c (emit_vec bs) (read_vec (length bs)) bs"
  by (rule writes_vec) (rule read_vec_at)

lemma writes_to_emit_vec: "writes_to c lim k (emit_vec bs) (\<lambda>j. read_vec (j - k)) bs"
proof (rule writes_toI)
  fix pre e e'
  assume inv: "enc_inv pre e" and c: "canonical_names e = c" and k: "k = length pre + length (e_buffer e)"
    and m: "emit_vec bs e = (Ok (), e')"
  then have "e_buffer e' = e_buffer e @ bs" by (simp add: emit_vec_Ok_iff)
  with writesD [OF writes_emit_vec inv c m] show "enc_inv pre e' \<and> e_mode e' = e_mode e \<and> canonical_names e' = c \<and>
      (\<exists>bs'. e_buffer e' = e_buffer e @ bs' \<and>
        (k + length bs' \<le> lim \<longrightarrow>
          (\<forall>rest. read_vec (k + length bs' - k) (dec_at (pre @ e_buffer e' @ rest) k) =
             Ok (bs, dec_at (pre @ e_buffer e' @ rest) (k + length bs')))))"
    unfolding k by (metis add_diff_cancel_left' same_append_eq)
qed

lemma emits_size_vec: "emits_size (emit_vec bs) (length bs)"
  by (auto simp: emits_size_def emit_vec_Ok_iff)

lemma emits_size_primitive [simp]:
  "emits_size (emit b) 1" "emits_size (emit_u16 h) 2" "emits_size (emit_u32 w) 4" "emits_size (emit_i32 w) 4"
  "emits_size (alg_emit a) 1" "emits_size (rt_emit rt) 2"
  using emits_size_vec [of "[b]"] emits_size_vec [of "be16 h"] emits_size_vec [of "be32 w"]
    emits_size_vec [of "[alg_to_u8 a]"] emits_size_vec [of "be16 (rt_to_u16 rt)"]
  by (simp_all add: emit_eq_vec emit_u16_eq emit_u32_eq emit_i32_eq alg_emit_def rt_emit_def)

lemma writes_integers [codec]:
  "writes c (emit b) read_u8 b" "writes c (emit_u16 h) read_u16 h" "writes c (emit_u32 w) read_u32 w"
  "writes c (emit_i32 i) read_i32 i"
  unfolding emit_eq_vec emit_u16_eq emit_u32_eq emit_i32_eq
  by (rule writes_vec; simp add: read_u8_at read_u16_at read_u32_at read_i32_at)+

lemma writes_pop [codec]: "writes c (emit b) pop b"
  using writes_integers(1) [of c b] by (simp add: read_u8_def)

lemma writes_character_data [codec]:
  assumes "valid_utf8 (bytes_of_str s)"
  shows "writes c (emit_character_data s) read_character_data s"
proof (cases "length s \<le> 255")
  case True
  then have "emit_character_data s = emit_vec (of_nat (length s) # bytes_of_str s)"
    by (simp add: emit_character_data_eq)
  moreover have "writes c (emit_vec (of_nat (length s) # bytes_of_str s)) read_character_data s"
    using True assms by (intro writes_vec) (simp add: read_character_data_at)
  ultimately show ?thesis by simp
next
  case False
  then show ?thesis by (intro writes_fail) (simp add: emit_character_data_Ok_iff)
qed

lemma writes_lift:
  assumes "writes c m r v" "g v = Ok x"
  shows "writes c m (try_dec r (\<lambda>v. dec_lift (g v))) x"
  by (subst writes_single [symmetric], rule writes_Cons [OF assms(1)])
    (auto simp: writes_def dec_lift_def assms(2) intro!: writes_toI)

lemma writes_types [codec]:
  "rt \<noteq> RT_IXFR \<Longrightarrow> writes c (rt_emit rt) rt_read rt"
  "(\<And>v. cl \<noteq> CL_OPT v) \<Longrightarrow> writes c (class_emit cl) class_read cl"
  "writes c (alg_emit a) alg_read a"
  unfolding rt_emit_def rt_read_def class_emit_def class_read_def alg_emit_def alg_read_def
  by (rule writes_lift, rule codec, simp)+

interpretation u8_codec: wire_codec emit read_u8 "\<lambda>_. True"
  by unfold_locales (rule codec)

interpretation u16_codec: wire_codec emit_u16 read_u16 "\<lambda>_. True"
  by unfold_locales (rule codec)

interpretation u32_codec: wire_codec emit_u32 read_u32 "\<lambda>_. True"
  by unfold_locales (rule codec)

interpretation i32_codec: wire_codec emit_i32 read_i32 "\<lambda>_. True"
  by unfold_locales (rule codec)

interpretation rt_codec: wire_codec rt_emit rt_read "\<lambda>rt. rt \<noteq> RT_IXFR"
  by unfold_locales (rule codec)

interpretation class_codec: wire_codec class_emit class_read "\<lambda>c. \<forall>v. c \<noteq> CL_OPT v"
  by unfold_locales (rule codec, simp)

interpretation alg_codec: wire_codec alg_emit alg_read "\<lambda>_. True"
  by unfold_locales (rule codec)

interpretation str_codec: wire_codec emit_character_data read_character_data "\<lambda>s. valid_utf8 (bytes_of_str s)"
  by unfold_locales (rule codec)

interpretation name_codec: wire_codec name_emit name_read wf_name
  by unfold_locales (rule codec)

section \<open>Properties\<close>

text \<open>
  Domain names survive compression: writing any sequence of encodable names with one
  encoder, whose later names may be pointers into earlier ones, and reading as many names
  back from the produced message gives the same names and ends at its end.
\<close>
lemma names_roundtrip:
  assumes "list_all wf_name ns" "enc_seq (map name_emit ns) (new_encoder []) = (Ok (), e')"
  shows "dec_times (length ns) name_read (new_decoder (e_buffer e')) =
           Ok (ns, dec_at (e_buffer e') (length (e_buffer e')))"
  by (rule writes_new [OF name_codec.put_get_list [OF assms(1)] assms(2)])

end
