(* ===== verification/Rdata.thy ===== *)
theory Rdata
  imports Codec
begin

text \<open>
  Resource record data (\<open>client/src/rr/record_data.rs\<close> and the files of \<open>rr/rdata\<close>): the
  data of each record type, its decoding from a given number of octets and its encoding.

  A subtraction of lengths is checked: where the data announced for a record is shorter than
  its fixed part, the code panics, and so does the model. The iteration order of the
  \<open>HashMap\<close> of EDNS options is the order of the list of its entries.
\<close>

section \<open>Addresses, names, mail exchanges, text\<close>

datatype ipv4_addr = Ipv4 u8 u8 u8 u8

datatype ipv6_addr = Ipv6 u16 u16 u16 u16 u16 u16 u16 u16

definition a_read :: "ipv4_addr dec" where
  "a_read =
     try_dec pop (\<lambda>a.
     try_dec pop (\<lambda>b.
     try_dec pop (\<lambda>c.
     try_dec pop (\<lambda>d.
     dec_return (Ipv4 a b c d)))))"

fun a_emit :: "ipv4_addr \<Rightarrow> enc" where
  "a_emit (Ipv4 a b c d) = enc_seq [emit a, emit b, emit c, emit d]"

definition aaaa_read :: "ipv6_addr dec" where
  "aaaa_read =
     try_dec read_u16 (\<lambda>a.
     try_dec read_u16 (\<lambda>b.
     try_dec read_u16 (\<lambda>c.
     try_dec read_u16 (\<lambda>d.
     try_dec read_u16 (\<lambda>e.
     try_dec read_u16 (\<lambda>f.
     try_dec read_u16 (\<lambda>g.
     try_dec read_u16 (\<lambda>h.
     dec_return (Ipv6 a b c d e f g h)))))))))"

fun aaaa_emit :: "ipv6_addr \<Rightarrow> enc" where
  "aaaa_emit (Ipv6 a b c d e f g h) =
     enc_seq [emit_u16 a, emit_u16 b, emit_u16 c, emit_u16 d, emit_u16 e, emit_u16 f, emit_u16 g, emit_u16 h]"

definition name_rdata_read :: "name dec" where
  "name_rdata_read = name_read"

definition name_rdata_emit :: "name \<Rightarrow> enc" where
  "name_rdata_emit name_data e = enc_seq [emit_with_lowercase name_data (canonical_names e)] e"

record mx =
  mx_preference :: u16
  mx_exchange :: name

definition mx_read :: "mx dec" where
  "mx_read =
     try_dec read_u16 (\<lambda>preference.
     try_dec name_read (\<lambda>exchange.
     dec_return \<lparr>mx_preference = preference, mx_exchange = exchange\<rparr>))"

definition mx_emit :: "mx \<Rightarrow> enc" where
  "mx_emit mx e =
     enc_seq [emit_u16 (mx_preference mx),
              emit_with_lowercase (mx_exchange mx) (canonical_names e)] e"

record null_rdata =
  anything :: "bytes option"

definition null_read :: "u16 \<Rightarrow> null_rdata dec" where
  "null_read rdata_length =
     (if rdata_length > 0 then
        try_dec (read_vec (unat rdata_length)) (\<lambda>bs. dec_return \<lparr>anything = Some bs\<rparr>)
      else dec_return \<lparr>anything = None\<rparr>)"

definition null_emit :: "null_rdata \<Rightarrow> enc" where
  "null_emit nil =
     (case anything nil of Some bs \<Rightarrow> enc_seq (map emit bs) | None \<Rightarrow> enc_return)"

record txt_rdata =
  txt_data :: "string list"

text \<open>The loop reads strings until the announced number of octets is consumed.\<close>

function txt_loop :: "nat \<Rightarrow> u16 \<Rightarrow> string list \<Rightarrow> txt_rdata dec" where
  "txt_loop data_len rdata_length strings d =
     bind_outcome (dec_len d) (\<lambda>(len, _).
     if data_len < len then Panic
     else if data_len - len < unat rdata_length then
       bind_outcome (read_character_data d) (\<lambda>(s, d').
       txt_loop data_len rdata_length (strings @ [s]) d')
     else Ok (\<lparr>txt_data = strings\<rparr>, d))"
  by auto
termination
  by (relation "measure (\<lambda>(_, _, _, d). length (d_buffer d) - d_index d)")
    (auto dest!: read_character_data_index)

declare txt_loop.simps [simp del]

definition txt_read :: "u16 \<Rightarrow> txt_rdata dec" where
  "txt_read rdata_length =
     try_dec dec_len (\<lambda>data_len.
     txt_loop data_len rdata_length [])"

definition txt_emit :: "txt_rdata \<Rightarrow> enc" where
  "txt_emit t = enc_seq (map emit_character_data (txt_data t))"

record srv =
  srv_priority :: u16
  srv_weight :: u16
  srv_port :: u16
  srv_target :: name

definition srv_read :: "srv dec" where
  "srv_read =
     try_dec read_u16 (\<lambda>priority.
     try_dec read_u16 (\<lambda>weight.
     try_dec read_u16 (\<lambda>port.
     try_dec name_read (\<lambda>target.
     dec_return \<lparr>srv_priority = priority, srv_weight = weight, srv_port = port, srv_target = target\<rparr>))))"

definition srv_emit :: "srv \<Rightarrow> enc" where
  "srv_emit srv e =
     enc_seq [emit_u16 (srv_priority srv), emit_u16 (srv_weight srv), emit_u16 (srv_port srv),
              emit_with_lowercase (srv_target srv) (canonical_names e)] e"

record soa =
  mname :: name
  rname :: name
  serial :: u32
  refresh :: i32
  retry :: i32
  expire :: i32
  minimum :: u32

text \<open>\<open>increment_serial\<close> adds without a check: the largest serial panics.\<close>

definition increment_serial :: "soa \<Rightarrow> (soa, 'e) outcome" where
  "increment_serial soa =
     (if serial soa = - 1 then Panic else Ok (soa\<lparr>serial := serial soa + 1\<rparr>))"

definition soa_read :: "soa dec" where
  "soa_read =
     try_dec name_read (\<lambda>mn.
     try_dec name_read (\<lambda>rn.
     try_dec read_u32 (\<lambda>se.
     try_dec read_i32 (\<lambda>rf.
     try_dec read_i32 (\<lambda>rt.
     try_dec read_i32 (\<lambda>ex.
     try_dec read_u32 (\<lambda>mi.
     dec_return \<lparr>mname = mn, rname = rn, serial = se, refresh = rf, retry = rt, expire = ex, minimum = mi\<rparr>)))))))"

definition soa_emit :: "soa \<Rightarrow> enc" where
  "soa_emit soa e =
     enc_seq [emit_with_lowercase (mname soa) (canonical_names e),
              emit_with_lowercase (rname soa) (canonical_names e),
              emit_u32 (serial soa), emit_i32 (refresh soa), emit_i32 (retry soa),
              emit_i32 (expire soa), emit_u32 (minimum soa)] e"

section \<open>Type bit maps, NSEC and NSEC3\<close>

datatype bit_map_state = ReadWindow | ReadLen u8 | ReadType u8 u8 u8

text \<open>
  The eight bits of an octet, from the most significant; \<open>n\<close> of them are left. The type code
  is computed in \<open>u8\<close> arithmetic.
\<close>

fun bit_loop ::
    "nat \<Rightarrow> u8 \<Rightarrow> u8 \<Rightarrow> u8 \<Rightarrow> u8 \<Rightarrow> u8 \<Rightarrow> record_type list \<Rightarrow> (record_type list, decode_error) outcome" where
  "bit_loop 0 i window len left bit_map record_types = Ok record_types"
| "bit_loop (Suc n) i window len left bit_map record_types =
     bind_outcome
       (if bit_map AND 0x80 = 0x80 then
          if len < left then Panic
          else if unat (len - left) * 8 + unat i > 255 then Panic
          else
            let low_byte = (len - left) * 8 + i;
                rr_type = push_bit 8 (ucast window) OR ucast low_byte :: u16 in
            bind_outcome (rt_from_u16 rr_type) (\<lambda>rt. Ok (record_types @ [rt]))
        else Ok record_types)
       (\<lambda>record_types'. bit_loop n (i + 1) window len left (push_bit 1 bit_map) record_types')"

fun bit_map_step ::
    "bit_map_state \<Rightarrow> u8 \<Rightarrow> record_type list \<Rightarrow> (bit_map_state \<times> record_type list, decode_error) outcome" where
  "bit_map_step ReadWindow current_byte record_types = Ok (ReadLen current_byte, record_types)"
| "bit_map_step (ReadLen window) current_byte record_types =
     Ok (ReadType window current_byte current_byte, record_types)"
| "bit_map_step (ReadType window len left) current_byte record_types =
     bind_outcome (bit_loop 8 0 window len left current_byte record_types) (\<lambda>record_types'.
     if left = 0 then Panic
     else
       let left' = left - 1 in
       if left' = 0 then Ok (ReadWindow, record_types')
       else Ok (ReadType window len left', record_types'))"

primrec decode_type_loop :: "nat \<Rightarrow> bit_map_state \<Rightarrow> record_type list \<Rightarrow> record_type list dec" where
  "decode_type_loop 0 state record_types = dec_return record_types"
| "decode_type_loop (Suc n) state record_types =
     try_dec read_u8 (\<lambda>current_byte.
     try_dec (dec_lift (bit_map_step state current_byte record_types)) (\<lambda>(state', record_types').
     decode_type_loop n state' record_types'))"

definition decode_type_bit_maps :: "nat \<Rightarrow> record_type list dec" where
  "decode_type_bit_maps bit_map_len = decode_type_loop bit_map_len ReadWindow []"

text \<open>The windows of a bit map: the padding loop panics when the types are not ascending.\<close>

fun encode_types :: "record_type list \<Rightarrow> (u8 \<times> bytes) list \<Rightarrow> ((u8 \<times> bytes) list, 'e) outcome" where
  "encode_types [] hash = Ok hash"
| "encode_types (rr_type # types) hash =
     (let code = rt_to_u16 rr_type;
          window = ucast (drop_bit 8 code) :: u8;
          low = ucast (code AND 0x00FF) :: u8;
          bit_map = (case map_of hash window of Some bm \<Rightarrow> bm | None \<Rightarrow> []);
          index = unat (low div 8);
          bit = drop_bit (unat (low mod 8)) (0x80 :: u8) in
      if index + 1 < length bit_map then Panic
      else
        let bit_map' = bit_map @ replicate (index + 1 - length bit_map) 0 in
        encode_types types (AList.update window (bit_map'[index := bit_map' ! index OR bit]) hash))"

definition encode_bit_maps :: "record_type list \<Rightarrow> enc" where
  "encode_bit_maps type_bit_maps e =
     (case (encode_types type_bit_maps [] :: ((u8 \<times> bytes) list, encode_error) outcome) of
        Ok hash \<Rightarrow>
          enc_seq (map (\<lambda>(window, bitmap).
            enc_seq (emit window # emit (of_nat (length bitmap)) # map emit bitmap)) hash) e
      | _ \<Rightarrow> (Panic, e))"

record nsec =
  next_domain_name :: name
  nsec_types :: "record_type list"

text \<open>The octets left of the announced length after some were read, with the checked subtraction.\<close>

definition octets_left :: "u16 \<Rightarrow> nat \<Rightarrow> nat dec" where
  "octets_left rdata_length start_idx =
     try_dec dec_index (\<lambda>index.
     if unat rdata_length < index - start_idx then dec_panic
     else dec_return (unat rdata_length - (index - start_idx)))"

definition nsec_read :: "u16 \<Rightarrow> nsec dec" where
  "nsec_read rdata_length =
     try_dec dec_index (\<lambda>start_idx.
     try_dec name_read (\<lambda>next_domain.
     try_dec (octets_left rdata_length start_idx) (\<lambda>bit_map_len.
     try_dec (decode_type_bit_maps bit_map_len) (\<lambda>record_types.
     dec_return \<lparr>next_domain_name = next_domain, nsec_types = record_types\<rparr>))))"

definition enc_modify :: "(bin_encoder \<Rightarrow> bin_encoder) \<Rightarrow> enc" where
  "enc_modify f e = (Ok (), f e)"

definition nsec_emit :: "nsec \<Rightarrow> enc" where
  "nsec_emit rdata e =
     enc_seq [enc_modify (set_canonical_names True),
              name_emit (next_domain_name rdata),
              encode_bit_maps (nsec_types rdata),
              enc_modify (set_canonical_names (canonical_names e))] e"

record nsec3 =
  n3_hash_algorithm :: nsec3_hash_algorithm
  n3_opt_out :: bool
  n3_iterations :: u16
  n3_salt :: bytes
  next_hashed_owner_name :: bytes
  n3_types :: "record_type list"

definition nsec3_read :: "u16 \<Rightarrow> nsec3 dec" where
  "nsec3_read rdata_length =
     try_dec dec_index (\<lambda>start_idx.
     try_dec (try_dec read_u8 (\<lambda>v. dec_lift (nsec3_hash_from_u8 v))) (\<lambda>hash_algorithm.
     try_dec read_u8 (\<lambda>flags.
     if flags AND 0xFE \<noteq> 0 then dec_fail (UnrecognizedNsec3Flags flags)
     else
     try_dec read_u16 (\<lambda>iterations.
     try_dec read_u8 (\<lambda>salt_len.
     try_dec (read_vec (unat salt_len)) (\<lambda>salt.
     try_dec read_u8 (\<lambda>hash_len.
     try_dec (read_vec (unat hash_len)) (\<lambda>hashed.
     try_dec (octets_left rdata_length start_idx) (\<lambda>bit_map_len.
     try_dec (decode_type_bit_maps bit_map_len) (\<lambda>record_types.
     dec_return \<lparr>n3_hash_algorithm = hash_algorithm, n3_opt_out = (flags AND 1 = 1),
       n3_iterations = iterations, n3_salt = salt, next_hashed_owner_name = hashed,
       n3_types = record_types\<rparr>))))))))))"

definition nsec3_emit :: "nsec3 \<Rightarrow> enc" where
  "nsec3_emit rdata =
     enc_seq [emit (nsec3_hash_to_u8 (n3_hash_algorithm rdata)),
              emit (if n3_opt_out rdata then 1 else 0),
              emit_u16 (n3_iterations rdata),
              emit (of_nat (length (n3_salt rdata))),
              emit_vec (n3_salt rdata),
              emit (of_nat (length (next_hashed_owner_name rdata))),
              emit_vec (next_hashed_owner_name rdata),
              encode_bit_maps (n3_types rdata)]"

record nsec3param =
  n3p_hash_algorithm :: nsec3_hash_algorithm
  n3p_opt_out :: bool
  n3p_iterations :: u16
  n3p_salt :: bytes

definition nsec3param_read :: "nsec3param dec" where
  "nsec3param_read =
     try_dec (try_dec read_u8 (\<lambda>v. dec_lift (nsec3_hash_from_u8 v))) (\<lambda>hash_algorithm.
     try_dec read_u8 (\<lambda>flags.
     if flags AND 0xFE \<noteq> 0 then dec_fail (UnrecognizedNsec3Flags flags)
     else
     try_dec read_u16 (\<lambda>iterations.
     try_dec read_u8 (\<lambda>salt_len.
     try_dec (read_vec (unat salt_len)) (\<lambda>salt.
     dec_return \<lparr>n3p_hash_algorithm = hash_algorithm, n3p_opt_out = (flags AND 1 = 1),
       n3p_iterations = iterations, n3p_salt = salt\<rparr>)))))"

definition nsec3param_emit :: "nsec3param \<Rightarrow> enc" where
  "nsec3param_emit rdata =
     enc_seq [emit (nsec3_hash_to_u8 (n3p_hash_algorithm rdata)),
              emit (if n3p_opt_out rdata then 1 else 0),
              emit_u16 (n3p_iterations rdata),
              emit (of_nat (length (n3p_salt rdata))),
              emit_vec (n3p_salt rdata)]"

section \<open>Keys, delegation signers and signatures\<close>

record ds =
  ds_key_tag :: u16
  ds_algorithm :: algorithm
  ds_digest_type :: digest_type
  ds_digest :: bytes

definition ds_read :: "u16 \<Rightarrow> ds dec" where
  "ds_read rdata_length =
     try_dec dec_index (\<lambda>start_idx.
     try_dec read_u16 (\<lambda>key_tag.
     try_dec alg_read (\<lambda>alg.
     try_dec (try_dec read_u8 (\<lambda>v. dec_lift (digest_from_u8 v))) (\<lambda>digest_type.
     try_dec (octets_left rdata_length start_idx) (\<lambda>left.
     try_dec (read_vec left) (\<lambda>digest.
     dec_return \<lparr>ds_key_tag = key_tag, ds_algorithm = alg, ds_digest_type = digest_type,
       ds_digest = digest\<rparr>))))))"

definition ds_emit :: "ds \<Rightarrow> enc" where
  "ds_emit rdata =
     enc_seq [emit_u16 (ds_key_tag rdata), alg_emit (ds_algorithm rdata),
              emit (digest_to_u8 (ds_digest_type rdata)), emit_vec (ds_digest rdata)]"

record dnskey =
  zone_key :: bool
  secure_entry_point :: bool
  revoke :: bool
  dk_algorithm :: algorithm
  public_key :: bytes

definition dnskey_read :: "u16 \<Rightarrow> dnskey dec" where
  "dnskey_read rdata_length =
     try_dec read_u16 (\<lambda>flags.
     try_dec read_u8 (\<lambda>protocol.
     if protocol \<noteq> 3 then dec_fail (DnsKeyProtocolNot3 protocol)
     else
     try_dec alg_read (\<lambda>alg.
     if rdata_length < 4 then dec_panic
     else
     try_dec (read_vec (unat (rdata_length - 4))) (\<lambda>key.
     dec_return \<lparr>zone_key = (flags AND 0x0100 = 0x0100), secure_entry_point = (flags AND 1 = 1),
       revoke = (flags AND 0x0080 = 0x0080), dk_algorithm = alg, public_key = key\<rparr>))))"

definition dnskey_flags :: "dnskey \<Rightarrow> u16" where
  "dnskey_flags rdata =
     (if zone_key rdata then 0x0100 else 0) OR
     (if secure_entry_point rdata then 1 else 0) OR
     (if revoke rdata then 0x0080 else 0)"

definition dnskey_emit :: "dnskey \<Rightarrow> enc" where
  "dnskey_emit rdata =
     enc_seq [emit_u16 (dnskey_flags rdata), emit 3, alg_emit (dk_algorithm rdata),
              emit_vec (public_key rdata)]"

record sig =
  type_covered :: record_type
  sig_algorithm :: algorithm
  sig_num_labels :: u8
  original_ttl :: u32
  sig_expiration :: u32
  sig_inception :: u32
  sig_key_tag :: u16
  signer_name :: name
  sig_bytes :: bytes

definition sig_read :: "u16 \<Rightarrow> sig dec" where
  "sig_read rdata_length =
     try_dec dec_index (\<lambda>start_idx.
     try_dec rt_read (\<lambda>covered.
     try_dec alg_read (\<lambda>alg.
     try_dec read_u8 (\<lambda>num.
     try_dec read_u32 (\<lambda>ttl.
     try_dec read_u32 (\<lambda>expiration.
     try_dec read_u32 (\<lambda>inception.
     try_dec read_u16 (\<lambda>key_tag.
     try_dec name_read (\<lambda>signer.
     try_dec (octets_left rdata_length start_idx) (\<lambda>left.
     try_dec (read_vec left) (\<lambda>sig.
     dec_return \<lparr>type_covered = covered, sig_algorithm = alg, sig_num_labels = num, original_ttl = ttl,
       sig_expiration = expiration, sig_inception = inception, sig_key_tag = key_tag,
       signer_name = signer, sig_bytes = sig\<rparr>)))))))))))"

definition sig_emit :: "sig \<Rightarrow> enc" where
  "sig_emit sig e =
     enc_seq [rt_emit (type_covered sig), alg_emit (sig_algorithm sig), emit (sig_num_labels sig),
              emit_u32 (original_ttl sig), emit_u32 (sig_expiration sig), emit_u32 (sig_inception sig),
              emit_u16 (sig_key_tag sig),
              emit_with_lowercase (signer_name sig) (canonical_names e),
              emit_vec (sig_bytes sig)] e"

definition emit_pre_sig ::
    "record_type \<Rightarrow> algorithm \<Rightarrow> u8 \<Rightarrow> u32 \<Rightarrow> u32 \<Rightarrow> u32 \<Rightarrow> u16 \<Rightarrow> name \<Rightarrow> enc" where
  "emit_pre_sig covered alg num ttl expiration inception key_tag signer =
     enc_seq [rt_emit covered, alg_emit alg, emit num, emit_u32 ttl, emit_u32 expiration,
              emit_u32 inception, emit_u16 key_tag, emit_as_canonical signer True]"

section \<open>EDNS options\<close>

datatype edns_code =
    EC_Zero | EC_LLQ | EC_UL | EC_NSID | EC_DAU | EC_DHU | EC_N3U | EC_Subnet | EC_Expire
  | EC_Cookie | EC_Keepalive | EC_Padding | EC_Chain | EC_Unknown u16

definition edns_code_from_u16 :: "u16 \<Rightarrow> edns_code" where
  "edns_code_from_u16 value =
    (if value = 0 then EC_Zero else if value = 1 then EC_LLQ else if value = 2 then EC_UL
     else if value = 3 then EC_NSID else if value = 5 then EC_DAU else if value = 6 then EC_DHU
     else if value = 7 then EC_N3U else if value = 8 then EC_Subnet else if value = 9 then EC_Expire
     else if value = 10 then EC_Cookie else if value = 11 then EC_Keepalive
     else if value = 12 then EC_Padding else if value = 13 then EC_Chain
     else EC_Unknown value)"

fun edns_code_to_u16 :: "edns_code \<Rightarrow> u16" where
  "edns_code_to_u16 EC_Zero = 0"
| "edns_code_to_u16 EC_LLQ = 1"
| "edns_code_to_u16 EC_UL = 2"
| "edns_code_to_u16 EC_NSID = 3"
| "edns_code_to_u16 EC_DAU = 5"
| "edns_code_to_u16 EC_DHU = 6"
| "edns_code_to_u16 EC_N3U = 7"
| "edns_code_to_u16 EC_Subnet = 8"
| "edns_code_to_u16 EC_Expire = 9"
| "edns_code_to_u16 EC_Cookie = 10"
| "edns_code_to_u16 EC_Keepalive = 11"
| "edns_code_to_u16 EC_Padding = 12"
| "edns_code_to_u16 EC_Chain = 13"
| "edns_code_to_u16 (EC_Unknown value) = value"

datatype edns_option =
    EO_DAU supported_algorithms
  | EO_DHU supported_algorithms
  | EO_N3U supported_algorithms
  | EO_Unknown u16 bytes

fun edns_option_len :: "edns_option \<Rightarrow> u16" where
  "edns_option_len (EO_DAU algorithms) = sa_len algorithms"
| "edns_option_len (EO_DHU algorithms) = sa_len algorithms"
| "edns_option_len (EO_N3U algorithms) = sa_len algorithms"
| "edns_option_len (EO_Unknown _ data) = of_nat (length data)"

fun edns_option_from :: "edns_code \<Rightarrow> bytes \<Rightarrow> edns_option" where
  "edns_option_from EC_DAU data = EO_DAU (sa_from_bytes data)"
| "edns_option_from EC_DHU data = EO_DHU (sa_from_bytes data)"
| "edns_option_from EC_N3U data = EO_N3U (sa_from_bytes data)"
| "edns_option_from code data = EO_Unknown (edns_code_to_u16 code) data"

fun edns_option_bytes :: "edns_option \<Rightarrow> bytes" where
  "edns_option_bytes (EO_DAU algorithms) = sa_to_bytes algorithms"
| "edns_option_bytes (EO_DHU algorithms) = sa_to_bytes algorithms"
| "edns_option_bytes (EO_N3U algorithms) = sa_to_bytes algorithms"
| "edns_option_bytes (EO_Unknown _ data) = data"

fun edns_option_code :: "edns_option \<Rightarrow> edns_code" where
  "edns_option_code (EO_DAU _) = EC_DAU"
| "edns_option_code (EO_DHU _) = EC_DHU"
| "edns_option_code (EO_N3U _) = EC_N3U"
| "edns_option_code (EO_Unknown code _) = EC_Unknown code"

record opt =
  opt_options :: "(edns_code \<times> edns_option) list"

definition opt_get :: "opt \<Rightarrow> edns_code \<Rightarrow> edns_option option" where
  "opt_get opt code = map_of (opt_options opt) code"

definition opt_insert :: "edns_option \<Rightarrow> opt \<Rightarrow> opt" where
  "opt_insert option opt =
     opt\<lparr>opt_options := AList.update (edns_option_code option) option (opt_options opt)\<rparr>"

datatype opt_read_state = OR_ReadCode | OR_Code edns_code | OR_Data edns_code nat bytes

lemma read_u16_index:
  "read_u16 d = Ok (w, d') \<Longrightarrow>
     d_buffer d' = d_buffer d \<and> d_index d < length (d_buffer d) \<and> d_index d < d_index d'"
  by (auto simp: read_u16_def try_dec_Ok_iff pop_Ok_iff)

function opt_loop ::
    "nat \<Rightarrow> u16 \<Rightarrow> opt_read_state \<Rightarrow> (edns_code \<times> edns_option) list \<Rightarrow> opt dec" where
  "opt_loop start_idx rdata_length state options d =
     (if unat rdata_length > d_index d - start_idx then
        (case state of
           OR_ReadCode \<Rightarrow>
             bind_outcome (read_u16 d) (\<lambda>(code, d').
             opt_loop start_idx rdata_length (OR_Code (edns_code_from_u16 code)) options d')
         | OR_Code code \<Rightarrow>
             bind_outcome (read_u16 d) (\<lambda>(length, d').
             opt_loop start_idx rdata_length (OR_Data code (unat length) []) options d')
         | OR_Data code len collected \<Rightarrow>
             bind_outcome (pop d) (\<lambda>(b, d').
             let collected' = collected @ [b] in
             if len = length collected' then
               opt_loop start_idx rdata_length OR_ReadCode
                 (AList.update code (edns_option_from code collected') options) d'
             else opt_loop start_idx rdata_length (OR_Data code len collected') options d'))
      else if state \<noteq> OR_ReadCode then Ok (\<lparr>opt_options = []\<rparr>, d)
      else Ok (\<lparr>opt_options = options\<rparr>, d))"
  by auto
termination
  by (relation "measure (\<lambda>(_, _, _, _, d). length (d_buffer d) - d_index d)")
    (auto dest!: read_u16_index simp: pop_Ok_iff)

declare opt_loop.simps [simp del]

definition opt_read :: "u16 \<Rightarrow> opt dec" where
  "opt_read rdata_length =
     try_dec dec_index (\<lambda>start_idx.
     opt_loop start_idx rdata_length OR_ReadCode [])"

definition opt_emit :: "opt \<Rightarrow> enc" where
  "opt_emit opt =
     enc_seq (map (\<lambda>(code, option).
       enc_seq [emit_u16 (edns_code_to_u16 code), emit_u16 (edns_option_len option),
                emit_vec (edns_option_bytes option)]) (opt_options opt))"

section \<open>RData\<close>

datatype rdata =
    RD_A ipv4_addr
  | RD_AAAA ipv6_addr
  | RD_CNAME name
  | RD_DNSKEY dnskey
  | RD_DS ds
  | RD_KEY dnskey
  | RD_MX mx
  | RD_NULL null_rdata
  | RD_NS name
  | RD_NSEC nsec
  | RD_NSEC3 nsec3
  | RD_NSEC3PARAM nsec3param
  | RD_OPT opt
  | RD_PTR name
  | RD_SIG sig
  | RD_SOA soa
  | RD_SRV srv
  | RD_TXT txt_rdata

definition dec_map :: "('a \<Rightarrow> 'b) \<Rightarrow> 'a dec \<Rightarrow> 'b dec" where
  "dec_map f r = try_dec r (\<lambda>x. dec_return (f x))"

fun rdata_read_body :: "record_type \<Rightarrow> u16 \<Rightarrow> rdata dec" where
  "rdata_read_body RT_A rdata_length = dec_map RD_A a_read"
| "rdata_read_body RT_AAAA rdata_length = dec_map RD_AAAA aaaa_read"
| "rdata_read_body RT_ANY rdata_length = dec_fail (UnknownRecordTypeValue (rt_to_u16 RT_ANY))"
| "rdata_read_body RT_AXFR rdata_length = dec_fail (UnknownRecordTypeValue (rt_to_u16 RT_AXFR))"
| "rdata_read_body RT_CNAME rdata_length = dec_map RD_CNAME name_rdata_read"
| "rdata_read_body RT_KEY rdata_length = dec_map RD_KEY (dnskey_read rdata_length)"
| "rdata_read_body RT_DNSKEY rdata_length = dec_map RD_DNSKEY (dnskey_read rdata_length)"
| "rdata_read_body RT_DS rdata_length = dec_map RD_DS (ds_read rdata_length)"
| "rdata_read_body RT_IXFR rdata_length = dec_fail (UnknownRecordTypeValue (rt_to_u16 RT_IXFR))"
| "rdata_read_body RT_MX rdata_length = dec_map RD_MX mx_read"
| "rdata_read_body RT_NULL rdata_length = dec_map RD_NULL (null_read rdata_length)"
| "rdata_read_body RT_NS rdata_length = dec_map RD_NS name_rdata_read"
| "rdata_read_body RT_NSEC rdata_length = dec_map RD_NSEC (nsec_read rdata_length)"
| "rdata_read_body RT_NSEC3 rdata_length = dec_map RD_NSEC3 (nsec3_read rdata_length)"
| "rdata_read_body RT_NSEC3PARAM rdata_length = dec_map RD_NSEC3PARAM nsec3param_read"
| "rdata_read_body RT_OPT rdata_length = dec_map RD_OPT (opt_read rdata_length)"
| "rdata_read_body RT_PTR rdata_length = dec_map RD_PTR name_rdata_read"
| "rdata_read_body RT_RRSIG rdata_length = dec_map RD_SIG (sig_read rdata_length)"
| "rdata_read_body RT_SIG rdata_length = dec_map RD_SIG (sig_read rdata_length)"
| "rdata_read_body RT_SOA rdata_length = dec_map RD_SOA soa_read"
| "rdata_read_body RT_SRV rdata_length = dec_map RD_SRV srv_read"
| "rdata_read_body RT_TXT rdata_length = dec_map RD_TXT (txt_read rdata_length)"

text \<open>The data must take exactly the announced number of octets.\<close>

definition rdata_read :: "record_type \<Rightarrow> u16 \<Rightarrow> rdata dec" where
  "rdata_read record_type rdata_length =
     try_dec dec_index (\<lambda>start_idx.
     try_dec (rdata_read_body record_type rdata_length) (\<lambda>result.
     try_dec dec_index (\<lambda>index.
     let read = index - start_idx in
     if read \<noteq> unat rdata_length then dec_fail (IncorrectRDataLengthRead read (unat rdata_length))
     else dec_return result)))"

fun rdata_emit :: "rdata \<Rightarrow> enc" where
  "rdata_emit (RD_A address) = a_emit address"
| "rdata_emit (RD_AAAA address) = aaaa_emit address"
| "rdata_emit (RD_CNAME name) = name_rdata_emit name"
| "rdata_emit (RD_DS ds) = ds_emit ds"
| "rdata_emit (RD_KEY key) = dnskey_emit key"
| "rdata_emit (RD_DNSKEY dnskey) = dnskey_emit dnskey"
| "rdata_emit (RD_MX mx) = mx_emit mx"
| "rdata_emit (RD_NULL null) = null_emit null"
| "rdata_emit (RD_NS name) = name_rdata_emit name"
| "rdata_emit (RD_NSEC nsec) = nsec_emit nsec"
| "rdata_emit (RD_NSEC3 nsec3) = nsec3_emit nsec3"
| "rdata_emit (RD_NSEC3PARAM nsec3param) = nsec3param_emit nsec3param"
| "rdata_emit (RD_OPT opt) = opt_emit opt"
| "rdata_emit (RD_PTR name) = name_rdata_emit name"
| "rdata_emit (RD_SIG sig) = sig_emit sig"
| "rdata_emit (RD_SOA soa) = soa_emit soa"
| "rdata_emit (RD_SRV srv) = srv_emit srv"
| "rdata_emit (RD_TXT txt) = txt_emit txt"

fun to_record_type :: "rdata \<Rightarrow> record_type" where
  "to_record_type (RD_A _) = RT_A"
| "to_record_type (RD_AAAA _) = RT_AAAA"
| "to_record_type (RD_CNAME _) = RT_CNAME"
| "to_record_type (RD_DS _) = RT_DS"
| "to_record_type (RD_KEY _) = RT_KEY"
| "to_record_type (RD_DNSKEY _) = RT_DNSKEY"
| "to_record_type (RD_MX _) = RT_MX"
| "to_record_type (RD_NS _) = RT_NS"
| "to_record_type (RD_NSEC _) = RT_NSEC"
| "to_record_type (RD_NSEC3 _) = RT_NSEC3"
| "to_record_type (RD_NSEC3PARAM _) = RT_NSEC3PARAM"
| "to_record_type (RD_NULL _) = RT_NULL"
| "to_record_type (RD_OPT _) = RT_OPT"
| "to_record_type (RD_PTR _) = RT_PTR"
| "to_record_type (RD_SIG _) = RT_SIG"
| "to_record_type (RD_SOA _) = RT_SOA"
| "to_record_type (RD_SRV _) = RT_SRV"
| "to_record_type (RD_TXT _) = RT_TXT"

text \<open>The bytes the order compares: what was written before an error is kept.\<close>

definition to_bytes :: "rdata \<Rightarrow> (bytes, 'e) outcome" where
  "to_bytes rdata =
     (case rdata_emit rdata (new_encoder []) of
        (Ok _, e) \<Rightarrow> Ok (e_buffer e)
      | (Err _, e) \<Rightarrow> Ok (e_buffer e)
      | (Panic, _) \<Rightarrow> Panic
      | (Overrun, _) \<Rightarrow> Overrun)"

definition rdata_cmp :: "rdata \<Rightarrow> rdata \<Rightarrow> (ordering, 'e) outcome" where
  "rdata_cmp self other =
     bind_outcome (to_bytes self) (\<lambda>a.
     bind_outcome (to_bytes other) (\<lambda>b.
     Ok (cmp_bytes a b)))"

text \<open>
  The derived equality compares names up to case, lists in order, and the option maps as maps.
\<close>

definition rdata_eq :: "rdata \<Rightarrow> rdata \<Rightarrow> bool" where
  "rdata_eq a b =
     (case a of
        RD_CNAME x \<Rightarrow>
          (case b of RD_CNAME y \<Rightarrow> name_eq x y | _ \<Rightarrow> False)
      | RD_MX x \<Rightarrow>
          (case b of RD_MX y \<Rightarrow> mx_preference x = mx_preference y \<and> name_eq (mx_exchange x) (mx_exchange y) | _ \<Rightarrow> False)
      | RD_NS x \<Rightarrow>
          (case b of RD_NS y \<Rightarrow> name_eq x y | _ \<Rightarrow> False)
      | RD_NSEC x \<Rightarrow>
          (case b of RD_NSEC y \<Rightarrow> name_eq (next_domain_name x) (next_domain_name y) \<and> nsec_types x = nsec_types y | _ \<Rightarrow> False)
      | RD_OPT x \<Rightarrow>
          (case b of RD_OPT y \<Rightarrow> hm_eq (opt_options x) (opt_options y) | _ \<Rightarrow> False)
      | RD_PTR x \<Rightarrow>
          (case b of RD_PTR y \<Rightarrow> name_eq x y | _ \<Rightarrow> False)
      | RD_SIG x \<Rightarrow>
          (case b of RD_SIG y \<Rightarrow> x\<lparr>signer_name := name_root\<rparr> = y\<lparr>signer_name := name_root\<rparr> \<and>
           name_eq (signer_name x) (signer_name y) | _ \<Rightarrow> False)
      | RD_SOA x \<Rightarrow>
          (case b of RD_SOA y \<Rightarrow> x\<lparr>mname := name_root, rname := name_root\<rparr> = y\<lparr>mname := name_root, rname := name_root\<rparr> \<and>
           name_eq (mname x) (mname y) \<and> name_eq (rname x) (rname y) | _ \<Rightarrow> False)
      | RD_SRV x \<Rightarrow>
          (case b of RD_SRV y \<Rightarrow> x\<lparr>srv_target := name_root\<rparr> = y\<lparr>srv_target := name_root\<rparr> \<and>
           name_eq (srv_target x) (srv_target y) | _ \<Rightarrow> False)
      | _ \<Rightarrow> a = b)"

end
