(* ===== verification/Rdata_Codec.thy ===== *)
theory Rdata_Codec
  imports Rdata
begin

text \<open>
  The data of every record type survives encoding: for data that the wire format can hold
  (\<open>wf_rdata\<close>), \<open>RData::read\<close>, told the number of octets that \<open>RData::emit\<close> wrote, gives the
  data back. Type bit maps and EDNS options have their own sections.
\<close>

section \<open>Rules\<close>

lemma writes_to_enc_cong:
  "(\<And>e. canonical_names e = c \<Longrightarrow> m e = m' e) \<Longrightarrow> writes_to c lim k m' r x \<Longrightarrow> writes_to c lim k m r x"
  unfolding writes_to_def by metis

lemma writes_enc_cong:
  "(\<And>e. canonical_names e = c \<Longrightarrow> m e = m' e) \<Longrightarrow> writes c m' r x \<Longrightarrow> writes c m r x"
  unfolding writes_def using writes_to_enc_cong by metis

lemma writes_sized_enc_cong:
  "(\<And>e. canonical_names e = c \<Longrightarrow> m e = m' e) \<Longrightarrow> writes_sized c m' r x \<Longrightarrow> writes_sized c m r x"
  unfolding writes_sized_def using writes_to_enc_cong by metis

lemma emit_with_lowercase_False: "emit_with_lowercase n False = name_emit n"
  by (rule ext) (simp add: emit_with_lowercase_def name_emit_def)

lemma writes_to_octets_left:
  assumes "writes_to c (k + 65535) k' m (\<lambda>j. f (j - k') j) x" "k \<le> k'"
  shows "writes_to c (k + 65535) k' m (\<lambda>j. try_dec (octets_left (of_nat (j - k)) k) (\<lambda>n. f n j)) x"
  using assms(1)
proof (rule writes_to_reader)
  fix buf j
  assume j: "k' \<le> j" "j \<le> k + 65535" and r: "f (j - k') j (dec_at buf k') = Ok (x, dec_at buf j)"
  have "unat (of_nat (j - k) :: u16) = j - k" using j(2) by simp
  moreover have "\<not> j - k < k' - k" "j - k - (k' - k) = j - k'" using j assms(2) by simp_all
  ultimately show "try_dec (octets_left (of_nat (j - k)) k) (\<lambda>n. f n j) (dec_at buf k') = Ok (x, dec_at buf j)"
    using r by (simp add: octets_left_def try_dec_def dec_index_def dec_return_def del: of_nat_diff)
qed

lemma writes_to_last_vec:
  "writes_to c lim k (enc_seq [emit_vec bs]) (\<lambda>j. try_dec (read_vec (j - k)) (\<lambda>v. dec_return (g v))) (g bs)"
  unfolding writes_to_single by (rule writes_to_map, rule writes_to_emit_vec)

lemma writes_read_vec_len:
  "length bs < 256 \<Longrightarrow> writes c (emit_vec bs) (read_vec (unat (of_nat (length bs) :: u8))) bs"
  using writes_emit_vec [of c bs] by simp

lemma writes_hash [codec]: "writes c (emit (nsec3_hash_to_u8 h)) (try_dec read_u8 (\<lambda>v. dec_lift (nsec3_hash_from_u8 v))) h"
  by (rule writes_lift, rule codec, simp)

lemma writes_digest [codec]:
  "t \<noteq> DT_SHA512 \<Longrightarrow> writes c (emit (digest_to_u8 t)) (try_dec read_u8 (\<lambda>v. dec_lift (digest_from_u8 v))) t"
  by (rule writes_lift, rule codec, simp)

section \<open>Data of fixed shape\<close>

lemma writes_a: "writes c (a_emit x) a_read x"
  by (cases x) (simp only: a_emit.simps a_read_def, (rule codec)+)

lemma writes_aaaa: "writes c (aaaa_emit x) aaaa_read x"
  by (cases x) (simp only: aaaa_emit.simps aaaa_read_def, (rule codec)+)

lemma writes_name_rdata: "wf_name n \<Longrightarrow> writes False (name_rdata_emit n) name_rdata_read n"
  unfolding name_rdata_read_def
  by (rule writes_enc_cong [where m' = "enc_seq [name_emit n]"])
    (simp_all add: name_rdata_emit_def emit_with_lowercase_False writes_single writes_name
      del: enc_seq.simps)

lemma writes_mx:
  assumes "wf_name (mx_exchange x)"
  shows "writes False (mx_emit x) mx_read x"
proof (rule writes_enc_cong)
  show "mx_emit x e = enc_seq [emit_u16 (mx_preference x), name_emit (mx_exchange x)] e"
    if "canonical_names e = False" for e
    using that by (simp add: mx_emit_def emit_with_lowercase_False del: enc_seq.simps)
  have "writes False (enc_seq [emit_u16 (mx_preference x), name_emit (mx_exchange x)]) mx_read
      \<lparr>mx_preference = mx_preference x, mx_exchange = mx_exchange x\<rparr>"
    unfolding mx_read_def by (rule codec assms)+
  then show "writes False (enc_seq [emit_u16 (mx_preference x), name_emit (mx_exchange x)]) mx_read x" by (cases x) simp
qed

lemma writes_srv:
  assumes "wf_name (srv_target x)"
  shows "writes False (srv_emit x) srv_read x"
proof (rule writes_enc_cong)
  let ?m = "enc_seq [emit_u16 (srv_priority x), emit_u16 (srv_weight x), emit_u16 (srv_port x), name_emit (srv_target x)]"
  show "srv_emit x e = ?m e" if "canonical_names e = False" for e
    using that by (simp add: srv_emit_def emit_with_lowercase_False del: enc_seq.simps)
  have "writes False ?m srv_read \<lparr>srv_priority = srv_priority x, srv_weight = srv_weight x,
      srv_port = srv_port x, srv_target = srv_target x\<rparr>"
    unfolding srv_read_def by (rule codec assms)+
  then show "writes False ?m srv_read x" by (cases x) simp
qed

lemma writes_soa:
  assumes "wf_name (mname x)" "wf_name (rname x)"
  shows "writes False (soa_emit x) soa_read x"
proof (rule writes_enc_cong)
  let ?m = "enc_seq [name_emit (mname x), name_emit (rname x), emit_u32 (serial x), emit_i32 (refresh x),
    emit_i32 (retry x), emit_i32 (expire x), emit_u32 (minimum x)]"
  show "soa_emit x e = ?m e" if "canonical_names e = False" for e
    using that by (simp add: soa_emit_def emit_with_lowercase_False del: enc_seq.simps)
  have "writes False ?m soa_read \<lparr>mname = mname x, rname = rname x, serial = serial x, refresh = refresh x,
      retry = retry x, expire = expire x, minimum = minimum x\<rparr>"
    unfolding soa_read_def by (rule codec assms)+
  then show "writes False ?m soa_read x" by (cases x) simp
qed

lemma writes_nsec3param:
  assumes "length (n3p_salt x) < 256"
  shows "writes c (nsec3param_emit x) nsec3param_read x"
proof -
  have flags: "(if b then 1 else 0 :: u8) AND 0xFE = 0" "((if b then 1 else 0 :: u8) AND 1 = 1) = b" for b
    by simp_all
  have "writes c (nsec3param_emit x) nsec3param_read \<lparr>n3p_hash_algorithm = n3p_hash_algorithm x,
      n3p_opt_out = n3p_opt_out x, n3p_iterations = n3p_iterations x, n3p_salt = n3p_salt x\<rparr>"
    unfolding nsec3param_emit_def nsec3param_read_def
    by (rule writes_read_vec_len codec assms | simp only: flags simp_thms if_False)+
  then show ?thesis by (cases x) simp
qed

lemma writes_ds:
  assumes "ds_digest_type x \<noteq> DT_SHA512"
  shows "writes_sized c (ds_emit x) ds_read x"
proof -
  have "writes_to c (k + 65535) k (ds_emit x) (\<lambda>j. ds_read (of_nat (j - k)))
      \<lparr>ds_key_tag = ds_key_tag x, ds_algorithm = ds_algorithm x, ds_digest_type = ds_digest_type x,
       ds_digest = ds_digest x\<rparr>" for k
    unfolding ds_emit_def ds_read_def
    apply (rule writes_to_index)
    apply (rule writes_to_Cons, rule codec)+
     apply (rule assms)
    apply (rule writes_to_octets_left)
     apply (rule writes_to_last_vec)
    apply simp
    done
  then show ?thesis by (cases x) (simp add: writes_sized_def)
qed

lemma dnskey_flags_bits:
  "(dnskey_flags x AND 0x0100 = 0x0100) = zone_key x" "(dnskey_flags x AND 1 = 1) = secure_entry_point x"
  "(dnskey_flags x AND 0x0080 = 0x0080) = revoke x"
  by (cases "zone_key x"; cases "secure_entry_point x"; cases "revoke x"; simp add: dnskey_flags_def)+

lemma writes_dnskey: "writes_sized c (dnskey_emit x) dnskey_read x"
proof -
  let ?x = "\<lparr>zone_key = zone_key x, secure_entry_point = secure_entry_point x, revoke = revoke x,
    dk_algorithm = dk_algorithm x, public_key = public_key x\<rparr>"
  have key: "writes_to c (k + 65535) (k + 2 + 1 + 1) (enc_seq [emit_vec (public_key x)])
      (\<lambda>j. if of_nat (j - k) < (4 :: u16) then dec_panic
          else try_dec (read_vec (unat (of_nat (j - k) - 4 :: u16))) (\<lambda>key. dec_return (g key))) (g (public_key x))"
    for k and g :: "bytes \<Rightarrow> dnskey"
  proof (rule writes_to_cong [OF writes_to_last_vec [of _ _ _ "public_key x" g]])
    fix j
    assume j: "k + 2 + 1 + 1 \<le> j" "j \<le> k + 65535"
    then have "unat (of_nat (j - k) :: u16) = j - k" by (simp del: of_nat_diff)
    with j have "\<not> of_nat (j - k) < (4 :: u16)" "unat (of_nat (j - k) - 4 :: u16) = j - (k + 2 + 1 + 1)"
      by (simp_all add: word_less_nat_alt unat_sub word_le_nat_alt del: of_nat_diff)
    then show "(if of_nat (j - k) < (4 :: u16) then dec_panic
        else try_dec (read_vec (unat (of_nat (j - k) - 4 :: u16))) (\<lambda>key. dec_return (g key))) =
      try_dec (read_vec (j - (k + 2 + 1 + 1))) (\<lambda>v. dec_return (g v))" by (simp del: of_nat_diff)
  qed
  have "writes_to c (k + 65535) k (dnskey_emit x) (\<lambda>j. dnskey_read (of_nat (j - k))) ?x" for k
    unfolding dnskey_emit_def dnskey_read_def
    apply (rule writes_to_Cons_size, rule codec, rule emits_size_primitive)
    apply (rule writes_to_Cons_size, rule codec, rule emits_size_primitive)
    apply (simp only: simp_thms if_False)
    apply (rule writes_to_Cons_size, rule codec, rule emits_size_primitive)
    using key [of k "\<lambda>key. \<lparr>zone_key = zone_key x, secure_entry_point = secure_entry_point x, revoke = revoke x,
        dk_algorithm = dk_algorithm x, public_key = key\<rparr>"]
    by (simp only: dnskey_flags_bits)
  then show ?thesis by (cases x) (simp add: writes_sized_def)
qed

lemma writes_sig:
  assumes "type_covered x \<noteq> RT_IXFR" "wf_name (signer_name x)"
  shows "writes_sized False (sig_emit x) sig_read x"
proof (rule writes_sized_enc_cong)
  let ?m = "enc_seq [rt_emit (type_covered x), alg_emit (sig_algorithm x), emit (sig_num_labels x),
    emit_u32 (original_ttl x), emit_u32 (sig_expiration x), emit_u32 (sig_inception x),
    emit_u16 (sig_key_tag x), name_emit (signer_name x), emit_vec (sig_bytes x)]"
  show "sig_emit x e = ?m e" if "canonical_names e = False" for e
    using that by (simp add: sig_emit_def emit_with_lowercase_False del: enc_seq.simps)
  have "writes_to False (k + 65535) k ?m (\<lambda>j. sig_read (of_nat (j - k)))
      \<lparr>type_covered = type_covered x, sig_algorithm = sig_algorithm x, sig_num_labels = sig_num_labels x,
       original_ttl = original_ttl x, sig_expiration = sig_expiration x, sig_inception = sig_inception x,
       sig_key_tag = sig_key_tag x, signer_name = signer_name x, sig_bytes = sig_bytes x\<rparr>" for k
    unfolding sig_read_def
    apply (rule writes_to_index)
    apply (rule writes_to_Cons, (rule codec assms)+)+
    apply (rule writes_to_octets_left)
     apply (rule writes_to_last_vec)
    apply simp
    done
  then show "writes_sized False ?m sig_read x" by (cases x) (simp add: writes_sized_def del: enc_seq.simps)
qed

lemma emit_map_vec: "enc_seq (map emit bs) = emit_vec bs"
  by (simp add: emit_vec_def)

lemma writes_null:
  assumes "anything x \<noteq> Some []"
  shows "writes_sized c (null_emit x) null_read x"
proof (cases "anything x")
  case None
  then have "x = \<lparr>anything = None\<rparr>" by (cases x) simp
  then show ?thesis
    by (auto simp: writes_sized_def null_emit_def null_read_def enc_return_def dec_return_def intro!: writes_toI)
next
  case (Some bs)
  then have x: "x = \<lparr>anything = Some bs\<rparr>" by (cases x) simp
  have "writes_to c (k + 65535) k (emit_vec bs) (\<lambda>j. null_read (of_nat (j - k))) x" for k
  proof (rule writes_toI)
    fix pre e e'
    assume a: "enc_inv pre e" "canonical_names e = c" "k = length pre + length (e_buffer e)" "emit_vec bs e = (Ok (), e')"
    from writes_toD [OF writes_to_map [OF writes_to_emit_vec, of _ "k + 65535" _ _ "\<lambda>bs. \<lparr>anything = Some bs\<rparr>"] a]
    obtain bs' where w: "enc_inv pre e'" "e_mode e' = e_mode e" "canonical_names e' = c" "e_buffer e' = e_buffer e @ bs'"
      "\<And>rest. k + length bs' \<le> k + 65535 \<Longrightarrow>
        try_dec (read_vec (k + length bs' - k)) (\<lambda>v. dec_return \<lparr>anything = Some v\<rparr>) (dec_at (pre @ e_buffer e' @ rest) k) =
        Ok (x, dec_at (pre @ e_buffer e' @ rest) (k + length bs'))"
      unfolding x by blast
    have "bs' = bs" using w(4) a(4) by (simp add: emit_vec_Ok_iff)
    moreover have "(of_nat (length bs) :: u16) > 0" if "length bs \<le> 65535"
      using that assms Some by (simp add: word_less_nat_alt)
    ultimately show "enc_inv pre e' \<and> e_mode e' = e_mode e \<and> canonical_names e' = c \<and>
      (\<exists>bs. e_buffer e' = e_buffer e @ bs \<and>
        (k + length bs \<le> k + 65535 \<longrightarrow>
          (\<forall>rest. null_read (of_nat (k + length bs - k)) (dec_at (pre @ e_buffer e' @ rest) k) =
             Ok (x, dec_at (pre @ e_buffer e' @ rest) (k + length bs)))))"
      using w by (auto simp: null_read_def)
  qed
  then show ?thesis using Some by (simp add: writes_sized_def null_emit_def emit_map_vec)
qed

section \<open>Text\<close>

lemma txt_loop_advances:
  "txt_loop dl len acc d = Ok (x, d') \<Longrightarrow>
     d_buffer d' = d_buffer d \<and> d_index d \<le> d_index d' \<and> d_index d' \<le> length (d_buffer d)"
proof (induction dl len acc d rule: txt_loop.induct)
  case (1 dl len acc d)
  from 1(2) have dl: "d_index d \<le> length (d_buffer d)" "\<not> dl < length (d_buffer d) - d_index d"
    by (subst (asm) txt_loop.simps, auto simp: dec_len_Ok_iff split: if_splits)+
  show ?case
  proof (cases "dl - (length (d_buffer d) - d_index d) < unat len")
    case True
    with 1(2) dl obtain s e where s: "read_character_data d = Ok (s, e)" and r: "txt_loop dl len (acc @ [s]) e = Ok (x, d')"
      by (subst (asm) txt_loop.simps) (auto simp: dec_len_def)
    from 1(1) [OF _ refl _ True s refl r, of d] dl read_character_data_index [OF s]
    show ?thesis by (auto simp: dec_len_def)
  next
    case False
    with 1(2) dl show ?thesis
      by (subst (asm) txt_loop.simps) (auto simp: dec_len_def)
  qed
qed

lemma txt_loop_step:
  assumes "read_character_data (dec_at buf k) = Ok (s, dec_at buf k')" "i \<le> k" "k < j" "j \<le> i + 65535"
  shows "txt_loop (length buf - i) (of_nat (j - i)) acc (dec_at buf k) =
         txt_loop (length buf - i) (of_nat (j - i)) (acc @ [s]) (dec_at buf k')"
proof -
  from read_character_data_index [OF assms(1)] have k: "k < length buf" by simp
  have "unat (of_nat (j - i) :: u16) = j - i" using assms(4) by (simp del: of_nat_diff)
  moreover have "length buf - i - (length buf - k) = k - i" "\<not> length buf - i < length buf - k" "k - i < j - i"
    using k assms(2,3) by simp_all
  ultimately show ?thesis
    using k assms(1) by (subst txt_loop.simps) (simp add: dec_len_def del: of_nat_diff)
qed

lemma writes_to_txt_loop:
  assumes "list_all (\<lambda>s. valid_utf8 (bytes_of_str s)) ss" "i \<le> k"
  shows "writes_to c (i + 65535) k (enc_seq (map emit_character_data ss))
     (\<lambda>j d. txt_loop (length (d_buffer d) - i) (of_nat (j - i)) acc d) \<lparr>txt_data = acc @ ss\<rparr>"
  using assms
proof (induction ss arbitrary: k acc)
  case Nil
  show ?case
  proof (rule writes_toI)
    fix pre e e'
    assume a: "enc_inv pre e" "canonical_names e = c" "k = length pre + length (e_buffer e)"
      "enc_seq (map emit_character_data []) e = (Ok (), e')"
    have "txt_loop (length buf - i) (of_nat (k - i)) acc (dec_at buf k) = Ok (\<lparr>txt_data = acc\<rparr>, dec_at buf k)"
      if "k \<le> length buf" "k \<le> i + 65535" for buf
    proof -
      have "unat (of_nat (k - i) :: u16) = k - i" using that by (simp del: of_nat_diff)
      moreover have "length buf - i - (length buf - k) = k - i" "\<not> length buf - i < length buf - k"
        using that Nil.prems(2) by simp_all
      ultimately show ?thesis
        using that(1) by (subst txt_loop.simps) (simp add: dec_len_def del: of_nat_diff)
    qed
    from a this [of "pre @ e_buffer e' @ rest" for rest]
    show "enc_inv pre e' \<and> e_mode e' = e_mode e \<and> canonical_names e' = c \<and>
      (\<exists>bs. e_buffer e' = e_buffer e @ bs \<and>
        (k + length bs \<le> i + 65535 \<longrightarrow>
          (\<forall>rest. txt_loop (length (d_buffer (dec_at (pre @ e_buffer e' @ rest) k)) - i) (of_nat (k + length bs - i)) acc
                (dec_at (pre @ e_buffer e' @ rest) k) =
             Ok (\<lparr>txt_data = acc @ []\<rparr>, dec_at (pre @ e_buffer e' @ rest) (k + length bs)))))"
      by (simp del: of_nat_diff)
  qed
next
  case (Cons s ss)
  let ?f = "\<lambda>s j d. txt_loop (length (d_buffer d) - i) (of_nat (j - i)) (acc @ [s]) d"
  have "writes_to c (i + 65535) k (enc_seq (emit_character_data s # map emit_character_data ss))
      (\<lambda>j. try_dec read_character_data (\<lambda>s. ?f s j)) \<lparr>txt_data = (acc @ [s]) @ ss\<rparr>"
    using Cons.prems by (intro writes_to_Cons [OF writes_character_data] Cons.IH) auto
  then have "writes_to c (i + 65535) k (enc_seq (emit_character_data s # map emit_character_data ss))
     (\<lambda>j d. txt_loop (length (d_buffer d) - i) (of_nat (j - i)) acc d) \<lparr>txt_data = (acc @ [s]) @ ss\<rparr>"
  proof (rule writes_to_reader)
    fix buf j
    assume j: "k \<le> j" "j \<le> i + 65535"
      and r: "try_dec read_character_data (\<lambda>s. ?f s j) (dec_at buf k) = Ok (\<lparr>txt_data = (acc @ [s]) @ ss\<rparr>, dec_at buf j)"
    then obtain s' d where s: "read_character_data (dec_at buf k) = Ok (s', d)"
      and r': "?f s' j d = Ok (\<lparr>txt_data = (acc @ [s]) @ ss\<rparr>, dec_at buf j)"
      by (auto simp: try_dec_Ok_iff)
    from read_character_data_index [OF s] obtain k' where d: "d = dec_at buf k'" "k < k'"
      by (cases d) (auto simp: dec_at_def)
    from txt_loop_advances [OF r'] d have "k < j" by simp
    with txt_loop_step [OF s [unfolded d(1)] Cons.prems(2)] j r' d(1)
    show "txt_loop (length (d_buffer (dec_at buf k)) - i) (of_nat (j - i)) acc (dec_at buf k) =
        Ok (\<lparr>txt_data = (acc @ [s]) @ ss\<rparr>, dec_at buf j)" by (simp del: of_nat_diff)
  qed
  then show ?case by (simp del: enc_seq.simps of_nat_diff)
qed

lemma writes_txt:
  assumes "list_all (\<lambda>s. valid_utf8 (bytes_of_str s)) (txt_data x)"
  shows "writes_sized c (txt_emit x) txt_read x"
proof -
  have "writes_to c (k + 65535) k (txt_emit x) (\<lambda>j. txt_read (of_nat (j - k))) \<lparr>txt_data = [] @ txt_data x\<rparr>" for k
    unfolding txt_emit_def using writes_to_txt_loop [OF assms order_refl]
  proof (rule writes_to_reader)
    fix buf j
    assume "k \<le> j"
      and r: "txt_loop (length (d_buffer (dec_at buf k)) - k) (of_nat (j - k)) [] (dec_at buf k) =
        Ok (\<lparr>txt_data = [] @ txt_data x\<rparr>, dec_at buf j)"
    from txt_loop_advances [OF r] have "k \<le> length buf" by simp
    with r show "txt_read (of_nat (j - k)) (dec_at buf k) = Ok (\<lparr>txt_data = [] @ txt_data x\<rparr>, dec_at buf j)"
      by (simp add: txt_read_def try_dec_def dec_len_def del: of_nat_diff)
  qed
  then show ?thesis by (cases x) (simp add: writes_sized_def del: of_nat_diff)
qed

end
