(* ===== verification/Bit_Maps.thy ===== *)
theory Bit_Maps
  imports Rdata_Codec
begin

text \<open>
  Type bit maps (\<open>encode_bit_maps\<close> and \<open>decode_type_bit_maps\<close> of \<open>rr/rdata/nsec3.rs\<close>): the
  decoder gives back every strictly ascending list of record types that the encoder writes.
  Every record type the code knows has a code below 256, so one window suffices.
\<close>

section \<open>Codes and bits\<close>

definition rt_code :: "record_type \<Rightarrow> nat" where
  "rt_code rt = unat (rt_to_u16 rt)"

definition code_rt :: "nat \<Rightarrow> record_type" where
  "code_rt c = (case rt_from_u16 (of_nat c) of Ok rt \<Rightarrow> rt | _ \<Rightarrow> RT_A)"

lemma rt_code_less: "rt_code rt < 256"
  by (cases rt) (simp_all add: rt_code_def)

lemma rt_code_window:
  "(ucast (drop_bit 8 (rt_to_u16 rt)) :: u8) = 0" "unat (ucast (rt_to_u16 rt AND 0xFF) :: u8) = rt_code rt"
  by (cases rt; simp add: rt_code_def)+

lemma rt_from_rt_code: "rt \<noteq> RT_IXFR \<Longrightarrow> rt_from_u16 (of_nat (rt_code rt)) = Ok rt"
  by (simp add: rt_code_def)

lemma code_rt_code [simp]: "rt \<noteq> RT_IXFR \<Longrightarrow> code_rt (rt_code rt) = rt"
  by (simp add: code_rt_def rt_from_rt_code)

lemma rt_less_code: "a < b \<longleftrightarrow> rt_code a < rt_code b"
  by (simp add: less_record_type_def rt_code_def word_less_nat_alt)

text \<open>Bit \<open>k\<close> of a bit map, counted from the most significant bit of its first octet.\<close>

definition bitset :: "bytes \<Rightarrow> nat \<Rightarrow> bool" where
  "bitset bm k \<longleftrightarrow> k div 8 < length bm \<and> bit (bm ! (k div 8)) (7 - k mod 8)"

lemma bit_0x80_drop: "c < 8 \<Longrightarrow> n < 8 \<Longrightarrow> bit (drop_bit c (0x80 :: u8)) n \<longleftrightarrow> n = 7 - c"
proof -
  have "list_all (\<lambda>c. list_all (\<lambda>n. bit (drop_bit c (0x80 :: u8)) n \<longleftrightarrow> n = 7 - c) [0..<8]) [0..<8]"
    by code_simp
  then show "c < 8 \<Longrightarrow> n < 8 \<Longrightarrow> ?thesis" by (simp add: list_all_iff)
qed

section \<open>Encoding\<close>

definition bm_add :: "bytes \<Rightarrow> nat \<Rightarrow> bytes" where
  "bm_add bm c =
     (let bm' = bm @ replicate (c div 8 + 1 - length bm) 0 in
      bm'[c div 8 := bm' ! (c div 8) OR drop_bit (c mod 8) 0x80])"

lemma length_bm_add: "length bm \<le> c div 8 + 1 \<Longrightarrow> length (bm_add bm c) = c div 8 + 1"
  by (simp add: bm_add_def Let_def)

lemma bitset_bm_add:
  assumes "length bm \<le> c div 8 + 1"
  shows "bitset (bm_add bm c) k \<longleftrightarrow> k = c \<or> bitset bm k"
proof -
  let ?bm = "bm @ replicate (c div 8 + 1 - length bm) (0 :: u8)"
  have len: "length ?bm = c div 8 + 1" using assms by simp
  have old: "bit (?bm ! j) i \<longleftrightarrow> j < length bm \<and> bit (bm ! j) i" if "j < length ?bm" for j i
    using that assms by (auto simp: nth_append)
  show ?thesis
  proof (cases "k div 8 = c div 8")
    case True
    have "k = c \<longleftrightarrow> k mod 8 = c mod 8" using True div_mult_mod_eq [of k 8] div_mult_mod_eq [of c 8] by metis
    moreover have "7 - k mod 8 = 7 - c mod 8 \<longleftrightarrow> k mod 8 = c mod 8"
      using mod_less_divisor [of 8 k] mod_less_divisor [of 8 c] by linarith
    ultimately show ?thesis
      using len old [of "c div 8" "7 - k mod 8"] True bit_0x80_drop [of "c mod 8" "7 - k mod 8"]
      by (auto simp: bitset_def bm_add_def Let_def bit_or_iff simp del: append_replicate_commute)
  next
    case False
    then show ?thesis
      using len old [of "k div 8" "7 - k mod 8"] assms
      by (auto simp: bitset_def bm_add_def Let_def nth_list_update)
  qed
qed

lemma encode_types_step:
  "rt_code t div 8 + 1 \<ge> length bm \<Longrightarrow>
   encode_types (t # ts) [(0, bm)] = encode_types ts [(0, bm_add bm (rt_code t))]"
  "encode_types (t # ts) [] = encode_types ts [(0, bm_add [] (rt_code t))]"
  using rt_code_window [of t]
  by (simp_all add: Let_def bm_add_def unat_div unat_mod del: list_update.simps)

lemma encode_types_sorted:
  assumes "sorted_wrt (<) ts" "\<And>t. t \<in> set ts \<Longrightarrow> length bm \<le> rt_code t div 8 + 1"
  shows "\<exists>bm'. (encode_types ts [(0, bm)] :: (_, 'e) outcome) = Ok [(0, bm')] \<and> length bm \<le> length bm' \<and>
     length bm' \<le> max (length bm) 32 \<and> (\<forall>k. bitset bm' k \<longleftrightarrow> k \<in> rt_code ` set ts \<or> bitset bm k)"
  using assms
proof (induction ts arbitrary: bm)
  case (Cons t ts)
  let ?bm = "bm_add bm (rt_code t)"
  have t: "length bm \<le> rt_code t div 8 + 1" using Cons.prems(2) by simp
  have "length ?bm \<le> rt_code t' div 8 + 1" if "t' \<in> set ts" for t'
  proof -
    have "rt_code t < rt_code t'" using Cons.prems(1) that by (simp add: rt_less_code)
    then have "rt_code t div 8 \<le> rt_code t' div 8" by (simp add: div_le_mono)
    with t show ?thesis by (simp add: length_bm_add)
  qed
  from Cons.IH [OF _ this] Cons.prems(1) obtain bm' where bm': "(encode_types ts [(0, ?bm)] :: (_, 'e) outcome) = Ok [(0, bm')]"
    "length ?bm \<le> length bm'" "length bm' \<le> max (length ?bm) 32"
    "\<forall>k. bitset bm' k \<longleftrightarrow> k \<in> rt_code ` set ts \<or> bitset ?bm k" by auto
  have "rt_code t div 8 + 1 \<le> 32" using rt_code_less [of t] by simp
  with bm' t show ?case
    by (auto simp: encode_types_step(1) length_bm_add bitset_bm_add simp del: encode_types.simps)
qed (simp add: bitset_def)

section \<open>Decoding\<close>

lemma and_0x80: "(x :: u8) AND 0x80 = 0x80 \<longleftrightarrow> bit x 7"
proof
  assume "x AND 0x80 = 0x80"
  then have "bit (x AND 0x80) 7" by simp
  then show "bit x 7" by (simp add: bit_and_iff)
next
  assume x: "bit x 7"
  have "bit (0x80 :: u8) n \<longleftrightarrow> n = 7" if "n < 8" for n
    using bit_0x80_drop [of 0 n] that by simp
  with x show "x AND 0x80 = 0x80" by (intro bit_word_eqI) (auto simp: bit_and_iff)
qed

lemma unat_low_byte:
  assumes "8 * unat (x :: u8) + 7 < 256" "i < 8"
  shows "unat (x * 8 + of_nat i) = 8 * unat x + i"
  using assms by (simp add: unat_word_ariths(1,2) mult.commute)

lemma bit_loop_spec:
  assumes "n \<le> 8" "left \<le> len" "8 * unat (len - left) + 7 < 256"
    and "\<And>i. i < 8 \<Longrightarrow> bit b (7 - i) \<Longrightarrow>
       rt_from_u16 (of_nat (8 * unat (len - left) + i)) = Ok (code_rt (8 * unat (len - left) + i))"
  shows "bit_loop n (of_nat (8 - n)) 0 len left (push_bit (8 - n) b) acc =
    Ok (acc @ map code_rt (filter (\<lambda>c. bit b (7 - c mod 8)) [8 * unat (len - left) + (8 - n)..<8 * unat (len - left) + 8]))"
  using assms(1)
proof (induction n arbitrary: acc)
  case (Suc n)
  define i where "i = 8 - Suc n"
  let ?B = "8 * unat (len - left)"
  have i: "i < 8" "8 - n = Suc i" using Suc.prems by (auto simp: i_def)
  have bit: "push_bit i b AND 0x80 = 0x80 \<longleftrightarrow> bit b (7 - i)"
    using i(1) by (auto simp: and_0x80 bit_simps)
  have upt: "[?B + i..<?B + 8] = (?B + i) # [?B + Suc i..<?B + 8]"
    using i(1) by (simp add: upt_rec)
  have m: "(?B + i) mod 8 = i" using i(1) by simp
  have shift: "push_bit 1 (push_bit i b) = push_bit (Suc i) b" by (simp add: push_bit_push_bit)
  have ui: "unat (of_nat i :: u8) = i" using i(1) by simp
  have "unat ((len - left) * 8 + of_nat i) = ?B + i"
    by (rule unat_low_byte [OF assms(3) i(1)])
  then have "ucast ((len - left) * 8 + of_nat i) = (of_nat (?B + i) :: u16)"
    by (metis of_nat_unat)
  then have low: "push_bit 8 (ucast (0 :: u8)) OR ucast ((len - left) * 8 + of_nat i) = (of_nat (?B + i) :: u16)"
    by simp
  have nolow: "\<not> unat (len - left) * 8 + unat (of_nat i :: u8) > 255" using assms(3) i(1) ui by simp
  have suc: "of_nat i + 1 = (of_nat (Suc i) :: u8)" by simp
  from Suc.prems Suc.IH have IH: "bit_loop n (of_nat (Suc i)) 0 len left (push_bit (Suc i) b) acc' =
      Ok (acc' @ map code_rt (filter (\<lambda>c. bit b (7 - c mod 8)) [?B + Suc i..<?B + 8]))" for acc'
    using i(2) by (simp del: of_nat_Suc)
  have nl: "\<not> len < left" using assms(2) by simp
  show ?case
  proof (cases "bit b (7 - i)")
    case True
    note rt = assms(4) [OF i(1) True]
    show ?thesis
      unfolding i_def [symmetric] upt
      by (simp only: bit_loop.simps bit True suc shift Let_def low nl nolow if_True if_False rt bind_outcome.simps
          IH filter.simps m list.map append.assoc append_Cons append_Nil)
  next
    case False
    show ?thesis
      unfolding i_def [symmetric] upt
      by (simp only: bit_loop.simps bit False suc shift if_False bind_outcome.simps IH filter.simps m)
  qed
qed simp

text \<open>The octets of a bit map run through the state machine.\<close>

fun bm_run :: "bit_map_state \<Rightarrow> bytes \<Rightarrow> record_type list \<Rightarrow> (bit_map_state \<times> record_type list, decode_error) outcome" where
  "bm_run st [] acc = Ok (st, acc)"
| "bm_run st (b # bs) acc = bind_outcome (bit_map_step st b acc) (\<lambda>(st', acc'). bm_run st' bs acc')"

lemma decode_type_loop_run:
  assumes "bytes_at (d_buffer d) (d_index d) bs" "bm_run st bs acc = Ok (st', rts)"
  shows "decode_type_loop (length bs) st acc d = Ok (rts, d\<lparr>d_index := d_index d + length bs\<rparr>)"
  using assms
proof (induction bs arbitrary: st acc d)
  case (Cons b bs)
  from Cons.prems(2) obtain st1 acc1 where 1: "bit_map_step st b acc = Ok (st1, acc1)" "bm_run st1 bs acc1 = Ok (st', rts)"
    by auto
  from Cons.prems(1) have "read_u8 d = Ok (b, d\<lparr>d_index := Suc (d_index d)\<rparr>)"
    by (simp add: read_u8_def pop_def bytes_at_Cons)
  with Cons.IH [of "d\<lparr>d_index := Suc (d_index d)\<rparr>" st1 acc1] Cons.prems(1) 1 show ?case
    by (simp add: try_dec_def dec_lift_def bytes_at_Cons)
qed (simp add: dec_return_def)

lemma bit_map_step_bits:
  assumes "unat len = length bm" "length bm \<le> 32" "p < length bm"
    and "\<And>k. bitset bm k \<Longrightarrow> rt_from_u16 (of_nat k) = Ok (code_rt k)"
  shows "bit_map_step (ReadType 0 len (len - of_nat p)) (bm ! p) acc =
    Ok (if Suc p = length bm then ReadWindow else ReadType 0 len (len - of_nat (Suc p)),
        acc @ map code_rt (filter (bitset bm) [8 * p..<8 * p + 8]))"
proof -
  have up: "unat (of_nat p :: u8) = p" using assms(2,3) by simp
  have le: "(of_nat p :: u8) \<le> len" using assms(1,3) up by (simp add: word_le_nat_alt)
  have ul: "unat (len - of_nat p) = length bm - p" using le up assms(1) by (simp add: unat_sub)
  have diff: "len - (len - of_nat p) = (of_nat p :: u8)" by simp
  have lele: "len - of_nat p \<le> len" using ul assms(1) by (simp add: word_le_nat_alt)
  have bits: "bit (bm ! p) (7 - c mod 8) = bitset bm c" if "c \<in> set [8 * p..<8 * p + 8]" for c
  proof -
    have "c div 8 = p" using that by auto
    then show ?thesis using assms(3) by (simp add: bitset_def)
  qed
  then have flt: "filter (\<lambda>c. bit (bm ! p) (7 - c mod 8)) [8 * p..<8 * p + 8] = filter (bitset bm) [8 * p..<8 * p + 8]"
    by (intro filter_cong) simp_all
  have "rt_from_u16 (of_nat (8 * p + i)) = Ok (code_rt (8 * p + i))" if "i < 8" "bit (bm ! p) (7 - i)" for i
    using bits [of "8 * p + i"] that by (intro assms(4)) simp
  then have loop: "bit_loop 8 0 0 len (len - of_nat p) (bm ! p) acc =
      Ok (acc @ map code_rt (filter (bitset bm) [8 * p..<8 * p + 8]))"
    using bit_loop_spec [of 8 "len - of_nat p" len "bm ! p" acc] assms(2,3) lele flt
    by (simp add: diff up del: of_nat_add)
  have left: "len - of_nat p \<noteq> 0" using ul assms(3) by auto
  have left': "len - of_nat p - 1 = len - of_nat (Suc p)" by simp
  have "len - of_nat (Suc p) = 0 \<longleftrightarrow> Suc p = length bm"
  proof -
    have "unat (of_nat (Suc p) :: u8) = Suc p" using assms(2,3) by (intro unat_of_nat_u8) simp
    moreover have "len - of_nat (Suc p) = 0 \<longleftrightarrow> len = of_nat (Suc p)" by (metis eq_iff_diff_eq_0)
    ultimately show ?thesis using assms(1) by (metis word_unat_eq_iff)
  qed
  with loop left left' show ?thesis by (simp only: bit_map_step.simps bind_outcome.simps Let_def if_False) simp
qed

lemma bm_run_bits:
  assumes "unat len = length bm" "length bm \<le> 32" "p < length bm"
    and "\<And>k. bitset bm k \<Longrightarrow> rt_from_u16 (of_nat k) = Ok (code_rt k)"
  shows "bm_run (ReadType 0 len (len - of_nat p)) (drop p bm) acc =
    Ok (ReadWindow, acc @ map code_rt (filter (bitset bm) [8 * p..<8 * length bm]))"
  using assms(3)
proof (induction "length bm - Suc p" arbitrary: p acc)
  case (0 p)
  then have p: "Suc p = length bm" by simp
  then have "drop p bm = [bm ! p]" using Cons_nth_drop_Suc [OF 0(2)] by simp
  moreover have "8 * length bm = 8 * p + 8" using p by simp
  ultimately show ?case
    using bit_map_step_bits [OF assms(1,2) 0(2) assms(4)] p
    by (simp only: bm_run.simps bind_outcome.simps prod.case if_True simp_thms)
next
  case (Suc n)
  then have p: "Suc p < length bm" and n: "n = length bm - Suc (Suc p)" by simp_all
  have "drop p bm = bm ! p # drop (Suc p) bm" using Cons_nth_drop_Suc [OF Suc(3)] by simp
  moreover have "[8 * p..<8 * length bm] = [8 * p..<8 * p + 8] @ [8 * Suc p..<8 * length bm]"
    using p upt_add_eq_append [of "8 * p" "8 * Suc p" "8 * length bm - 8 * Suc p"] by (simp add: add.commute)
  moreover have "Suc p \<noteq> length bm" using p by simp
  ultimately show ?case
    using bit_map_step_bits [OF assms(1,2) Suc(3) assms(4)] Suc.hyps(1) [OF n p]
    by (simp only: bm_run.simps bind_outcome.simps prod.case if_False filter_append map_append append.assoc)
qed

section \<open>Round trip\<close>

lemma writes_to_vec_len:
  assumes "\<And>d. k + length bs \<le> lim \<Longrightarrow> bytes_at (d_buffer d) (d_index d) bs \<Longrightarrow>
     r (length bs) d = Ok (x, d\<lparr>d_index := d_index d + length bs\<rparr>)"
  shows "writes_to c lim k (emit_vec bs) (\<lambda>j. r (j - k)) x"
proof (rule writes_toI)
  fix pre e e'
  assume a: "enc_inv pre e" "canonical_names e = c" and k: "k = length pre + length (e_buffer e)"
    and m: "emit_vec bs e = (Ok (), e')"
  from m have e': "e' = push_bytes bs e" and room: "room_for (length bs) e" by (simp_all add: emit_vec_Ok_iff)
  have "bytes_at (pre @ e_buffer e @ bs @ rest) k bs" for rest
    using bytes_at_mid [of "pre @ e_buffer e" bs rest] by (simp add: k)
  with assms [of "dec_at (pre @ e_buffer e @ bs @ rest) k" for rest] enc_inv_push [OF a(1) room] a(2)
  show "enc_inv pre e' \<and> e_mode e' = e_mode e \<and> canonical_names e' = c \<and>
      (\<exists>bs'. e_buffer e' = e_buffer e @ bs' \<and>
        (k + length bs' \<le> lim \<longrightarrow>
          (\<forall>rest. r (k + length bs' - k) (dec_at (pre @ e_buffer e' @ rest) k) =
             Ok (x, dec_at (pre @ e_buffer e' @ rest) (k + length bs')))))"
    by (simp add: e')
qed

lemma filter_sorted_codes:
  assumes "sorted_wrt (<) (cs :: nat list)" "\<And>c. c \<in> set cs \<Longrightarrow> c < n"
  shows "filter (\<lambda>k. k \<in> set cs) [0..<n] = cs"
proof (rule sorted_distinct_set_unique)
  show "sorted cs" "distinct cs"
    using assms(1) by (simp_all add: strict_sorted_iff)
  show "set (filter (\<lambda>k. k \<in> set cs) [0..<n]) = set cs"
    using assms(2) by auto
  show "sorted (filter (\<lambda>k. k \<in> set cs) [0..<n])"
    by (rule sorted_wrt_filter) simp
qed simp_all

lemma bm_run_types:
  assumes "sorted_wrt (<) ts" "RT_IXFR \<notin> set ts" "ts \<noteq> []" "length bm \<le> 32"
    and "\<And>k. bitset bm k \<longleftrightarrow> k \<in> rt_code ` set ts"
  shows "bm_run ReadWindow (0 # of_nat (length bm) # bm) [] = Ok (ReadWindow, ts)"
proof -
  let ?len = "of_nat (length bm) :: u8"
  have len: "unat ?len = length bm" using assms(4) by simp
  have valid: "rt_from_u16 (of_nat k) = Ok (code_rt k)" if "bitset bm k" for k
  proof -
    from that assms(5) obtain t where "t \<in> set ts" "k = rt_code t" by auto
    moreover from this assms(2) have "t \<noteq> RT_IXFR" by auto
    ultimately show ?thesis by (simp add: rt_from_rt_code)
  qed
  obtain t where "t \<in> set ts" using assms(3) by fastforce
  then have "bitset bm (rt_code t)" using assms(5) by blast
  then have pos: "0 < length bm" by (auto simp: bitset_def)
  have "sorted_wrt (<) (map rt_code ts)" using assms(1) by (simp add: sorted_wrt_map flip: rt_less_code)
  moreover have "c < 8 * length bm" if "c \<in> set (map rt_code ts)" for c
    using that assms(5) [of c] by (auto simp: bitset_def)
  moreover have "bitset bm = (\<lambda>k. k \<in> set (map rt_code ts))" using assms(5) by auto
  ultimately have "filter (bitset bm) [0..<8 * length bm] = map rt_code ts"
    using filter_sorted_codes [of "map rt_code ts" "8 * length bm"] by simp
  moreover have "map code_rt (map rt_code ts) = ts"
    using assms(2) by (induction ts) auto
  ultimately show ?thesis
    using bm_run_bits [OF len assms(4) pos valid, of "[]"] by simp
qed

lemma writes_to_bit_maps:
  assumes "sorted_wrt (<) ts" "RT_IXFR \<notin> set ts"
  shows "writes_to c lim k (encode_bit_maps ts) (\<lambda>j. decode_type_bit_maps (j - k)) ts"
proof (cases ts)
  case Nil
  have "encode_bit_maps [] = emit_vec []" by (rule ext) (simp add: encode_bit_maps_def emit_vec_def)
  with Nil show ?thesis
    by (simp only:) (rule writes_to_vec_len, simp add: decode_type_bit_maps_def dec_return_def)
next
  case (Cons t ts')
  have "length (bm_add [] (rt_code t)) \<le> rt_code t' div 8 + 1" if "t' \<in> set ts'" for t'
  proof -
    have "rt_code t < rt_code t'" using assms(1) that by (simp add: Cons rt_less_code)
    then show ?thesis by (simp add: length_bm_add div_le_mono)
  qed
  with encode_types_sorted [of ts' "bm_add [] (rt_code t)"] assms(1) Cons obtain bm where
    enc: "(encode_types ts [] :: (_, encode_error) outcome) = Ok [(0, bm)]"
    and len: "length bm \<le> max (length (bm_add [] (rt_code t))) 32"
    and bits: "\<And>k. bitset bm k \<longleftrightarrow> k \<in> rt_code ` set ts' \<or> bitset (bm_add [] (rt_code t)) k"
    by (auto simp: encode_types_step(2) simp del: encode_types.simps)
  have len': "length bm \<le> 32"
    using len rt_code_less [of t] by (simp add: length_bm_add)
  have "bitset bm k \<longleftrightarrow> k \<in> rt_code ` set ts" for k
    using bits [of k] bitset_bm_add [of "[]" "rt_code t" k] by (auto simp: Cons bitset_def [of "[]"])
  from bm_run_types [OF assms _ len' this] Cons
  have run: "bm_run ReadWindow (0 # of_nat (length bm) # bm) [] = Ok (ReadWindow, ts)" by simp
  have "encode_bit_maps ts e = emit_vec (0 # of_nat (length bm) # bm) e" for e
    unfolding encode_bit_maps_def enc emit_vec_def
    by (auto split: prod.splits outcome.splits)
  then have "encode_bit_maps ts = emit_vec (0 # of_nat (length bm) # bm)" by (rule ext)
  then show ?thesis
    by (simp only:)
      (rule writes_to_vec_len, unfold decode_type_bit_maps_def, rule decode_type_loop_run [OF _ run])
qed

section \<open>NSEC and NSEC3\<close>

lemma writes_to_canonical:
  assumes "writes_to True lim k (enc_seq ms) r x"
  shows "writes_to False lim k
     (\<lambda>e. enc_seq (enc_modify (set_canonical_names True) # ms @ [enc_modify (set_canonical_names (canonical_names e))]) e) r x"
proof (rule writes_toI)
  fix pre e e'
  assume inv: "enc_inv pre e" and c: "canonical_names e = False" and k: "k = length pre + length (e_buffer e)"
    and m: "enc_seq (enc_modify (set_canonical_names True) # ms @ [enc_modify (set_canonical_names (canonical_names e))]) e = (Ok (), e')"
  let ?e = "set_canonical_names True e"
  from m c obtain e1 where e1: "enc_seq ms ?e = (Ok (), e1)" and e': "e' = set_canonical_names False e1"
    by (auto simp: enc_seq_Cons_Ok_iff enc_seq_append enc_seq_Nil_Ok_iff enc_modify_def simp del: enc_seq.simps)
  have "enc_inv pre ?e" "canonical_names ?e = True" "k = length pre + length (e_buffer ?e)"
    using inv k by (simp_all add: enc_inv_def set_canonical_names_def)
  from writes_toD [OF assms this e1] obtain bs where "enc_inv pre e1" "e_mode e1 = e_mode ?e"
    "e_buffer e1 = e_buffer ?e @ bs"
    "\<And>rest. k + length bs \<le> lim \<Longrightarrow> r (k + length bs) (dec_at (pre @ e_buffer e1 @ rest) k) =
       Ok (x, dec_at (pre @ e_buffer e1 @ rest) (k + length bs))"
    by blast
  then show "enc_inv pre e' \<and> e_mode e' = e_mode e \<and> canonical_names e' = False \<and>
      (\<exists>bs. e_buffer e' = e_buffer e @ bs \<and>
        (k + length bs \<le> lim \<longrightarrow>
          (\<forall>rest. r (k + length bs) (dec_at (pre @ e_buffer e' @ rest) k) =
             Ok (x, dec_at (pre @ e_buffer e' @ rest) (k + length bs)))))"
    by (simp add: e' set_canonical_names_def enc_inv_def)
qed

lemma writes_to_last_bit_maps:
  "sorted_wrt (<) ts \<Longrightarrow> RT_IXFR \<notin> set ts \<Longrightarrow>
   writes_to c lim k (enc_seq [encode_bit_maps ts])
     (\<lambda>j. try_dec (decode_type_bit_maps (j - k)) (\<lambda>v. dec_return (g v))) (g ts)"
  unfolding writes_to_single by (rule writes_to_map, rule writes_to_bit_maps)

lemma writes_nsec:
  assumes "wf_name (next_domain_name x)" "sorted_wrt (<) (nsec_types x)" "RT_IXFR \<notin> set (nsec_types x)"
  shows "writes_sized False (nsec_emit x) nsec_read x"
proof -
  let ?ms = "[name_emit (next_domain_name x), encode_bit_maps (nsec_types x)]"
  have "writes_to True (k + 65535) k (enc_seq ?ms) (\<lambda>j. nsec_read (of_nat (j - k)))
      \<lparr>next_domain_name = next_domain_name x, nsec_types = nsec_types x\<rparr>" for k
    unfolding nsec_read_def
    apply (rule writes_to_index)
    apply (rule writes_to_Cons, rule codec, rule assms)
    apply (rule writes_to_octets_left)
     apply (rule writes_to_last_bit_maps, rule assms, rule assms)
    apply simp
    done
  then have "writes_to True (k + 65535) k (enc_seq ?ms) (\<lambda>j. nsec_read (of_nat (j - k))) x" for k
    by (cases x) (simp del: enc_seq.simps)
  from writes_to_canonical [OF this] show ?thesis
    unfolding writes_sized_def nsec_emit_def [abs_def] by (simp del: enc_seq.simps)
qed

lemma writes_nsec3:
  assumes "length (n3_salt x) < 256" "length (next_hashed_owner_name x) < 256"
    "sorted_wrt (<) (n3_types x)" "RT_IXFR \<notin> set (n3_types x)"
  shows "writes_sized c (nsec3_emit x) nsec3_read x"
proof -
  have flags: "(if b then 1 else 0 :: u8) AND 0xFE = 0" "((if b then 1 else 0 :: u8) AND 1 = 1) = b" for b
    by simp_all
  have "writes_to c (k + 65535) k (nsec3_emit x) (\<lambda>j. nsec3_read (of_nat (j - k)))
      \<lparr>n3_hash_algorithm = n3_hash_algorithm x, n3_opt_out = n3_opt_out x, n3_iterations = n3_iterations x,
       n3_salt = n3_salt x, next_hashed_owner_name = next_hashed_owner_name x, n3_types = n3_types x\<rparr>" for k
    unfolding nsec3_emit_def nsec3_read_def
    apply (rule writes_to_index)
    apply (rule writes_to_Cons, rule codec)+
    apply (simp only: flags simp_thms if_False)
    apply (rule writes_to_Cons, rule codec)+
    apply (rule writes_to_Cons, rule writes_read_vec_len, rule assms)
    apply (rule writes_to_Cons, rule codec)
    apply (rule writes_to_Cons, rule writes_read_vec_len, rule assms)
    apply (rule writes_to_octets_left)
     apply (rule writes_to_last_bit_maps, rule assms, rule assms)
    apply simp
    done
  then show ?thesis by (cases x) (simp add: writes_sized_def)
qed

end
