(* ===== verification/Edns_Options.thy ===== *)
theory Edns_Options
  imports Bit_Maps
begin

text \<open>
  EDNS options (\<open>rr/rdata/opt.rs\<close>): the state machine that reads them gives back every map of
  options that the encoder writes, provided no option is empty; an empty option makes it
  drop all options. At the end of the theory the codecs of all record types are put together
  as the codec of \<open>RData\<close>.
\<close>

section \<open>Options\<close>

lemma edns_option_len_bytes: "edns_option_len opt = of_nat (length (edns_option_bytes opt))"
  by (cases opt) (simp_all add: sa_len_def sa_to_bytes_def)

definition wf_option :: "edns_code \<times> edns_option \<Rightarrow> bool" where
  "wf_option co \<longleftrightarrow>
     edns_code_from_u16 (edns_code_to_u16 (fst co)) = fst co \<and>
     edns_option_from (fst co) (edns_option_bytes (snd co)) = snd co \<and>
     edns_option_bytes (snd co) \<noteq> []"

definition wf_opt :: "opt \<Rightarrow> bool" where
  "wf_opt opt \<longleftrightarrow> list_all wf_option (opt_options opt) \<and> distinct (map fst (opt_options opt))"

definition option_octets :: "edns_code \<times> edns_option \<Rightarrow> bytes" where
  "option_octets co =
     be16 (edns_code_to_u16 (fst co)) @ be16 (of_nat (length (edns_option_bytes (snd co)))) @
     edns_option_bytes (snd co)"

lemma opt_loop_data:
  assumes "bytes_at (d_buffer d) (d_index d) bs" "bs \<noteq> []" "length collected + length bs = n"
    and "d_index d + length bs \<le> start + unat len" "start \<le> d_index d"
  shows "opt_loop start len (OR_Data code n collected) opts d =
     opt_loop start len OR_ReadCode (AList.update code (edns_option_from code (collected @ bs)) opts)
       (d\<lparr>d_index := d_index d + length bs\<rparr>)"
  using assms
proof (induction bs arbitrary: d collected)
  case (Cons b bs)
  let ?d = "d\<lparr>d_index := Suc (d_index d)\<rparr>"
  have "pop d = Ok (b, ?d)" using Cons.prems(1) by (simp add: pop_def bytes_at_Cons)
  moreover have "unat len > d_index d - start" using Cons.prems(4,5) by (simp add: less_diff_conv2)
  ultimately have step: "opt_loop start len (OR_Data code n collected) opts d =
      (if n = length (collected @ [b])
       then opt_loop start len OR_ReadCode (AList.update code (edns_option_from code (collected @ [b])) opts) ?d
       else opt_loop start len (OR_Data code n (collected @ [b])) opts ?d)"
    by (subst opt_loop.simps) (simp add: Let_def)
  show ?case
  proof (cases "bs = []")
    case True
    with step Cons.prems(3) show ?thesis by simp
  next
    case False
    then have "n \<noteq> length (collected @ [b])" using Cons.prems(3) by (cases bs) auto
    with False step Cons.prems Cons.IH [of ?d "collected @ [b]"] show ?thesis
      by (simp add: bytes_at_Cons)
  qed
qed simp

lemma opt_loop_option:
  assumes "bytes_at (d_buffer d) (d_index d) (option_octets co)" "wf_option co"
    and "d_index d + length (option_octets co) \<le> start + unat len" "start \<le> d_index d"
  shows "opt_loop start len OR_ReadCode opts d =
     opt_loop start len OR_ReadCode (AList.update (fst co) (snd co) opts)
       (d\<lparr>d_index := d_index d + length (option_octets co)\<rparr>)"
proof -
  let ?data = "edns_option_bytes (snd co)"
  let ?d1 = "d\<lparr>d_index := d_index d + 2\<rparr>" and ?d2 = "d\<lparr>d_index := d_index d + 4\<rparr>"
  have ne: "?data \<noteq> []" using assms(2) by (simp add: wf_option_def)
  have i: "d_index d + 4 + length ?data \<le> start + unat len"
    using assms(3) by (simp add: option_octets_def)
  have len: "length ?data < 65536" using i assms(4) unat_u16_less [of len] by simp
  have c: "read_u16 d = Ok (edns_code_to_u16 (fst co), ?d1)"
    using assms(1) read_u16_at [of d "edns_code_to_u16 (fst co)"] by (simp add: option_octets_def bytes_at_append)
  have l: "read_u16 ?d1 = Ok (of_nat (length ?data), ?d2)"
    using assms(1) read_u16_at [of ?d1 "of_nat (length ?data)"] by (simp add: option_octets_def bytes_at_append)
  have "opt_loop start len OR_ReadCode opts d = opt_loop start len (OR_Code (fst co)) opts ?d1"
    using c i ne assms(2,4) by (subst opt_loop.simps) (auto simp: wf_option_def)
  also have "\<dots> = opt_loop start len (OR_Data (fst co) (length ?data) []) opts ?d2"
    using l i ne len assms(4) by (subst opt_loop.simps) (auto simp: neq_Nil_conv)
  also have "\<dots> = opt_loop start len OR_ReadCode (AList.update (fst co) (snd co) opts)
      (d\<lparr>d_index := d_index d + (4 + length ?data)\<rparr>)"
  proof -
    have "bytes_at (d_buffer ?d2) (d_index ?d2) ?data"
      using assms(1) by (simp add: option_octets_def bytes_at_append numeral_eq_Suc)
    from opt_loop_data [OF this ne, of "[]" "length ?data" start len "fst co" opts] i assms(2,4)
    show ?thesis by (simp add: wf_option_def add.assoc)
  qed
  also have "4 + length ?data = length (option_octets co)" by (simp add: option_octets_def)
  finally show ?thesis .
qed

lemma AList_update_new: "k \<notin> fst ` set m \<Longrightarrow> AList.update k v m = m @ [(k, v)]"
  by (induction m) auto

lemma opt_loop_options:
  assumes "bytes_at (d_buffer d) (d_index d) (concat (map option_octets os))" "list_all wf_option os"
    and "d_index d + length (concat (map option_octets os)) = start + unat len" "start \<le> d_index d"
    and "distinct (map fst (acc @ os))"
  shows "opt_loop start len OR_ReadCode acc d =
     Ok (\<lparr>opt_options = acc @ os\<rparr>, d\<lparr>d_index := d_index d + length (concat (map option_octets os))\<rparr>)"
  using assms
proof (induction os arbitrary: d acc)
  case Nil
  then show ?case by (subst opt_loop.simps) simp
next
  case (Cons co os)
  let ?d = "d\<lparr>d_index := d_index d + length (option_octets co)\<rparr>"
  have "opt_loop start len OR_ReadCode acc d = opt_loop start len OR_ReadCode (acc @ [co]) ?d"
    using Cons.prems opt_loop_option [of d co start len acc] AList_update_new [of "fst co" acc "snd co"]
    by (auto simp: bytes_at_append)
  also have "\<dots> = Ok (\<lparr>opt_options = (acc @ [co]) @ os\<rparr>, ?d\<lparr>d_index := d_index ?d + length (concat (map option_octets os))\<rparr>)"
    using Cons.prems by (intro Cons.IH) (auto simp: bytes_at_append add.assoc)
  finally show ?case by (simp add: add.assoc)
qed

lemma emit_vec_append_Ok:
  "emit_vec (bs @ cs) e = (Ok (), e'') \<longleftrightarrow>
     (\<exists>e'. emit_vec bs e = (Ok (), e') \<and> emit_vec cs e' = (Ok (), e''))"
proof -
  have "room_for (length bs + length cs) e \<longleftrightarrow> room_for (length bs) e \<and> room_for (length cs) (push_bytes bs e)"
    using unat_offset_push [of bs e] by (auto simp: room_for_def)
  then show ?thesis by (auto simp: emit_vec_Ok_iff)
qed

lemma writes_to_ok_cong:
  "(\<And>e e'. m e = (Ok (), e') \<Longrightarrow> m' e = (Ok (), e')) \<Longrightarrow> writes_to c lim k m' r x \<Longrightarrow> writes_to c lim k m r x"
  unfolding writes_to_def by blast

lemma emit_options_vec:
  "enc_seq (map (\<lambda>(code, option).
       enc_seq [emit_u16 (edns_code_to_u16 code), emit_u16 (edns_option_len option),
                emit_vec (edns_option_bytes option)]) os) e = (Ok (), e') \<longleftrightarrow>
   emit_vec (concat (map option_octets os)) e = (Ok (), e')"
proof (induction os arbitrary: e)
  case Nil
  then show ?case by (simp add: emit_vec_def)
next
  case (Cons co os)
  then show ?case
    by (cases co)
      (simp add: enc_seq_Cons_Ok_iff enc_seq_Nil_Ok_iff emit_vec_append_Ok option_octets_def emit_u16_eq
        edns_option_len_bytes del: enc_seq.simps, blast)
qed

lemma writes_opt:
  assumes "wf_opt x"
  shows "writes_sized c (opt_emit x) opt_read x"
proof -
  let ?bs = "concat (map option_octets (opt_options x))"
  have "writes_to c (k + 65535) k (opt_emit x) (\<lambda>j. opt_read (of_nat (j - k))) \<lparr>opt_options = [] @ opt_options x\<rparr>" for k
  proof (rule writes_to_ok_cong)
    show "emit_vec ?bs e = (Ok (), e')" if "opt_emit x e = (Ok (), e')" for e e'
      using that unfolding opt_emit_def emit_options_vec .
    show "writes_to c (k + 65535) k (emit_vec ?bs) (\<lambda>j. opt_read (of_nat (j - k))) \<lparr>opt_options = [] @ opt_options x\<rparr>"
    proof (rule writes_to_vec_len [where r = "\<lambda>n. opt_read (of_nat n)"])
      fix d :: bin_decoder
      assume len: "k + length ?bs \<le> k + 65535" and at: "bytes_at (d_buffer d) (d_index d) ?bs"
      have "unat (of_nat (length ?bs) :: u16) = length ?bs" using len by (intro unat_of_nat_u16) simp
      with at assms show "opt_read (of_nat (length ?bs)) d =
          Ok (\<lparr>opt_options = [] @ opt_options x\<rparr>, d\<lparr>d_index := d_index d + length ?bs\<rparr>)"
        unfolding opt_read_def try_dec_def dec_index_def wf_opt_def bind_outcome.simps prod.case
        by (intro opt_loop_options) simp_all
    qed
  qed
  then show ?thesis by (cases x) (simp add: writes_sized_def)
qed

section \<open>The codec of RData\<close>

text \<open>Data the wire format can hold.\<close>

fun wf_rdata :: "rdata \<Rightarrow> bool" where
  "wf_rdata (RD_CNAME n) = wf_name n"
| "wf_rdata (RD_DS x) = (ds_digest_type x \<noteq> DT_SHA512)"
| "wf_rdata (RD_MX x) = wf_name (mx_exchange x)"
| "wf_rdata (RD_NULL x) = (anything x \<noteq> Some [])"
| "wf_rdata (RD_NS n) = wf_name n"
| "wf_rdata (RD_NSEC x) =
     (wf_name (next_domain_name x) \<and> sorted_wrt (<) (nsec_types x) \<and> RT_IXFR \<notin> set (nsec_types x))"
| "wf_rdata (RD_NSEC3 x) =
     (length (n3_salt x) < 256 \<and> length (next_hashed_owner_name x) < 256 \<and>
      sorted_wrt (<) (n3_types x) \<and> RT_IXFR \<notin> set (n3_types x))"
| "wf_rdata (RD_NSEC3PARAM x) = (length (n3p_salt x) < 256)"
| "wf_rdata (RD_OPT x) = wf_opt x"
| "wf_rdata (RD_PTR n) = wf_name n"
| "wf_rdata (RD_SIG x) = (type_covered x \<noteq> RT_IXFR \<and> wf_name (signer_name x))"
| "wf_rdata (RD_SOA x) = (wf_name (mname x) \<and> wf_name (rname x))"
| "wf_rdata (RD_SRV x) = wf_name (srv_target x)"
| "wf_rdata (RD_TXT x) = list_all (\<lambda>s. valid_utf8 (bytes_of_str s)) (txt_data x)"
| "wf_rdata _ = True"

text \<open>The record types under which data is stored: its own, or \<open>RRSIG\<close> for a signature.\<close>

definition holds_rdata :: "record_type \<Rightarrow> rdata \<Rightarrow> bool" where
  "holds_rdata rt rd \<longleftrightarrow>
     rt = to_record_type rd \<or> (rt = RT_RRSIG \<and> (case rd of RD_SIG _ \<Rightarrow> True | _ \<Rightarrow> False))"

lemma writes_sized_map: "writes_sized c m r x \<Longrightarrow> writes_sized c m (\<lambda>l. dec_map f (r l)) (f x)"
  unfolding writes_sized_def dec_map_def by (intro allI writes_to_map) simp

lemma rdata_read_body_fun:
  "rdata_read_body RT_A = (\<lambda>l. dec_map RD_A a_read)"
  "rdata_read_body RT_AAAA = (\<lambda>l. dec_map RD_AAAA aaaa_read)"
  "rdata_read_body RT_CNAME = (\<lambda>l. dec_map RD_CNAME name_rdata_read)"
  "rdata_read_body RT_KEY = (\<lambda>l. dec_map RD_KEY (dnskey_read l))"
  "rdata_read_body RT_DNSKEY = (\<lambda>l. dec_map RD_DNSKEY (dnskey_read l))"
  "rdata_read_body RT_DS = (\<lambda>l. dec_map RD_DS (ds_read l))"
  "rdata_read_body RT_MX = (\<lambda>l. dec_map RD_MX mx_read)"
  "rdata_read_body RT_NULL = (\<lambda>l. dec_map RD_NULL (null_read l))"
  "rdata_read_body RT_NS = (\<lambda>l. dec_map RD_NS name_rdata_read)"
  "rdata_read_body RT_NSEC = (\<lambda>l. dec_map RD_NSEC (nsec_read l))"
  "rdata_read_body RT_NSEC3 = (\<lambda>l. dec_map RD_NSEC3 (nsec3_read l))"
  "rdata_read_body RT_NSEC3PARAM = (\<lambda>l. dec_map RD_NSEC3PARAM nsec3param_read)"
  "rdata_read_body RT_OPT = (\<lambda>l. dec_map RD_OPT (opt_read l))"
  "rdata_read_body RT_PTR = (\<lambda>l. dec_map RD_PTR name_rdata_read)"
  "rdata_read_body RT_SIG = (\<lambda>l. dec_map RD_SIG (sig_read l))"
  "rdata_read_body RT_SOA = (\<lambda>l. dec_map RD_SOA soa_read)"
  "rdata_read_body RT_SRV = (\<lambda>l. dec_map RD_SRV srv_read)"
  "rdata_read_body RT_TXT = (\<lambda>l. dec_map RD_TXT (txt_read l))"
  "rdata_read_body RT_RRSIG = (\<lambda>l. dec_map RD_SIG (sig_read l))"
  by (simp_all add: fun_eq_iff)

lemma writes_rdata_body:
  assumes "wf_rdata rd" "holds_rdata rt rd"
  shows "writes_sized False (rdata_emit rd) (rdata_read_body rt) rd"
  using assms
  by (cases rd)
    (auto simp: holds_rdata_def rdata_read_body_fun
      intro: writes_sized_writes [OF writes_a] writes_sized_writes [OF writes_aaaa]
        writes_sized_writes [OF writes_name_rdata] writes_sized_writes [OF writes_mx]
        writes_sized_writes [OF writes_nsec3param] writes_sized_writes [OF writes_soa]
        writes_sized_writes [OF writes_srv]
      intro!: writes_sized_map writes_null writes_nsec writes_nsec3 writes_opt writes_sig
        writes_txt writes_dnskey writes_ds)

lemma writes_rdata:
  assumes "wf_rdata rd" "holds_rdata rt rd"
  shows "writes_sized False (rdata_emit rd) (rdata_read rt) rd"
  unfolding writes_sized_def
proof (intro allI)
  fix k
  have "writes_to False (k + 65535) k (rdata_emit rd) (\<lambda>j. rdata_read_body rt (of_nat (j - k))) rd"
    using writes_rdata_body [OF assms] by (simp add: writes_sized_def)
  then show "writes_to False (k + 65535) k (rdata_emit rd) (\<lambda>j. rdata_read rt (of_nat (j - k))) rd"
  proof (rule writes_to_reader)
    fix buf j
    assume j: "k \<le> j" "j \<le> k + 65535"
      and r: "rdata_read_body rt (of_nat (j - k)) (dec_at buf k) = Ok (rd, dec_at buf j)"
    have "unat (of_nat (j - k) :: u16) = j - k" using j(2) by (intro unat_of_nat_u16) simp
    with r show "rdata_read rt (of_nat (j - k)) (dec_at buf k) = Ok (rd, dec_at buf j)"
      by (simp add: rdata_read_def try_dec_def dec_index_def dec_return_def del: of_nat_diff)
  qed
qed

end
