(* ===== verification/Resource.thy ===== *)
theory Resource
  imports Edns_Options
begin

text \<open>
  Resource records (\<open>rr/resource.rs\<close>), the keys under which an authority files them
  (\<open>rr/rr_key.rs\<close>), and the order and equality of both. The record codec is shown to be a round
  trip; the equality of record data is shown to be an equivalence.
\<close>

section \<open>Records\<close>

record resource =
  rr_name :: name
  rr_type :: record_type
  rr_class :: dns_class
  rr_ttl :: u32
  rr_rdata :: rdata

definition null_new :: rdata where
  "null_new = RD_NULL \<lparr>anything = None\<rparr>"

definition resource_new :: resource where
  "resource_new = \<lparr>rr_name = name_new, rr_type = RT_A, rr_class = CL_IN, rr_ttl = 0, rr_rdata = null_new\<rparr>"

definition resource_with :: "name \<Rightarrow> record_type \<Rightarrow> u32 \<Rightarrow> resource" where
  "resource_with name rt ttl = \<lparr>rr_name = name, rr_type = rt, rr_class = CL_IN, rr_ttl = ttl, rr_rdata = null_new\<rparr>"

definition from_rdata :: "name \<Rightarrow> u32 \<Rightarrow> record_type \<Rightarrow> rdata \<Rightarrow> resource" where
  "from_rdata name ttl rt rdata =
     \<lparr>rr_name = name, rr_type = rt, rr_class = CL_IN, rr_ttl = ttl, rr_rdata = rdata\<rparr>"

definition add_name :: "string \<Rightarrow> resource \<Rightarrow> (resource, 'e) outcome" where
  "add_name l r = bind_outcome (add_label l (rr_name r)) (\<lambda>n. Ok (r\<lparr>rr_name := n\<rparr>))"

text \<open>The class of an OPT record is its payload size; its owner must be the root.\<close>

definition read_class :: "name \<Rightarrow> record_type \<Rightarrow> dns_class dec" where
  "read_class name rt =
     (if rt = RT_OPT
      then if \<not> is_root name then dec_fail (EdnsNameNotRoot name)
           else try_dec read_u16 (\<lambda>value. dec_return (class_for_opt value))
      else class_read)"

definition read_rdata :: "record_type \<Rightarrow> rdata dec" where
  "read_rdata rt =
     try_dec read_u16 (\<lambda>rd_length.
     if rd_length = 0 then dec_return null_new else rdata_read rt rd_length)"

definition resource_read :: "resource dec" where
  "resource_read =
     try_dec name_read (\<lambda>name.
     try_dec rt_read (\<lambda>rt.
     try_dec (read_class name rt) (\<lambda>class.
     try_dec read_u32 (\<lambda>ttl.
     try_dec (read_rdata rt) (\<lambda>rdata.
     dec_return \<lparr>rr_name = name, rr_type = rt, rr_class = class, rr_ttl = ttl, rr_rdata = rdata\<rparr>)))))"

text \<open>The assertion that a length is at most \<open>u16::max_value() as usize\<close>.\<close>

definition fits_u16 :: "nat \<Rightarrow> bool" where
  "fits_u16 n \<longleftrightarrow> n \<le> 65535"

lemma fits_u16_code [code]: "fits_u16 n \<longleftrightarrow> int n \<le> 65535"
  by (simp add: fits_u16_def)

text \<open>
  The data is written by an encoder of its own, which starts two octets further and knows no
  names written before; the octets are copied after their number.
\<close>

definition emit_rdata :: "rdata \<Rightarrow> enc" where
  "emit_rdata rdata e =
     (if e_offset e > 0xFFFFFFFD then (Panic, e)
      else case rdata_emit rdata (with_offset [] (e_offset e + 2) Normal) of
        (Ok _, tmp) \<Rightarrow>
          let tmp_buf = e_buffer tmp in
          if \<not> fits_u16 (length tmp_buf) then (Panic, e)
          else enc_seq [emit_u16 (of_nat (length tmp_buf)), emit_vec tmp_buf] e
      | (Err x, _) \<Rightarrow> (Err x, e)
      | (Panic, _) \<Rightarrow> (Panic, e)
      | (Overrun, _) \<Rightarrow> (Overrun, e))"

definition resource_emit :: "resource \<Rightarrow> enc" where
  "resource_emit r =
     enc_seq [name_emit (rr_name r), rt_emit (rr_type r), class_emit (rr_class r), emit_u32 (rr_ttl r),
              emit_rdata (rr_rdata r)]"

text \<open>Equality of RFC 2136: the time-to-live does not count.\<close>

definition resource_eq :: "resource \<Rightarrow> resource \<Rightarrow> bool" where
  "resource_eq a b \<longleftrightarrow>
     name_eq (rr_name a) (rr_name b) \<and> rr_type a = rr_type b \<and> rr_class a = rr_class b \<and>
     rdata_eq (rr_rdata a) (rr_rdata b)"

fun or_else_cmp :: "ordering \<Rightarrow> (ordering, 'e) outcome \<Rightarrow> (ordering, 'e) outcome" where
  "or_else_cmp Equal next = next"
| "or_else_cmp o1 next = Ok o1"

definition resource_cmp :: "resource \<Rightarrow> resource \<Rightarrow> (ordering, 'e) outcome" where
  "resource_cmp a b =
     or_else_cmp (name_cmp (rr_name a) (rr_name b))
     (or_else_cmp (rt_cmp (rr_type a) (rr_type b))
     (or_else_cmp (class_cmp (rr_class a) (rr_class b))
     (or_else_cmp (cmp_nat (unat (rr_ttl a)) (unat (rr_ttl b)))
     (rdata_cmp (rr_rdata a) (rr_rdata b)))))"

section \<open>Keys of record sets\<close>

record rr_key =
  key_name :: name
  key_type :: record_type

definition rr_key_new :: "name \<Rightarrow> record_type \<Rightarrow> rr_key" where
  "rr_key_new name rt = \<lparr>key_name = name, key_type = rt\<rparr>"

definition rr_key_cmp :: "rr_key \<Rightarrow> rr_key \<Rightarrow> ordering" where
  "rr_key_cmp self other =
     (let order = name_cmp (key_name self) (key_name other) in
      if order = Equal then rt_cmp (key_type self) (key_type other) else order)"

section \<open>The equality of data is an equivalence\<close>

text \<open>Data with its names in lower case; options are compared as a map.\<close>

definition lower_name :: "name \<Rightarrow> name" where
  "lower_name n = Name (map to_lower (labels n))"

fun fold_case :: "rdata \<Rightarrow> rdata" where
  "fold_case (RD_CNAME n) = RD_CNAME (lower_name n)"
| "fold_case (RD_MX x) = RD_MX (x\<lparr>mx_exchange := lower_name (mx_exchange x)\<rparr>)"
| "fold_case (RD_NS n) = RD_NS (lower_name n)"
| "fold_case (RD_NSEC x) = RD_NSEC (x\<lparr>next_domain_name := lower_name (next_domain_name x)\<rparr>)"
| "fold_case (RD_OPT x) = RD_OPT (x\<lparr>opt_options := []\<rparr>)"
| "fold_case (RD_PTR n) = RD_PTR (lower_name n)"
| "fold_case (RD_SIG x) = RD_SIG (x\<lparr>signer_name := lower_name (signer_name x)\<rparr>)"
| "fold_case (RD_SOA x) = RD_SOA (x\<lparr>mname := lower_name (mname x), rname := lower_name (rname x)\<rparr>)"
| "fold_case (RD_SRV x) = RD_SRV (x\<lparr>srv_target := lower_name (srv_target x)\<rparr>)"
| "fold_case rd = rd"

fun option_map :: "rdata \<Rightarrow> edns_code \<Rightarrow> edns_option option" where
  "option_map (RD_OPT x) = map_of (opt_options x)"
| "option_map _ = Map.empty"

lemma name_eq_lowercase: "name_eq a b \<longleftrightarrow> lower_name a = lower_name b"
  by (cases a; cases b) (simp add: name_eq_iff lower_name_def)

lemma rdata_eq_iff: "rdata_eq a b \<longleftrightarrow> fold_case a = fold_case b \<and> option_map a = option_map b"
proof (cases a)
  case (RD_MX x) then show ?thesis
    by (cases b; cases x; cases "case b of RD_MX y \<Rightarrow> y") (auto simp: rdata_eq_def name_eq_lowercase)
next
  case (RD_NSEC x) then show ?thesis
    by (cases b; cases x; cases "case b of RD_NSEC y \<Rightarrow> y") (auto simp: rdata_eq_def name_eq_lowercase)
next
  case (RD_SIG x) then show ?thesis
    by (cases b; cases x; cases "case b of RD_SIG y \<Rightarrow> y") (auto simp: rdata_eq_def name_eq_lowercase)
next
  case (RD_SOA x) then show ?thesis
    by (cases b; cases x; cases "case b of RD_SOA y \<Rightarrow> y") (auto simp: rdata_eq_def name_eq_lowercase)
next
  case (RD_SRV x) then show ?thesis
    by (cases b; cases x; cases "case b of RD_SRV y \<Rightarrow> y") (auto simp: rdata_eq_def name_eq_lowercase)
next
  case (RD_OPT x) then show ?thesis
    by (cases b) (auto simp: rdata_eq_def hm_eq_iff)
qed (cases b; simp add: rdata_eq_def name_eq_lowercase)+

lemma rdata_eq_refl [simp]: "rdata_eq a a"
  by (simp add: rdata_eq_iff)

lemma rdata_eq_sym: "rdata_eq a b \<longleftrightarrow> rdata_eq b a"
  by (auto simp: rdata_eq_iff)

lemma rdata_eq_trans: "rdata_eq a b \<Longrightarrow> rdata_eq b c \<Longrightarrow> rdata_eq a c"
  by (simp add: rdata_eq_iff)

lemma rdata_eq_left: "rdata_eq a b \<Longrightarrow> rdata_eq a c \<longleftrightarrow> rdata_eq b c"
  by (simp add: rdata_eq_iff)

lemma rdata_eq_right: "rdata_eq a b \<Longrightarrow> rdata_eq c a \<longleftrightarrow> rdata_eq c b"
  by (simp add: rdata_eq_iff)

section \<open>The order of keys\<close>

lemma comparator_lex:
  assumes "comparator c" "comparator d"
  shows "comparator (\<lambda>a b. let order = c (f a) (f b) in if order = Equal then d (g a) (g b) else order)"
    (is "comparator ?e")
proof
  note cs = comparator.cmp_refl [OF assms(1)] comparator.cmp_swap [OF assms(1)]
    comparator.cmp_Equal_left [OF assms(1)] comparator.cmp_Equal_right [OF assms(1)]
    comparator.cmp_Less_trans [OF assms(1)] comparator.cmp_Equal_trans [OF assms(1)]
  note ds = comparator.cmp_refl [OF assms(2)] comparator.cmp_swap [OF assms(2)]
    comparator.cmp_Less_trans [OF assms(2)] comparator.cmp_Equal_trans [OF assms(2)]
    comparator.cmp_Equal_Less [OF assms(2)]
  show "?e x x = Equal" for x by (simp add: cs ds)
  show "?e y x = rev_ordering (?e x y)" for x y
    using cs(2) [of "f y" "f x"] ds(2) [of "g y" "g x"] by (cases "c (f x) (f y)") (simp_all add: Let_def)
  show "?e x z = Less" if "?e x y = Less" "?e y z = Less" for x y z
    using that cs(3) [of "f x" "f y" "f z"] cs(4) [of "f y" "f z" "f x"] cs(5) [of "f x" "f y" "f z"]
      ds(3) [of "g x" "g y" "g z"]
    by (auto simp: Let_def split: if_splits)
  show "?e x z = Equal" if "?e x y = Equal" "?e y z = Equal" for x y z
    using that cs(6) [of "f x" "f y" "f z"] ds(4) [of "g x" "g y" "g z"]
    by (auto simp: Let_def split: if_splits)
  show "?e x z = Less" if "?e x y = Equal" "?e y z = Less" for x y z
    using that cs(3) [of "f x" "f y" "f z"] ds(5) [of "g x" "g y" "g z"]
    by (auto simp: Let_def split: if_splits)
qed

interpretation key_ord: comparator rr_key_cmp
  using comparator_lex [OF name_ord.comparator_axioms rt_ord.comparator_axioms, of key_name key_type]
  by (simp add: rr_key_cmp_def [abs_def])

lemma rr_key_cmp_Equal: "rr_key_cmp a b = Equal \<longleftrightarrow> name_eq (key_name a) (key_name b) \<and> key_type a = key_type b"
  by (auto simp: rr_key_cmp_def name_cmp_Equal Let_def rt_cmp_Equal)

section \<open>The codec of records\<close>

text \<open>A reader that cannot succeed where no octet is left.\<close>

definition needs_input :: "'a dec \<Rightarrow> bool" where
  "needs_input r \<longleftrightarrow> (\<forall>d. d_index d = length (d_buffer d) \<longrightarrow> \<not> is_ok (r d))"

lemma needs_input_try: "needs_input r \<Longrightarrow> needs_input (try_dec r f)"
  by (auto simp: needs_input_def try_dec_def is_ok_iff bind_outcome_Ok_iff)

lemma needs_input_index: "(\<And>i. needs_input (f i)) \<Longrightarrow> needs_input (try_dec dec_index f)"
  by (simp add: needs_input_def try_dec_def dec_index_def)

lemma needs_input_pop: "needs_input pop"
  by (simp add: needs_input_def pop_def)

lemma needs_input_name: "needs_input name_read"
  by (auto simp: needs_input_def is_ok_iff name_read_name_at dest!: name_at_advances)

lemmas needs_input_intros = needs_input_try needs_input_index needs_input_pop needs_input_name

lemma needs_input_integers: "needs_input read_u8" "needs_input read_u16" "needs_input read_u32" "needs_input read_i32"
  unfolding read_u8_def read_u16_def read_u32_def read_i32_def by (intro needs_input_intros)+

lemma needs_input_types: "needs_input rt_read" "needs_input alg_read"
  unfolding rt_read_def alg_read_def by (intro needs_input_intros needs_input_integers)+

text \<open>What is read back from empty data.\<close>

fun normal_rdata :: "rdata \<Rightarrow> rdata" where
  "normal_rdata (RD_OPT x) = (if opt_options x = [] then null_new else RD_OPT x)"
| "normal_rdata (RD_TXT x) = (if txt_data x = [] then null_new else RD_TXT x)"
| "normal_rdata rd = rd"

lemma rdata_read_body_empty:
  assumes "rdata_read_body rt 0 d = Ok (rd, d')" "d_index d = length (d_buffer d)"
  shows "normal_rdata rd = null_new"
proof (cases "rt \<in> {RT_NULL, RT_OPT, RT_TXT}")
  case True
  with assms(1) show ?thesis
    by (auto simp: dec_map_def try_dec_def null_read_def txt_read_def opt_read_def dec_len_def dec_index_def
      txt_loop.simps opt_loop.simps dec_return_def null_new_def bind_outcome_Ok_iff split: if_splits)
next
  case False
  then have "needs_input (rdata_read_body rt 0) \<or> rt \<in> {RT_ANY, RT_AXFR, RT_IXFR}"
    by (cases rt)
      (auto simp: dec_map_def a_read_def aaaa_read_def name_rdata_read_def mx_read_def srv_read_def soa_read_def
        dnskey_read_def ds_read_def nsec_read_def nsec3_read_def nsec3param_read_def sig_read_def
        intro!: needs_input_intros needs_input_integers needs_input_types)
  with assms show ?thesis by (auto simp: needs_input_def)
qed

definition wf_class :: "name \<Rightarrow> record_type \<Rightarrow> dns_class \<Rightarrow> bool" where
  "wf_class name rt class \<longleftrightarrow>
     (if rt = RT_OPT then is_root name else True) \<and>
     (case class of CL_OPT _ \<Rightarrow> rt = RT_OPT | _ \<Rightarrow> rt \<noteq> RT_OPT)"

definition emittable :: "record_type \<Rightarrow> rdata \<Rightarrow> bool" where
  "emittable rt rd \<longleftrightarrow> rd = null_new \<or> wf_rdata rd \<and> holds_rdata rt rd"

definition wf_resource :: "resource \<Rightarrow> bool" where
  "wf_resource r \<longleftrightarrow>
     wf_name (rr_name r) \<and> rr_type r \<noteq> RT_IXFR \<and> wf_class (rr_name r) (rr_type r) (rr_class r) \<and>
     emittable (rr_type r) (rr_rdata r)"

definition normal_resource :: "resource \<Rightarrow> resource" where
  "normal_resource r = r\<lparr>rr_rdata := normal_rdata (rr_rdata r)\<rparr>"

lemma normal_rdata_null [simp]: "normal_rdata null_new = null_new"
  by (simp add: null_new_def)

lemma writes_class: "wf_class n rt c \<Longrightarrow> writes b (class_emit c) (read_class n rt) c"
proof (cases c)
  case (CL_OPT v)
  moreover assume "wf_class n rt c"
  ultimately show ?thesis
    by (simp add: wf_class_def read_class_def class_emit_def class_for_opt_def
      writes_map [OF writes_integers(2), where f = CL_OPT])
qed (auto simp: wf_class_def read_class_def intro: writes_types(2))

text \<open>What the encoder of the data wrote is read back at the place it was copied to.\<close>

lemma rdata_copied:
  assumes w: "writes_sized False (rdata_emit rd) (rdata_read rt) rd"
    and t: "rdata_emit rd (with_offset [] off Normal) = (Ok (), t)"
    and off: "unat off = length pre" and len: "length (e_buffer t) \<le> 65535"
  shows "rdata_read rt (of_nat (length (e_buffer t))) (dec_at (pre @ e_buffer t @ rest) (length pre)) =
    Ok (rd, dec_at (pre @ e_buffer t @ rest) (length pre + length (e_buffer t)))"
proof -
  let ?e = "with_offset [] off Normal"
  have "writes_to False (length pre + 65535) (length pre) (rdata_emit rd)
      (\<lambda>j. rdata_read rt (of_nat (j - length pre))) rd"
    using w by (simp add: writes_sized_def)
  moreover have "enc_inv pre ?e" "canonical_names ?e = False" "length pre = length pre + length (e_buffer ?e)"
    using off by (simp_all add: enc_inv_def with_offset_def)
  ultimately show ?thesis
  proof (rule writes_toD [where m = "rdata_emit rd", OF _ _ _ _ t])
    fix bs
    assume "e_buffer t = e_buffer ?e @ bs"
      and rd: "\<And>rest. length pre + length bs \<le> length pre + 65535 \<Longrightarrow>
         rdata_read rt (of_nat (length pre + length bs - length pre)) (dec_at (pre @ e_buffer t @ rest) (length pre)) =
         Ok (rd, dec_at (pre @ e_buffer t @ rest) (length pre + length bs))"
    then have "e_buffer t = bs" by (simp add: with_offset_def)
    with len rd [of rest] show ?thesis by simp
  qed
qed

lemma rdata_read_empty: "rdata_read rt 0 (dec_at buf (length buf)) = Ok (rd, d) \<Longrightarrow> normal_rdata rd = null_new"
  by (auto simp: rdata_read_def try_dec_def dec_index_def Let_def bind_outcome_Ok_iff dec_return_def
    intro: rdata_read_body_empty split: if_splits)

lemma null_emit_new: "rdata_emit null_new e = (Ok (), e)"
  by (simp add: null_new_def null_emit_def enc_return_def)

lemma normal_rdata_id:
  assumes "rdata_emit rd (with_offset [] off Normal) = (Ok (), t)" "e_buffer t \<noteq> []"
  shows "normal_rdata rd = rd"
  using assms by (cases rd) (auto simp: opt_emit_def txt_emit_def with_offset_def)

lemma rdata_read_back:
  assumes w: "emittable rt rd" and t: "rdata_emit rd (with_offset [] off Normal) = (Ok (), t)"
    and off: "unat off = length pre" and len: "length (e_buffer t) \<le> 65535"
  shows "(if (of_nat (length (e_buffer t)) :: u16) = 0 then dec_return null_new
      else rdata_read rt (of_nat (length (e_buffer t)))) (dec_at (pre @ e_buffer t @ rest) (length pre)) =
    Ok (normal_rdata rd, dec_at (pre @ e_buffer t @ rest) (length pre + length (e_buffer t)))"
proof (cases "e_buffer t = []")
  case True
  have "normal_rdata rd = null_new"
  proof (cases "rd = null_new")
    case False
    with w have "writes_sized False (rdata_emit rd) (rdata_read rt) rd" by (simp add: emittable_def writes_rdata)
    from rdata_copied [OF this t off len, of "[]"] True show ?thesis by (auto intro: rdata_read_empty)
  qed simp
  with True show ?thesis by (simp add: dec_return_def)
next
  case False
  then have "rd \<noteq> null_new" using t by (auto simp: null_emit_new with_offset_def)
  with w have "writes_sized False (rdata_emit rd) (rdata_read rt) rd" by (simp add: emittable_def writes_rdata)
  note rdata_copied [OF this t off len, of rest]
  moreover have "(of_nat (length (e_buffer t)) :: u16) \<noteq> 0"
    using False len unat_of_nat_u16 [of "length (e_buffer t)"] by fastforce
  ultimately show ?thesis using normal_rdata_id [OF t False] by simp
qed

lemma emit_rdata_Ok:
  assumes "emit_rdata rd e = (Ok (), e')"
  obtains t where "rdata_emit rd (with_offset [] (e_offset e + 2) Normal) = (Ok (), t)"
    "unat (e_offset e + 2) = unat (e_offset e) + 2" "length (e_buffer t) \<le> 65535"
    "room_for (2 + length (e_buffer t)) e" "e' = push_bytes (be16 (of_nat (length (e_buffer t))) @ e_buffer t) e"
proof -
  have o: "e_offset e \<le> 0xFFFFFFFD" using assms by (auto simp: emit_rdata_def not_less split: if_splits)
  then have "unat (e_offset e) \<le> 0xFFFFFFFD" by (simp add: word_le_nat_alt)
  then have o2: "unat (e_offset e + 2) = unat (e_offset e) + 2" by (simp add: unat_word_ariths)
  from assms o obtain t where t: "rdata_emit rd (with_offset [] (e_offset e + 2) Normal) = (Ok (), t)"
    "length (e_buffer t) \<le> 65535"
    "enc_seq [emit_u16 (of_nat (length (e_buffer t))), emit_vec (e_buffer t)] e = (Ok (), e')"
    by (auto simp: emit_rdata_def Let_def fits_u16_def simp del: enc_seq.simps split: prod.splits outcome.splits if_splits)
  from t(3) have "emit_vec (be16 (of_nat (length (e_buffer t))) @ e_buffer t) e = (Ok (), e')"
    by (auto simp: emit_vec_append_Ok enc_seq_Cons_Ok_iff enc_seq_Nil_Ok_iff emit_u16_eq simp del: enc_seq.simps)
  then show thesis using that [OF t(1) o2 t(2)] by (simp add: emit_vec_Ok_iff)
qed

lemma writes_emit_rdata:
  assumes "emittable rt rd"
  shows "writes c (emit_rdata rd) (read_rdata rt) (normal_rdata rd)"
  unfolding writes_def
proof (intro allI, rule writes_toI)
  fix lim k pre e e'
  assume inv: "enc_inv pre e" and c: "canonical_names e = c" and k: "k = length pre + length (e_buffer e)"
    and "emit_rdata rd e = (Ok (), e')"
  then obtain t where t: "rdata_emit rd (with_offset [] (e_offset e + 2) Normal) = (Ok (), t)"
    and o2: "unat (e_offset e + 2) = unat (e_offset e) + 2" and len: "length (e_buffer t) \<le> 65535"
    and room: "room_for (2 + length (e_buffer t)) e"
    and e': "e' = push_bytes (be16 (of_nat (length (e_buffer t))) @ e_buffer t) e"
    by (elim emit_rdata_Ok)
  let ?n = "of_nat (length (e_buffer t)) :: u16"
  let ?pre = "pre @ e_buffer e @ be16 ?n"
  have off: "unat (e_offset e + 2) = length ?pre" using inv o2 by (simp add: enc_inv_def)
  have "read_rdata rt (dec_at (?pre @ e_buffer t @ rest) k) =
      Ok (normal_rdata rd, dec_at (?pre @ e_buffer t @ rest) (k + (2 + length (e_buffer t))))" for rest
  proof -
    have "bytes_at ((pre @ e_buffer e) @ be16 ?n @ (e_buffer t @ rest)) (length (pre @ e_buffer e)) (be16 ?n)"
      by (rule bytes_at_mid)
    then have "read_u16 (dec_at (?pre @ e_buffer t @ rest) k) = Ok (?n, dec_at (?pre @ e_buffer t @ rest) (length ?pre))"
      using read_u16_at [of "dec_at (?pre @ e_buffer t @ rest) k" ?n] k by simp
    with rdata_read_back [OF assms t off len, of rest] k show ?thesis
      unfolding read_rdata_def by (simp add: try_dec_OkI [of read_u16])
  qed
  moreover have "enc_inv pre e'" unfolding e' by (rule enc_inv_push [OF inv]) (use room in simp)
  ultimately show "enc_inv pre e' \<and> e_mode e' = e_mode e \<and> canonical_names e' = c \<and>
      (\<exists>bs. e_buffer e' = e_buffer e @ bs \<and> (k + length bs \<le> lim \<longrightarrow>
         (\<forall>rest. read_rdata rt (dec_at (pre @ e_buffer e' @ rest) k) =
            Ok (normal_rdata rd, dec_at (pre @ e_buffer e' @ rest) (k + length bs)))))"
    using c by (intro conjI exI [of _ "be16 ?n @ e_buffer t"]) (simp_all add: e')
qed

lemma writes_resource:
  assumes "wf_resource r"
  shows "writes c (resource_emit r) resource_read (normal_resource r)"
proof -
  have "writes c (resource_emit r) resource_read
      \<lparr>rr_name = rr_name r, rr_type = rr_type r, rr_class = rr_class r, rr_ttl = rr_ttl r,
       rr_rdata = normal_rdata (rr_rdata r)\<rparr>"
    unfolding resource_emit_def resource_read_def
    by (rule codec writes_class writes_emit_rdata | use assms in \<open>simp add: wf_resource_def\<close>)+
  then show ?thesis by (cases r) (simp add: normal_resource_def)
qed

interpretation record_codec: wire_codec resource_emit resource_read "\<lambda>r. wf_resource r \<and> normal_resource r = r"
  by unfold_locales (use writes_resource in fastforce)

text \<open>
  C1. A well-formed record written at any place of a message is read back from that place, name
  compression included, and the reader stops where the writer stopped. The only data that changes
  is empty OPT or TXT data: its length field is 0, which is read as the absence of data.\<close>
theorem resource_roundtrip:
  assumes "wf_resource r" "enc_inv [] e" "resource_emit r e = (Ok (), e')"
  shows "resource_read (dec_at (e_buffer e' @ rest) (length (e_buffer e))) =
    Ok (normal_resource r, dec_at (e_buffer e' @ rest) (length (e_buffer e')))"
  by (rule writesD [OF writes_resource [OF assms(1)] assms(2) refl assms(3)]) simp

theorem resource_roundtrip_witness:
  "let r = \<lparr>rr_name = Name [''www'', ''example''], rr_type = RT_MX, rr_class = CL_IN, rr_ttl = 300,
        rr_rdata = RD_MX \<lparr>mx_preference = 10, mx_exchange = Name [''a'', ''Example'', ''a'', ''Example'']\<rparr>\<rparr>;
       e' = snd (resource_emit r (new_encoder [])) in
   resource_read (dec_at (e_buffer e' @ [7]) 0) = Ok (r, dec_at (e_buffer e' @ [7]) (length (e_buffer e')))"
proof -
  let ?r = "\<lparr>rr_name = Name [''www'', ''example''], rr_type = RT_MX, rr_class = CL_IN, rr_ttl = 300,
    rr_rdata = RD_MX \<lparr>mx_preference = 10, mx_exchange = Name [''a'', ''Example'', ''a'', ''Example'']\<rparr>\<rparr>"
  let ?e = "snd (resource_emit ?r (new_encoder []))"
  have "fst (resource_emit ?r (new_encoder [])) = Ok ()" by code_simp
  then have em: "resource_emit ?r (new_encoder []) = (Ok (), ?e)" by (simp add: prod_eq_iff)
  have wf: "wf_resource ?r" and nrm: "normal_resource ?r = ?r" by code_simp+
  have len: "length (e_buffer (new_encoder [])) = 0" by (simp add: new_encoder_def with_offset_def)
  from resource_roundtrip [OF wf enc_inv_new_encoder(1) em, of "[7]"] show ?thesis
    by (simp only: Let_def nrm len)
qed

end
