(* ===== verification/Record_Set.thy ===== *)
theory Record_Set
  imports Resource
begin

text \<open>
  Record sets (\<open>rr/rr_set.rs\<close>): the records of one name and type, with the signatures that cover
  them. Insertion and removal keep the set free of duplicate data and act on the data as set
  insertion and removal do; SOA and CNAME sets hold at most one record.
\<close>

section \<open>The operations\<close>

record rr_set =
  rs_name :: name
  rs_type :: record_type
  rs_class :: dns_class
  rs_ttl :: u32
  rs_records :: "resource list"
  rs_rrsigs :: "resource list"
  rs_serial :: u32

definition rr_set_new :: "name \<Rightarrow> record_type \<Rightarrow> u32 \<Rightarrow> rr_set" where
  "rr_set_new name rt ser =
     \<lparr>rs_name = name, rs_type = rt, rs_class = CL_IN, rs_ttl = 0, rs_records = [], rs_rrsigs = [], rs_serial = ser\<rparr>"

definition rr_set_with_ttl :: "name \<Rightarrow> record_type \<Rightarrow> u32 \<Rightarrow> rr_set" where
  "rr_set_with_ttl name rt ttl =
     \<lparr>rs_name = name, rs_type = rt, rs_class = CL_IN, rs_ttl = ttl, rs_records = [], rs_rrsigs = [], rs_serial = 0\<rparr>"

definition rr_set_from :: "resource \<Rightarrow> rr_set" where
  "rr_set_from r =
     \<lparr>rs_name = rr_name r, rs_type = rr_type r, rs_class = rr_class r, rs_ttl = rr_ttl r,
      rs_records = [r], rs_rrsigs = [], rs_serial = 0\<rparr>"

definition set_dns_class :: "dns_class \<Rightarrow> rr_set \<Rightarrow> rr_set" where
  "set_dns_class c s = s\<lparr>rs_class := c, rs_records := map (rr_class_update (\<lambda>_. c)) (rs_records s)\<rparr>"

definition set_ttl :: "u32 \<Rightarrow> rr_set \<Rightarrow> rr_set" where
  "set_ttl ttl s = s\<lparr>rs_ttl := ttl, rs_records := map (rr_ttl_update (\<lambda>_. ttl)) (rs_records s)\<rparr>"

text \<open>
  \<open>Iterator::max_by_key\<close> returns the last of the elements with the greatest key. The derived order
  of \<open>Algorithm\<close> is the order of its variants.
\<close>

fun alg_rank :: "algorithm \<Rightarrow> nat" where
  "alg_rank RSASHA1 = 0"
| "alg_rank RSASHA1NSEC3SHA1 = 1"
| "alg_rank RSASHA256 = 2"
| "alg_rank RSASHA512 = 3"
| "alg_rank ECDSAP256SHA256 = 4"
| "alg_rank ECDSAP384SHA384 = 5"
| "alg_rank ED25519 = 6"

fun max_by_key :: "('a \<Rightarrow> nat) \<Rightarrow> 'a list \<Rightarrow> 'a option" where
  "max_by_key k [] = None"
| "max_by_key k (x # xs) =
     (case max_by_key k xs of None \<Rightarrow> Some x | Some y \<Rightarrow> if k x \<le> k y then Some y else Some x)"

definition rrsig_supported :: "supported_algorithms \<Rightarrow> resource \<Rightarrow> bool" where
  "rrsig_supported sa r = (case rr_rdata r of RD_SIG rrsig \<Rightarrow> sa_has sa (sig_algorithm rrsig) | _ \<Rightarrow> False)"

definition rrsig_rank :: "resource \<Rightarrow> nat" where
  "rrsig_rank r = (case rr_rdata r of RD_SIG rrsig \<Rightarrow> alg_rank (sig_algorithm rrsig) | _ \<Rightarrow> alg_rank RSASHA1)"

definition get_records :: "bool \<Rightarrow> supported_algorithms \<Rightarrow> rr_set \<Rightarrow> resource list" where
  "get_records and_rrsigs sa s =
     (if and_rrsigs then
        (let rrsigs = max_by_key rrsig_rank (filter (rrsig_supported sa) (rs_rrsigs s)) in
         rs_records s @ (case rrsigs of Some r \<Rightarrow> [r] | None \<Rightarrow> []))
      else rs_records s)"

definition rr_set_is_empty :: "rr_set \<Rightarrow> bool" where
  "rr_set_is_empty s \<longleftrightarrow> rs_records s = []"

definition insert_rrsig :: "resource \<Rightarrow> rr_set \<Rightarrow> rr_set" where
  "insert_rrsig r s = s\<lparr>rs_rrsigs := rs_rrsigs s @ [r]\<rparr>"

definition clear_rrsigs :: "rr_set \<Rightarrow> rr_set" where
  "clear_rrsigs s = s\<lparr>rs_rrsigs := []\<rparr>"

definition rs_updated :: "u32 \<Rightarrow> rr_set \<Rightarrow> rr_set" where
  "rs_updated ser s = s\<lparr>rs_serial := ser, rs_rrsigs := []\<rparr>"

text \<open>The indices of the records with the given data.\<close>

definition matching :: "rdata \<Rightarrow> resource list \<Rightarrow> nat list" where
  "matching rd rs = map fst (filter (\<lambda>(_, rr). rdata_eq (rr_rdata rr) rd) (List.enumerate 0 rs))"

definition swap_remove :: "nat \<Rightarrow> 'a list \<Rightarrow> 'a list" where
  "swap_remove i xs = (butlast xs)[i := last xs]"

text \<open>The loop over the matching records and the insertion of a record that replaced none.\<close>

fun replace_loop :: "resource \<Rightarrow> u32 \<Rightarrow> nat list \<Rightarrow> bool \<Rightarrow> rr_set \<Rightarrow> (bool \<times> rr_set, response_code) outcome" where
  "replace_loop r ser [] replaced s =
     (if \<not> replaced then
        let s' = rs_updated ser (s\<lparr>rs_ttl := rr_ttl r\<rparr>) in Ok (True, s'\<lparr>rs_records := rs_records s' @ [r]\<rparr>)
      else Ok (replaced, s))"
| "replace_loop r ser (i # to_replace) replaced s =
     (if i \<ge> length (rs_records s) then Panic
      else if resource_eq (rs_records s ! i) r then Ok (False, s)
      else replace_loop r ser to_replace True
        (rs_updated ser (s\<lparr>rs_records := swap_remove i (rs_records s @ [r]), rs_ttl := rr_ttl r\<rparr>)))"

definition insert_data :: "resource \<Rightarrow> u32 \<Rightarrow> rr_set \<Rightarrow> (bool \<times> rr_set, response_code) outcome" where
  "insert_data r ser s = replace_loop r ser (matching (rr_rdata r) (rs_records s)) False s"

definition rr_set_insert :: "resource \<Rightarrow> u32 \<Rightarrow> rr_set \<Rightarrow> (bool \<times> rr_set, response_code) outcome" where
  "rr_set_insert r ser s =
     (if \<not> name_eq (rr_name r) (rs_name s) \<or> rr_type r \<noteq> rs_type s then Panic
      else if rr_type r = RT_SOA then
        if length (rs_records s) > 1 then Panic
        else (case rs_records s of
            [] \<Rightarrow> insert_data r ser s
          | soa_record # _ \<Rightarrow>
              (case rr_rdata soa_record of
                 RD_SOA existing_soa \<Rightarrow>
                   (case rr_rdata r of
                      RD_SOA new_soa \<Rightarrow>
                        if serial new_soa \<le> serial existing_soa then Ok (False, s)
                        else insert_data r ser (s\<lparr>rs_records := []\<rparr>)
                    | _ \<Rightarrow> Ok (False, s))
               | _ \<Rightarrow> Panic))
      else if rr_type r = RT_CNAME then
        if length (rs_records s) > 1 then Panic else insert_data r ser (s\<lparr>rs_records := []\<rparr>)
      else insert_data r ser s)"

text \<open>\<open>Vec::remove\<close> panics out of range.\<close>

fun remove_loop :: "u32 \<Rightarrow> nat list \<Rightarrow> bool \<Rightarrow> rr_set \<Rightarrow> (bool \<times> rr_set, response_code) outcome" where
  "remove_loop ser [] removed s = Ok (removed, s)"
| "remove_loop ser (i # to_remove) removed s =
     (if i \<ge> length (rs_records s) then Panic
      else remove_loop ser to_remove True
        (rs_updated ser (s\<lparr>rs_records := take i (rs_records s) @ drop (Suc i) (rs_records s)\<rparr>)))"

definition rr_set_remove :: "resource \<Rightarrow> u32 \<Rightarrow> rr_set \<Rightarrow> (bool \<times> rr_set, response_code) outcome" where
  "rr_set_remove r ser s =
     (if \<not> name_eq (rr_name r) (rs_name s) \<or> \<not> (rr_type r = rs_type s \<or> rr_type r = RT_ANY) then Panic
      else if rr_type r = RT_NS \<and> length (rs_records s) \<le> 1 then Ok (False, s)
      else if rr_type r = RT_SOA then Ok (False, s)
      else remove_loop ser (matching (rr_rdata r) (rs_records s)) False s)"

definition new_record :: "rdata \<Rightarrow> rr_set \<Rightarrow> (resource \<times> rr_set, response_code) outcome" where
  "new_record rd s =
     (if rs_type s \<noteq> to_record_type rd then Panic
      else bind_outcome (rr_set_insert ((resource_with (rs_name s) (rs_type s) (rs_ttl s))\<lparr>rr_rdata := rd\<rparr>) 0 s)
        (\<lambda>(_, s'). case find (\<lambda>r. rdata_eq (rr_rdata r) rd) (rs_records s') of
             Some r \<Rightarrow> Ok (r, s')
           | None \<Rightarrow> Panic))"

definition rr_set_into_iter :: "rr_set \<Rightarrow> resource list" where
  "rr_set_into_iter s = rs_records s @ rs_rrsigs s"

section \<open>The invariant\<close>

text \<open>
  All records have the name and type of the set, their data are pairwise different, and an SOA or
  CNAME set holds at most one record; the data of an SOA set are SOA data.
\<close>

definition same_owner :: "rr_set \<Rightarrow> resource \<Rightarrow> bool" where
  "same_owner s r \<longleftrightarrow> name_eq (rr_name r) (rs_name s) \<and> rr_type r = rs_type s"

fun is_soa :: "rdata \<Rightarrow> bool" where
  "is_soa (RD_SOA _) = True"
| "is_soa _ = False"

definition distinct_data :: "resource list \<Rightarrow> bool" where
  "distinct_data rs \<longleftrightarrow> sorted_wrt (\<lambda>a b. \<not> rdata_eq (rr_rdata a) (rr_rdata b)) rs"

definition rr_set_inv :: "rr_set \<Rightarrow> bool" where
  "rr_set_inv s \<longleftrightarrow>
     list_all (same_owner s) (rs_records s) \<and> distinct_data (rs_records s) \<and>
     (rs_type s \<in> {RT_SOA, RT_CNAME} \<longrightarrow> length (rs_records s) \<le> 1) \<and>
     (rs_type s = RT_SOA \<longrightarrow> list_all (is_soa \<circ> rr_rdata) (rs_records s))"

text \<open>The abstract contents of a set: which data it holds, up to equality.\<close>

definition holds :: "resource list \<Rightarrow> rdata \<Rightarrow> bool" where
  "holds rs rd \<longleftrightarrow> list_ex (\<lambda>r. rdata_eq (rr_rdata r) rd) rs"

lemma holds_simps [simp]:
  "holds [] rd \<longleftrightarrow> False"
  "holds (r # rs) rd \<longleftrightarrow> rdata_eq (rr_rdata r) rd \<or> holds rs rd"
  "holds (rs @ rs') rd \<longleftrightarrow> holds rs rd \<or> holds rs' rd"
  by (simp_all add: holds_def)

lemma holds_cong: "rdata_eq a b \<Longrightarrow> holds rs a \<longleftrightarrow> holds rs b"
  by (induction rs) (auto dest: rdata_eq_right)

lemma distinct_data_simps [simp]:
  "distinct_data []"
  "distinct_data (r # rs) \<longleftrightarrow> \<not> holds rs (rr_rdata r) \<and> distinct_data rs"
  by (auto simp: distinct_data_def holds_def list_ex_iff rdata_eq_sym)

lemma distinct_data_append [simp]:
  "distinct_data (xs @ ys) \<longleftrightarrow>
     distinct_data xs \<and> distinct_data ys \<and> list_all (\<lambda>r. \<not> holds ys (rr_rdata r)) xs"
  by (induction xs) auto

lemma not_holds_all: "\<not> holds rs rd \<longleftrightarrow> list_all (\<lambda>r. \<not> rdata_eq (rr_rdata r) rd) rs"
  by (simp add: holds_def list_ex_iff list_all_iff)

text \<open>At most one record matches.\<close>

definition matching_from :: "nat \<Rightarrow> rdata \<Rightarrow> resource list \<Rightarrow> nat list" where
  "matching_from n rd rs = map fst (filter (\<lambda>(_, rr). rdata_eq (rr_rdata rr) rd) (List.enumerate n rs))"

lemma matching_from_simps [simp]:
  "matching_from n rd [] = []"
  "matching_from n rd (r # rs) =
     (if rdata_eq (rr_rdata r) rd then n # matching_from (Suc n) rd rs else matching_from (Suc n) rd rs)"
  by (simp_all add: matching_from_def)

lemma matching_from_none: "\<not> holds rs rd \<Longrightarrow> matching_from n rd rs = []"
  by (induction rs arbitrary: n) auto

lemma matching_from_one:
  "distinct_data rs \<Longrightarrow> holds rs rd \<Longrightarrow>
     \<exists>ys r zs. rs = ys @ r # zs \<and> matching_from n rd rs = [n + length ys] \<and> rdata_eq (rr_rdata r) rd \<and>
       \<not> holds ys rd \<and> \<not> holds zs rd"
proof (induction rs arbitrary: n)
  case (Cons x rs)
  show ?case
  proof (cases "rdata_eq (rr_rdata x) rd")
    case True
    with Cons.prems have "\<not> holds rs rd" by (simp add: holds_cong)
    with True show ?thesis by (intro exI [of _ "[]"] exI [of _ x] exI [of _ rs]) (simp add: matching_from_none)
  next
    case False
    with Cons.prems Cons.IH [of "Suc n"] obtain ys r zs where
      "rs = ys @ r # zs" "matching_from (Suc n) rd rs = [Suc n + length ys]" "rdata_eq (rr_rdata r) rd"
      "\<not> holds ys rd" "\<not> holds zs rd" by auto
    with False show ?thesis by (intro exI [of _ "x # ys"] exI [of _ r] exI [of _ zs]) simp
  qed
qed simp

lemma matching_cases:
  assumes "distinct_data rs"
  obtains (none) "\<not> holds rs rd" "matching rd rs = []"
  | (one) ys r zs where "rs = ys @ r # zs" "matching rd rs = [length ys]" "rdata_eq (rr_rdata r) rd"
      "\<not> holds ys rd" "\<not> holds zs rd"
proof -
  have "matching rd rs = matching_from 0 rd rs" by (simp add: matching_def matching_from_def)
  then show thesis
    using none one matching_from_none [of rs rd 0] matching_from_one [OF assms, of rd 0] by fastforce
qed

section \<open>Insertion and removal\<close>

lemma swap_remove_middle: "swap_remove (length ys) ((ys @ q # zs) @ [r]) = ys @ r # zs"
  by (simp add: swap_remove_def butlast_append)

lemma distinct_data_replace:
  assumes "distinct_data (ys @ q # zs)" "rdata_eq (rr_rdata q) (rr_rdata r)"
  shows "distinct_data (ys @ r # zs)"
  using assms holds_cong [OF assms(2), of zs]
  by (auto simp: list_all_iff) (metis rdata_eq_left rdata_eq_sym)

lemma insert_data_cases:
  assumes "distinct_data (rs_records s)"
  obtains (same) q where "q \<in> set (rs_records s)" "resource_eq q r" "insert_data r ser s = Ok (False, s)"
  | (replaced) ys q zs where "rs_records s = ys @ q # zs" "rdata_eq (rr_rdata q) (rr_rdata r)"
      "\<not> holds ys (rr_rdata r)" "\<not> holds zs (rr_rdata r)" "\<not> resource_eq q r"
      "insert_data r ser s =
         Ok (True, s\<lparr>rs_records := ys @ r # zs, rs_ttl := rr_ttl r, rs_serial := ser, rs_rrsigs := []\<rparr>)"
  | (added) "\<not> holds (rs_records s) (rr_rdata r)"
      "insert_data r ser s =
         Ok (True, s\<lparr>rs_records := rs_records s @ [r], rs_ttl := rr_ttl r, rs_serial := ser, rs_rrsigs := []\<rparr>)"
  using assms
proof (cases rule: matching_cases [where rd = "rr_rdata r"])
  case none
  then show thesis using added by (simp add: insert_data_def rs_updated_def)
next
  case (one ys q zs)
  then have nth: "length ys < length (rs_records s)" "rs_records s ! length ys = q" by simp_all
  show thesis
  proof (cases "resource_eq q r")
    case True
    then have "insert_data r ser s = Ok (False, s)" using nth by (simp add: insert_data_def one(2))
    with True show thesis by (intro same [of q]) (simp_all add: one(1))
  next
    case False
    have "swap_remove (length ys) (rs_records s @ [r]) = ys @ r # zs"
      unfolding one(1) by (rule swap_remove_middle)
    then have "insert_data r ser s =
        Ok (True, s\<lparr>rs_records := ys @ r # zs, rs_ttl := rr_ttl r, rs_serial := ser, rs_rrsigs := []\<rparr>)"
      using nth False by (simp add: insert_data_def one(2) rs_updated_def)
    with one False show thesis by (intro replaced [of ys q zs])
  qed
qed

text \<open>An SOA record replaces the one of the set only if its serial is greater.\<close>

definition newer_soa :: "resource \<Rightarrow> resource list \<Rightarrow> bool" where
  "newer_soa r rs \<longleftrightarrow>
     (case rs of [] \<Rightarrow> True
      | q # _ \<Rightarrow> (case (rr_rdata q, rr_rdata r) of (RD_SOA old, RD_SOA new) \<Rightarrow> serial old < serial new | _ \<Rightarrow> False))"

abbreviation changed_set :: "resource \<Rightarrow> u32 \<Rightarrow> resource list \<Rightarrow> rr_set \<Rightarrow> rr_set" where
  "changed_set r ser rs s \<equiv> s\<lparr>rs_records := rs, rs_ttl := rr_ttl r, rs_serial := ser, rs_rrsigs := []\<rparr>"

lemma insert_data_cleared:
  "insert_data r ser (s\<lparr>rs_records := []\<rparr>) = Ok (True, changed_set r ser [r] s)"
  by (simp add: insert_data_def matching_def rs_updated_def)

lemma insert_data_empty: "rs_records s = [] \<Longrightarrow> insert_data r ser s = Ok (True, changed_set r ser [r] s)"
  by (simp add: insert_data_def matching_def rs_updated_def)

lemma rr_set_insert_soa:
  assumes "rr_set_inv s" "same_owner s r" "rs_type s = RT_SOA"
  shows "rr_set_insert r ser s =
    (if newer_soa r (rs_records s) then Ok (True, changed_set r ser [r] s) else Ok (False, s))"
proof (cases "rs_records s")
  case Nil
  with assms show ?thesis by (simp add: rr_set_insert_def same_owner_def newer_soa_def insert_data_empty)
next
  case (Cons q rs)
  with assms have "rs = []" "is_soa (rr_rdata q)" by (auto simp: rr_set_inv_def)
  with assms Cons show ?thesis
    by (cases "rr_rdata q"; cases "rr_rdata r")
      (auto simp: rr_set_insert_def same_owner_def newer_soa_def insert_data_cleared)
qed

lemma rr_set_insert_cname:
  assumes "rr_set_inv s" "same_owner s r" "rs_type s = RT_CNAME"
  shows "rr_set_insert r ser s = Ok (True, changed_set r ser [r] s)"
  using assms by (simp add: rr_set_insert_def rr_set_inv_def same_owner_def insert_data_cleared)

lemma rr_set_insert_other:
  assumes "same_owner s r" "rs_type s \<notin> {RT_SOA, RT_CNAME}"
  shows "rr_set_insert r ser s = insert_data r ser s"
  using assms by (simp add: rr_set_insert_def same_owner_def)

lemma rr_set_insert_cases:
  assumes "rr_set_inv s" "same_owner s r"
  obtains (kept) "rr_set_insert r ser s = Ok (False, s)"
      "rs_type s = RT_SOA \<Longrightarrow> \<not> newer_soa r (rs_records s)"
      "rs_type s \<noteq> RT_SOA \<Longrightarrow> \<exists>q \<in> set (rs_records s). resource_eq q r"
  | (changed) rs where "rr_set_insert r ser s = Ok (True, changed_set r ser rs s)" "distinct_data rs"
      "set rs \<subseteq> insert r (set (rs_records s))" "r \<in> set rs"
      "rs_type s \<in> {RT_SOA, RT_CNAME} \<Longrightarrow> rs = [r]"
      "rs_type s = RT_SOA \<Longrightarrow> newer_soa r (rs_records s)"
      "rs_type s \<notin> {RT_SOA, RT_CNAME} \<Longrightarrow>
         holds rs = (\<lambda>rd. holds (rs_records s) rd \<or> rdata_eq (rr_rdata r) rd)"
proof -
  consider (soa) "rs_type s = RT_SOA" | (cname) "rs_type s = RT_CNAME" | (other) "rs_type s \<notin> {RT_SOA, RT_CNAME}"
    by blast
  then show thesis
  proof cases
    case soa
    show thesis
    proof (cases "newer_soa r (rs_records s)")
      case True
      then show thesis using rr_set_insert_soa [OF assms soa, of ser] soa by (intro changed [of "[r]"]) simp_all
    next
      case False
      then show thesis using rr_set_insert_soa [OF assms soa, of ser] soa by (intro kept) simp_all
    qed
  next
    case cname
    then show thesis using rr_set_insert_cname [OF assms cname, of ser] by (intro changed [of "[r]"]) simp_all
  next
    case other
    note insert = rr_set_insert_other [OF assms(2) other, of ser]
    from assms have dist: "distinct_data (rs_records s)" by (simp add: rr_set_inv_def)
    then show thesis
    proof (cases rule: insert_data_cases [where r = r and ser = ser])
      case (same q)
      then show thesis using other insert by (intro kept) auto
    next
      case (replaced ys q zs)
      have "distinct_data (ys @ r # zs)"
        using dist unfolding replaced(1) by (rule distinct_data_replace) (rule replaced(2))
      moreover have "holds (ys @ r # zs) = (\<lambda>rd. holds (rs_records s) rd \<or> rdata_eq (rr_rdata r) rd)"
        using rdata_eq_left [OF replaced(2)] unfolding replaced(1) by (auto simp: fun_eq_iff)
      ultimately show thesis using other insert replaced(1,6) by (intro changed [of "ys @ r # zs"]) auto
    next
      case added
      have "distinct_data (rs_records s @ [r])"
        using added(1) dist by (simp add: not_holds_all list_all_iff rdata_eq_sym)
      with added other insert show thesis
        by (intro changed [of "rs_records s @ [r]"]) (auto simp: fun_eq_iff)
    qed
  qed
qed

lemma rr_set_insert_inv:
  assumes "rr_set_inv s" "same_owner s r" "rs_type s = RT_SOA \<Longrightarrow> is_soa (rr_rdata r)"
    "rr_set_insert r ser s = Ok (b, s')"
  shows "rr_set_inv s'"
  using assms(1,2)
proof (cases rule: rr_set_insert_cases [where ser = ser])
  case kept
  with assms show ?thesis by simp
next
  case (changed rs)
  then have "s' = changed_set r ser rs s" using assms(4) by simp
  with changed assms(1-3) show ?thesis by (auto simp: rr_set_inv_def same_owner_def list_all_iff)
qed

text \<open>Removal: the last NS record and the SOA are kept, other matching data goes.\<close>

definition protected_set :: "record_type \<Rightarrow> rr_set \<Rightarrow> bool" where
  "protected_set rt s \<longleftrightarrow> rt = RT_SOA \<or> rt = RT_NS \<and> length (rs_records s) \<le> 1"

lemma rr_set_remove_cases:
  assumes "rr_set_inv s" "name_eq (rr_name r) (rs_name s)" "rr_type r = rs_type s \<or> rr_type r = RT_ANY"
  obtains (kept) "rr_set_remove r ser s = Ok (False, s)"
      "protected_set (rr_type r) s \<or> \<not> holds (rs_records s) (rr_rdata r)"
  | (removed) ys q zs where "rs_records s = ys @ q # zs" "rdata_eq (rr_rdata q) (rr_rdata r)"
      "\<not> holds (ys @ zs) (rr_rdata r)" "\<not> protected_set (rr_type r) s"
      "rr_set_remove r ser s = Ok (True, s\<lparr>rs_records := ys @ zs, rs_serial := ser, rs_rrsigs := []\<rparr>)"
proof (cases "protected_set (rr_type r) s")
  case True
  then show thesis using assms(2,3) by (intro kept) (auto simp: rr_set_remove_def protected_set_def)
next
  case False
  then have loop: "rr_set_remove r ser s = remove_loop ser (matching (rr_rdata r) (rs_records s)) False s"
    using assms(2,3) by (auto simp: rr_set_remove_def protected_set_def)
  from assms have "distinct_data (rs_records s)" by (simp add: rr_set_inv_def)
  then show thesis
  proof (cases rule: matching_cases [where rd = "rr_rdata r"])
    case none
    then show thesis using loop by (intro kept) simp_all
  next
    case (one ys q zs)
    have "rr_set_remove r ser s = Ok (True, s\<lparr>rs_records := ys @ zs, rs_serial := ser, rs_rrsigs := []\<rparr>)"
      unfolding loop one(2) using one(1) by (simp add: rs_updated_def)
    with one False show thesis by (intro removed [of ys q zs]) simp_all
  qed
qed

lemma rr_set_remove_inv:
  assumes "rr_set_inv s" "name_eq (rr_name r) (rs_name s)" "rr_type r = rs_type s \<or> rr_type r = RT_ANY"
    "rr_set_remove r ser s = Ok (b, s')"
  shows "rr_set_inv s'"
  using assms(1-3)
proof (cases rule: rr_set_remove_cases [where ser = ser])
  case kept
  with assms show ?thesis by simp
next
  case (removed ys q zs)
  have "s' = s\<lparr>rs_records := ys @ zs, rs_serial := ser, rs_rrsigs := []\<rparr>"
    using assms(4) unfolding removed(5) by simp
  then show ?thesis using assms(1) unfolding rr_set_inv_def removed(1)
    by (auto simp: same_owner_def list_all_iff)
qed

section \<open>The contract of a record set\<close>

text \<open>
  What an authority relies on: records that fit a set can be inserted and removed without a
  panic, and the set goes on fitting the same records.
\<close>

locale set_contract =
  fixes inv :: "'s \<Rightarrow> bool" and fits :: "'s \<Rightarrow> 'r \<Rightarrow> bool"
    and ins :: "'r \<Rightarrow> u32 \<Rightarrow> 's \<Rightarrow> (bool \<times> 's, response_code) outcome"
    and del :: "'r \<Rightarrow> u32 \<Rightarrow> 's \<Rightarrow> (bool \<times> 's, response_code) outcome"
  assumes ins_ok: "inv s \<Longrightarrow> fits s r \<Longrightarrow> \<exists>b s'. ins r ser s = Ok (b, s') \<and> inv s' \<and> fits s' = fits s"
    and del_ok: "inv s \<Longrightarrow> fits s r \<Longrightarrow> \<exists>b s'. del r ser s = Ok (b, s') \<and> inv s' \<and> fits s' = fits s"
begin

primrec ins_all :: "'r list \<Rightarrow> u32 \<Rightarrow> 's \<Rightarrow> ('s, response_code) outcome" where
  "ins_all [] ser s = Ok s"
| "ins_all (r # rs) ser s = bind_outcome (ins r ser s) (\<lambda>(_, s'). ins_all rs ser s')"

lemma ins_all_ok: "inv s \<Longrightarrow> list_all (fits s) rs \<Longrightarrow> \<exists>s'. ins_all rs ser s = Ok s' \<and> inv s' \<and> fits s' = fits s"
proof (induction rs arbitrary: s)
  case (Cons r rs)
  with ins_ok [of s r ser] obtain b s' where "ins r ser s = Ok (b, s')" "inv s'" "fits s' = fits s" by auto
  with Cons.IH [of s'] Cons.prems show ?case by simp
qed simp

end

definition set_fits :: "rr_set \<Rightarrow> resource \<Rightarrow> bool" where
  "set_fits s r \<longleftrightarrow> same_owner s r \<and> (rs_type s = RT_SOA \<longrightarrow> is_soa (rr_rdata r))"

lemma rr_set_insert_total:
  assumes "rr_set_inv s" "same_owner s r"
  shows "\<exists>b s'. rr_set_insert r ser s = Ok (b, s') \<and> rs_name s' = rs_name s \<and> rs_type s' = rs_type s"
  using assms by (cases rule: rr_set_insert_cases [where ser = ser]) auto

lemma rr_set_remove_total:
  assumes "rr_set_inv s" "same_owner s r"
  shows "\<exists>b s'. rr_set_remove r ser s = Ok (b, s') \<and> rs_name s' = rs_name s \<and> rs_type s' = rs_type s"
proof -
  from assms(2) have "name_eq (rr_name r) (rs_name s)" "rr_type r = rs_type s \<or> rr_type r = RT_ANY"
    by (simp_all add: same_owner_def)
  with assms(1) show ?thesis by (cases rule: rr_set_remove_cases [where ser = ser]) auto
qed

interpretation rs: set_contract rr_set_inv set_fits rr_set_insert rr_set_remove
proof
  fix s r ser
  assume a: "rr_set_inv s" "set_fits s r"
  then have o: "same_owner s r" "rs_type s = RT_SOA \<Longrightarrow> is_soa (rr_rdata r)" by (simp_all add: set_fits_def)
  obtain b s' where "rr_set_insert r ser s = Ok (b, s')" "rs_name s' = rs_name s" "rs_type s' = rs_type s"
    using rr_set_insert_total [OF a(1) o(1)] by blast
  with rr_set_insert_inv [OF a(1) o]
  show "\<exists>b s'. rr_set_insert r ser s = Ok (b, s') \<and> rr_set_inv s' \<and> set_fits s' = set_fits s"
    by (auto simp: set_fits_def same_owner_def fun_eq_iff)
  obtain b s' where "rr_set_remove r ser s = Ok (b, s')" "rs_name s' = rs_name s" "rs_type s' = rs_type s"
    using rr_set_remove_total [OF a(1) o(1)] by blast
  with rr_set_remove_inv [OF a(1)] o(1)
  show "\<exists>b s'. rr_set_remove r ser s = Ok (b, s') \<and> rr_set_inv s' \<and> set_fits s' = set_fits s"
    by (auto simp: set_fits_def same_owner_def fun_eq_iff)
qed

section \<open>Properties\<close>

lemma max_by_key_None: "max_by_key k xs = None \<longleftrightarrow> xs = []"
  by (cases xs) (auto split: option.splits)

lemma max_by_key_Some: "max_by_key k xs = Some y \<Longrightarrow> y \<in> set xs \<and> (\<forall>x \<in> set xs. k x \<le> k y)"
proof (induction xs arbitrary: y)
  case (Cons x xs)
  then show ?case by (fastforce simp: max_by_key_None split: option.splits if_splits)
qed simp

lemma insert_same:
  assumes "rr_set_inv s" "same_owner s r" "rs_type s \<notin> {RT_SOA, RT_CNAME}"
    "list_ex (\<lambda>q. resource_eq q r) (rs_records s)"
  shows "rr_set_insert r ser s = Ok (False, s)"
proof -
  from assms(4) obtain q where q: "q \<in> set (rs_records s)" "resource_eq q r" by (auto simp: list_ex_iff)
  have dist: "distinct_data (rs_records s)" using assms(1) by (simp add: rr_set_inv_def)
  note insert = rr_set_insert_other [OF assms(2,3), of ser]
  from q(2) have rd: "rdata_eq (rr_rdata q) (rr_rdata r)" by (simp add: resource_eq_def)
  from dist show ?thesis
  proof (cases rule: insert_data_cases [where r = r and ser = ser])
    case (replaced ys p zs)
    then have "q = p" using q(1) rd by (auto simp: holds_def list_ex_iff)
    with replaced(5) q(2) show ?thesis by simp
  next
    case added
    with q(1) rd show ?thesis by (auto simp: holds_def list_ex_iff)
  qed (simp add: insert)
qed

text \<open>
  C22. Inserting a record into a set of its name and type (other than SOA and CNAME) never panics
  and acts on the data as set insertion. The result tells whether an equal record was missing; if
  so the set takes the time-to-live of the record and the given serial and its signatures are
  dropped, otherwise nothing changes.
\<close>
theorem rr_set_insert_spec:
  assumes "rr_set_inv s" "same_owner s r" "rs_type s \<notin> {RT_SOA, RT_CNAME}"
  shows "\<exists>b s'. rr_set_insert r ser s = Ok (b, s') \<and> rr_set_inv s' \<and>
    holds (rs_records s') = (\<lambda>rd. holds (rs_records s) rd \<or> rdata_eq (rr_rdata r) rd) \<and>
    (b \<longleftrightarrow> \<not> list_ex (\<lambda>q. resource_eq q r) (rs_records s)) \<and>
    (if b then rs_ttl s' = rr_ttl r \<and> rs_serial s' = ser \<and> rs_rrsigs s' = [] else s' = s)"
proof -
  have same: "holds (rs_records s) = (\<lambda>rd. holds (rs_records s) rd \<or> rdata_eq (rr_rdata r) rd)"
    if "q \<in> set (rs_records s)" "resource_eq q r" for q
  proof -
    from that(2) have "rdata_eq (rr_rdata q) rd \<longleftrightarrow> rdata_eq (rr_rdata r) rd" for rd
      by (auto simp: resource_eq_def dest: rdata_eq_left)
    with that(1) show ?thesis by (auto simp: fun_eq_iff holds_def list_ex_iff)
  qed
  show ?thesis
  proof (cases "list_ex (\<lambda>q. resource_eq q r) (rs_records s)")
    case True
    then have "rr_set_insert r ser s = Ok (False, s)"
      by (rule insert_same [OF assms])
    with True assms(1) same show ?thesis by (auto simp: list_ex_iff)
  next
    case False
    with assms(1,2) show ?thesis
    proof (cases rule: rr_set_insert_cases [where ser = ser])
      case kept
      with assms(3) False show ?thesis by (auto simp: list_ex_iff)
    next
      case (changed rs)
      with rr_set_insert_inv [OF assms(1,2) _ changed(1)] assms(3) False show ?thesis by auto
    qed
  qed
qed

theorem rr_set_insert_spec_witness:
  "let s = rr_set_from (from_rdata (Name [''www'']) 60 RT_A (RD_A (Ipv4 10 0 0 1)));
       r = from_rdata (Name [''WWW'']) 30 RT_A (RD_A (Ipv4 10 0 0 2)) in
   \<exists>s'. rr_set_insert r 7 s = Ok (True, s') \<and> rr_set_inv s' \<and> rs_ttl s' = 30 \<and> rs_serial s' = 7 \<and>
     holds (rs_records s') (RD_A (Ipv4 10 0 0 1)) \<and> holds (rs_records s') (RD_A (Ipv4 10 0 0 2))"
proof -
  let ?s = "rr_set_from (from_rdata (Name [''www'']) 60 RT_A (RD_A (Ipv4 10 0 0 1)))"
  let ?r = "from_rdata (Name [''WWW'']) 30 RT_A (RD_A (Ipv4 10 0 0 2))"
  have "rr_set_inv ?s" "same_owner ?s ?r" "rs_type ?s \<notin> {RT_SOA, RT_CNAME}"
    "list_ex (\<lambda>q. resource_eq q ?r) (rs_records ?s) = False" "rr_ttl ?r = 30" by code_simp+
  moreover have "holds (rs_records ?s) (RD_A (Ipv4 10 0 0 1))" "rdata_eq (rr_rdata ?r) (RD_A (Ipv4 10 0 0 2))"
    by code_simp+
  ultimately show ?thesis using rr_set_insert_spec [of ?s ?r 7] by (auto simp: Let_def)
qed

text \<open>
  The SOA of a set is replaced only by one with a greater serial, compared as an unsigned
  number; CNAME data is always replaced; either way the set keeps exactly one record, the new one.
\<close>
lemma rr_set_insert_single:
  assumes "rr_set_inv s" "same_owner s r" "rs_type s \<in> {RT_SOA, RT_CNAME}"
  shows "rr_set_insert r ser s =
    (if rs_type s = RT_CNAME \<or> newer_soa r (rs_records s)
     then Ok (True, s\<lparr>rs_records := [r], rs_ttl := rr_ttl r, rs_serial := ser, rs_rrsigs := []\<rparr>)
     else Ok (False, s))"
  using assms rr_set_insert_soa [OF assms(1,2), of ser] rr_set_insert_cname [OF assms(1,2), of ser] by auto

text \<open>
  C23. Removing a record from a set of its name and type never panics and keeps the invariant. The
  SOA and the last NS record stay; in every other case exactly the data equal to that of the
  record is gone, and a change clears the signatures and records the serial.
\<close>
theorem rr_set_remove_spec:
  assumes "rr_set_inv s" "same_owner s r"
  shows "\<exists>b s'. rr_set_remove r ser s = Ok (b, s') \<and> rr_set_inv s' \<and>
    (b \<longleftrightarrow> \<not> protected_set (rr_type r) s \<and> holds (rs_records s) (rr_rdata r)) \<and>
    (if b then rs_serial s' = ser \<and> rs_rrsigs s' = [] \<and>
       holds (rs_records s') = (\<lambda>rd. holds (rs_records s) rd \<and> \<not> rdata_eq (rr_rdata r) rd)
     else s' = s)"
proof -
  from assms(2) have o: "name_eq (rr_name r) (rs_name s)" "rr_type r = rs_type s \<or> rr_type r = RT_ANY"
    by (simp_all add: same_owner_def)
  with assms(1) show ?thesis
  proof (cases rule: rr_set_remove_cases [where ser = ser])
    case kept
    with assms(1) show ?thesis by auto
  next
    case (removed ys q zs)
    have "holds (ys @ zs) = (\<lambda>rd. holds (rs_records s) rd \<and> \<not> rdata_eq (rr_rdata r) rd)"
      using removed(3) rdata_eq_left [OF removed(2)] holds_cong unfolding removed(1)
      by (fastforce simp: fun_eq_iff)
    with removed rr_set_remove_inv [OF assms(1) o removed(5)] show ?thesis by auto
  qed
qed

theorem rr_set_remove_spec_witness:
  "let r = from_rdata (Name [''www'']) 60 RT_A (RD_A (Ipv4 10 0 0 1)); s = rr_set_from r in
   \<exists>s'. rr_set_remove r 7 s = Ok (True, s') \<and> rr_set_inv s' \<and> \<not> holds (rs_records s') (RD_A (Ipv4 10 0 0 1))"
proof -
  let ?r = "from_rdata (Name [''www'']) 60 RT_A (RD_A (Ipv4 10 0 0 1))"
  let ?s = "rr_set_from ?r"
  have "rr_set_inv ?s" "same_owner ?s ?r" "protected_set (rr_type ?r) ?s = False"
    "holds (rs_records ?s) (rr_rdata ?r)" "rdata_eq (rr_rdata ?r) (RD_A (Ipv4 10 0 0 1))" by code_simp+
  then show ?thesis using rr_set_remove_spec [of ?s ?r 7] by (auto simp: Let_def)
qed

text \<open>
  A lookup that asks for signatures gets the records of the set followed by at most one
  signature: one of the set's own, of a supported algorithm, such that no other supported
  signature has a greater algorithm. It is missing only when no signature is supported.
\<close>
lemma get_records_best_signature:
  "get_records False sa s = rs_records s \<and>
   (\<exists>sigs. get_records True sa s = rs_records s @ sigs \<and> length sigs \<le> 1 \<and>
      (sigs = [] \<longleftrightarrow> filter (rrsig_supported sa) (rs_rrsigs s) = []) \<and>
      list_all (\<lambda>r. r \<in> set (rs_rrsigs s) \<and> rrsig_supported sa r \<and>
        list_all (\<lambda>q. rrsig_rank q \<le> rrsig_rank r) (filter (rrsig_supported sa) (rs_rrsigs s))) sigs)"
proof (cases "max_by_key rrsig_rank (filter (rrsig_supported sa) (rs_rrsigs s))")
  case None
  then show ?thesis by (simp add: get_records_def max_by_key_None)
next
  case (Some r)
  with max_by_key_Some [OF Some] show ?thesis
    by (intro conjI exI [of _ "[r]"]) (auto simp: get_records_def list_all_iff filter_empty_conv)
qed

end
