(* ===== verification/Messages.thy ===== *)
theory Messages
  imports Record_Set
begin

text \<open>
  Messages (\<open>op/header.rs\<close>, \<open>op/query.rs\<close>, \<open>op/edns.rs\<close>, \<open>op/message.rs\<close>): the header with its flags
  and counts, the question section, the record sections and the EDNS and SIG(0) records kept apart
  from the additional section. Writing a message and reading it back is shown to be a round trip.
\<close>

section \<open>Header\<close>

datatype message_type = MT_Query | MT_Response

record header =
  h_id :: u16
  h_message_type :: message_type
  h_op_code :: op_code
  authoritative :: bool
  truncation :: bool
  recursion_desired :: bool
  recursion_available :: bool
  authentic_data :: bool
  checking_disabled :: bool
  h_response_code :: u8
  query_count :: u16
  answer_count :: u16
  name_server_count :: u16
  additional_count :: u16

definition header_new :: header where
  "header_new =
     \<lparr>h_id = 0, h_message_type = MT_Query, h_op_code = OP_Query, authoritative = False, truncation = False,
      recursion_desired = False, recursion_available = False, authentic_data = False,
      checking_disabled = False, h_response_code = 0, query_count = 0, answer_count = 0,
      name_server_count = 0, additional_count = 0\<rparr>"

definition header_response_code :: "response_code \<Rightarrow> header \<Rightarrow> header" where
  "header_response_code rc h = h\<lparr>h_response_code := rcode_low rc\<rparr>"

definition header_clone :: "u16 \<Rightarrow> u16 \<Rightarrow> u16 \<Rightarrow> u16 \<Rightarrow> header \<Rightarrow> header" where
  "header_clone qc ac nc rc h =
     h\<lparr>query_count := qc, answer_count := ac, name_server_count := nc, additional_count := rc\<rparr>"

definition header_read :: "header dec" where
  "header_read =
     try_dec read_u16 (\<lambda>id.
     try_dec pop (\<lambda>q_opcd_a_t_r.
     try_dec (dec_lift (op_from_u8 (drop_bit 3 (0x78 AND q_opcd_a_t_r)))) (\<lambda>op_code.
     try_dec pop (\<lambda>r_z_ad_cd_rcod.
     try_dec read_u16 (\<lambda>qc.
     try_dec read_u16 (\<lambda>ac.
     try_dec read_u16 (\<lambda>nc.
     try_dec read_u16 (\<lambda>rc.
     dec_return
       \<lparr>h_id = id,
        h_message_type = (if 0x80 AND q_opcd_a_t_r = 0x80 then MT_Response else MT_Query),
        h_op_code = op_code,
        authoritative = (0x4 AND q_opcd_a_t_r = 0x4),
        truncation = (0x2 AND q_opcd_a_t_r = 0x2),
        recursion_desired = (0x1 AND q_opcd_a_t_r = 0x1),
        recursion_available = (0x80 AND r_z_ad_cd_rcod = 0x80),
        authentic_data = (0x20 AND r_z_ad_cd_rcod = 0x20),
        checking_disabled = (0x10 AND r_z_ad_cd_rcod = 0x10),
        h_response_code = 0x0F AND r_z_ad_cd_rcod,
        query_count = qc, answer_count = ac, name_server_count = nc, additional_count = rc\<rparr>))))))))"

definition q_opcd_a_t_r :: "header \<Rightarrow> u8" where
  "q_opcd_a_t_r h =
     (case h_message_type h of MT_Response \<Rightarrow> 0x80 | MT_Query \<Rightarrow> 0x00) OR
     push_bit 3 (op_to_u8 (h_op_code h)) OR
     (if authoritative h then 0x4 else 0x0) OR
     (if truncation h then 0x2 else 0x0) OR
     (if recursion_desired h then 0x1 else 0x0)"

definition r_z_ad_cd_rcod :: "header \<Rightarrow> u8" where
  "r_z_ad_cd_rcod h =
     (if recursion_available h then 0x80 else 0x00) OR
     (if authentic_data h then 0x20 else 0x00) OR
     (if checking_disabled h then 0x10 else 0x00) OR
     h_response_code h"

definition header_emit :: "header \<Rightarrow> enc" where
  "header_emit h =
     enc_seq [emit_u16 (h_id h), emit (q_opcd_a_t_r h), emit (r_z_ad_cd_rcod h),
              emit_u16 (query_count h), emit_u16 (answer_count h), emit_u16 (name_server_count h),
              emit_u16 (additional_count h)]"

section \<open>Queries\<close>

record query =
  q_name :: name
  q_type :: record_type
  q_class :: dns_class

definition query_new :: query where
  "query_new = \<lparr>q_name = name_new, q_type = RT_A, q_class = CL_IN\<rparr>"

definition query_read :: "query dec" where
  "query_read =
     try_dec name_read (\<lambda>name. try_dec rt_read (\<lambda>query_type. try_dec class_read (\<lambda>query_class.
     dec_return \<lparr>q_name = name, q_type = query_type, q_class = query_class\<rparr>)))"

definition query_emit :: "query \<Rightarrow> enc" where
  "query_emit q = enc_seq [name_emit (q_name q), rt_emit (q_type q), class_emit (q_class q)]"

section \<open>EDNS\<close>

record edns =
  rcode_high :: u8
  edns_version :: u8
  dnssec_ok :: bool
  max_payload :: u16
  edns_options :: opt

definition opt_default :: opt where
  "opt_default = \<lparr>opt_options = []\<rparr>"

definition edns_new :: edns where
  "edns_new = \<lparr>rcode_high = 0, edns_version = 0, dnssec_ok = False, max_payload = 512, edns_options = opt_default\<rparr>"

definition set_option :: "edns_option \<Rightarrow> edns \<Rightarrow> edns" where
  "set_option o' e = e\<lparr>edns_options := opt_insert o' (edns_options e)\<rparr>"

definition edns_of_record :: "resource \<Rightarrow> (edns, decode_error) outcome" where
  "edns_of_record value =
     (if rr_type value \<noteq> RT_OPT then Panic
      else bind_outcome
        (case rr_rdata value of
           RD_NULL _ \<Rightarrow> Ok opt_default
         | RD_OPT option_data \<Rightarrow> Ok option_data
         | _ \<Rightarrow> Panic)
        (\<lambda>options. Ok
          \<lparr>rcode_high = ucast (drop_bit 24 (rr_ttl value AND 0xFF000000)),
           edns_version = ucast (drop_bit 16 (rr_ttl value AND 0x00FF0000)),
           dnssec_ok = (rr_ttl value AND 0x00008000 = 0x00008000),
           max_payload = (if class_to_u16 (rr_class value) < 512 then 512 else class_to_u16 (rr_class value)),
           edns_options = options\<rparr>))"

definition edns_ttl :: "edns \<Rightarrow> u32" where
  "edns_ttl e =
     push_bit 24 (ucast (rcode_high e)) OR push_bit 16 (ucast (edns_version e)) OR
     (if dnssec_ok e then 0x00008000 else 0)"

definition edns_to_record :: "edns \<Rightarrow> resource" where
  "edns_to_record e =
     \<lparr>rr_name = name_root, rr_type = RT_OPT, rr_class = CL_OPT (max_payload e), rr_ttl = edns_ttl e,
      rr_rdata = RD_OPT (edns_options e)\<rparr>"

section \<open>Messages\<close>

record message =
  m_header :: header
  m_queries :: "query list"
  m_answers :: "resource list"
  m_name_servers :: "resource list"
  m_additionals :: "resource list"
  m_sig0 :: "resource list"
  m_edns :: "edns option"

definition message_new :: message where
  "message_new =
     \<lparr>m_header = header_new, m_queries = [], m_answers = [], m_name_servers = [], m_additionals = [],
      m_sig0 = [], m_edns = None\<rparr>"

definition get_response_code :: "message \<Rightarrow> (response_code, decode_error) outcome" where
  "get_response_code m =
     rcode_from (case m_edns m of Some e \<Rightarrow> rcode_high e | None \<Rightarrow> 0) (h_response_code (m_header m))"

definition error_msg :: "u16 \<Rightarrow> op_code \<Rightarrow> response_code \<Rightarrow> message" where
  "error_msg msg_id op rc =
     message_new\<lparr>m_header := (header_response_code rc
        (header_new\<lparr>h_message_type := MT_Response, h_id := msg_id\<rparr>))\<lparr>h_op_code := op\<rparr>\<rparr>"

definition truncate_message :: "message \<Rightarrow> (message, decode_error) outcome" where
  "truncate_message m =
     bind_outcome (get_response_code m) (\<lambda>rc.
     let h = m_header m;
         h' = header_new\<lparr>h_id := h_id h, h_message_type := h_message_type h, h_op_code := h_op_code h,
            authoritative := authoritative h, truncation := True, recursion_desired := recursion_desired h,
            recursion_available := recursion_available h\<rparr>
     in Ok (message_new\<lparr>m_header := header_response_code rc h', m_edns := m_edns m\<rparr>))"

definition message_response_code :: "response_code \<Rightarrow> message \<Rightarrow> message" where
  "message_response_code rc m = m\<lparr>m_header := header_response_code rc (m_header m)\<rparr>"

definition add_query :: "query \<Rightarrow> message \<Rightarrow> message" where
  "add_query q m = m\<lparr>m_queries := m_queries m @ [q]\<rparr>"

definition add_queries :: "query list \<Rightarrow> message \<Rightarrow> message" where
  "add_queries qs m = fold add_query qs m"

definition add_answer :: "resource \<Rightarrow> message \<Rightarrow> message" where
  "add_answer r m = m\<lparr>m_answers := m_answers m @ [r]\<rparr>"

definition add_answers :: "resource list \<Rightarrow> message \<Rightarrow> message" where
  "add_answers rs m = fold add_answer rs m"

definition add_name_server :: "resource \<Rightarrow> message \<Rightarrow> message" where
  "add_name_server r m = m\<lparr>m_name_servers := m_name_servers m @ [r]\<rparr>"

definition add_name_servers :: "resource list \<Rightarrow> message \<Rightarrow> message" where
  "add_name_servers rs m = fold add_name_server rs m"

definition add_additional :: "resource \<Rightarrow> message \<Rightarrow> message" where
  "add_additional r m = m\<lparr>m_additionals := m_additionals m @ [r]\<rparr>"

definition insert_answers :: "resource list \<Rightarrow> message \<Rightarrow> (message, 'e) outcome" where
  "insert_answers rs m = (if m_answers m \<noteq> [] then Panic else Ok (m\<lparr>m_answers := rs\<rparr>))"

definition insert_name_servers :: "resource list \<Rightarrow> message \<Rightarrow> (message, 'e) outcome" where
  "insert_name_servers rs m = (if m_name_servers m \<noteq> [] then Panic else Ok (m\<lparr>m_name_servers := rs\<rparr>))"

definition insert_additionals :: "resource list \<Rightarrow> message \<Rightarrow> (message, 'e) outcome" where
  "insert_additionals rs m = (if m_additionals m \<noteq> [] then Panic else Ok (m\<lparr>m_additionals := rs\<rparr>))"

definition set_edns :: "edns \<Rightarrow> message \<Rightarrow> message" where
  "set_edns e m = m\<lparr>m_edns := Some e\<rparr>"

definition get_edns_mut :: "message \<Rightarrow> edns \<times> message" where
  "get_edns_mut m = (case m_edns m of Some e \<Rightarrow> (e, m) | None \<Rightarrow> (edns_new, m\<lparr>m_edns := Some edns_new\<rparr>))"

definition add_sig0 :: "resource \<Rightarrow> message \<Rightarrow> (message, 'e) outcome" where
  "add_sig0 r m = (if rr_type r \<noteq> RT_SIG then Panic else Ok (m\<lparr>m_sig0 := m_sig0 m @ [r]\<rparr>))"

definition take_answers :: "message \<Rightarrow> resource list \<times> message" where
  "take_answers m = (m_answers m, m\<lparr>m_answers := []\<rparr>)"

definition take_name_servers :: "message \<Rightarrow> resource list \<times> message" where
  "take_name_servers m = (m_name_servers m, m\<lparr>m_name_servers := []\<rparr>)"

definition take_additionals :: "message \<Rightarrow> resource list \<times> message" where
  "take_additionals m = (m_additionals m, m\<lparr>m_additionals := []\<rparr>)"

definition get_max_payload :: "message \<Rightarrow> u16" where
  "get_max_payload m =
     (let max_size = (case m_edns m of Some e \<Rightarrow> max_payload e | None \<Rightarrow> 512) in
      if max_size < 512 then 512 else max_size)"

definition get_version :: "message \<Rightarrow> u8" where
  "get_version m = (case m_edns m of Some e \<Rightarrow> edns_version e | None \<Rightarrow> 0)"

text \<open>The update view of a message: zones, prerequisites and updates.\<close>

definition get_zones :: "message \<Rightarrow> query list" where
  "get_zones m = m_queries m"

definition get_pre_requisites :: "message \<Rightarrow> resource list" where
  "get_pre_requisites m = m_answers m"

definition get_updates :: "message \<Rightarrow> resource list" where
  "get_updates m = m_name_servers m"

definition add_zone :: "query \<Rightarrow> message \<Rightarrow> message" where
  "add_zone q m = add_query q m"

definition add_pre_requisite :: "resource \<Rightarrow> message \<Rightarrow> message" where
  "add_pre_requisite r m = add_answer r m"

definition add_update :: "resource \<Rightarrow> message \<Rightarrow> message" where
  "add_update r m = add_name_server r m"

text \<open>The counts; the EDNS record is not part of the asserted sum.\<close>

definition update_header_counts :: "bool \<Rightarrow> message \<Rightarrow> (header, 'e) outcome" where
  "update_header_counts include_sig0 m =
     (if \<not> fits_u16 (length (m_queries m)) \<or> \<not> fits_u16 (length (m_answers m)) \<or>
         \<not> fits_u16 (length (m_name_servers m)) \<or>
         \<not> fits_u16 (length (m_additionals m) + length (m_sig0 m))
      then Panic
      else
        let n = length (m_additionals m);
            n = (if m_edns m \<noteq> None then n + 1 else n);
            n = (if include_sig0 then n + length (m_sig0 m) else n)
        in Ok (header_clone (of_nat (length (m_queries m))) (of_nat (length (m_answers m)))
                 (of_nat (length (m_name_servers m))) (of_nat n) (m_header m)))"

text \<open>The loop of \<open>read_records\<close>; its state is \<open>records\<close>, \<open>edns\<close>, \<open>sig0s\<close> and \<open>saw_sig0\<close>.\<close>

definition sig0_not_last :: decode_error where
  "sig0_not_last = Message ''sig0 must be final resource record''"

definition second_edns :: decode_error where
  "second_edns = Message ''more than one edns record present''"

fun records_loop ::
  "nat \<Rightarrow> bool \<Rightarrow> resource list \<Rightarrow> edns option \<Rightarrow> resource list \<Rightarrow> bool \<Rightarrow>
     (resource list \<times> edns option \<times> resource list) dec" where
  "records_loop 0 is_additional records edns sig0s saw_sig0 = dec_return (records, edns, sig0s)"
| "records_loop (Suc n) is_additional records edns sig0s saw_sig0 =
     try_dec resource_read (\<lambda>r.
       if \<not> is_additional then
         if saw_sig0 then dec_fail sig0_not_last
         else records_loop n is_additional (records @ [r]) edns sig0s saw_sig0
       else if rr_type r = RT_SIG then
         records_loop n is_additional records edns (sig0s @ [r]) True
       else if rr_type r = RT_OPT then
         if saw_sig0 then dec_fail sig0_not_last
         else if edns \<noteq> None then dec_fail second_edns
         else try_dec (dec_lift (edns_of_record r)) (\<lambda>e. records_loop n is_additional records (Some e) sig0s saw_sig0)
       else
         if saw_sig0 then dec_fail sig0_not_last
         else records_loop n is_additional (records @ [r]) edns sig0s saw_sig0)"

definition read_records :: "nat \<Rightarrow> bool \<Rightarrow> (resource list \<times> edns option \<times> resource list) dec" where
  "read_records count is_additional = records_loop count is_additional [] None [] False"

definition emit_records :: "resource list \<Rightarrow> enc" where
  "emit_records rs = enc_seq (map resource_emit rs)"

definition message_read :: "message dec" where
  "message_read =
     try_dec header_read (\<lambda>header.
     try_dec (dec_times (unat (query_count header)) query_read) (\<lambda>queries.
     try_dec (read_records (unat (answer_count header)) False) (\<lambda>(answers, _, _).
     try_dec (read_records (unat (name_server_count header)) False) (\<lambda>(name_servers, _, _).
     try_dec (read_records (unat (additional_count header)) True) (\<lambda>(additionals, edns, sig0).
     dec_return
       \<lparr>m_header = header, m_queries = queries, m_answers = answers, m_name_servers = name_servers,
        m_additionals = additionals, m_sig0 = sig0, m_edns = edns\<rparr>)))))"

definition message_emit :: "message \<Rightarrow> enc" where
  "message_emit m e =
     (let include_sig0 = (e_mode e \<noteq> Signing) in
      case update_header_counts include_sig0 m of
        Ok h \<Rightarrow>
          enc_seq
            ([header_emit h] @ map query_emit (m_queries m) @
             [emit_records (m_answers m), emit_records (m_name_servers m), emit_records (m_additionals m)] @
             (case m_edns m of Some edns \<Rightarrow> [resource_emit (edns_to_record edns)] | None \<Rightarrow> []) @
             (if include_sig0 then [emit_records (m_sig0 m)] else [])) e
      | Err x \<Rightarrow> (Err x, e)
      | Panic \<Rightarrow> (Panic, e)
      | Overrun \<Rightarrow> (Overrun, e))"

definition message_from_vec :: "bytes \<Rightarrow> (message, decode_error) outcome" where
  "message_from_vec buffer = bind_outcome (message_read (new_decoder buffer)) (\<lambda>(m, _). Ok m)"

definition message_to_vec :: "message \<Rightarrow> (bytes, encode_error) outcome" where
  "message_to_vec m =
     (case message_emit m (new_encoder []) of
        (Ok _, e) \<Rightarrow> Ok (e_buffer e)
      | (Err x, _) \<Rightarrow> Err x
      | (Panic, _) \<Rightarrow> Panic
      | (Overrun, _) \<Rightarrow> Overrun)"

section \<open>The codec of the header\<close>

lemma try_dec_lift_Ok: "try_dec (dec_lift (Ok x)) f = f x"
  by (simp add: fun_eq_iff try_dec_def dec_lift_def)

definition flag_octets_ok :: "bool \<Rightarrow> bool \<Rightarrow> bool \<Rightarrow> u8 \<Rightarrow> bool" where
  "flag_octets_ok ra ad cd rc =
     (let b = (if ra then 0x80 else 0x00) OR (if ad then 0x20 else 0x00) OR (if cd then 0x10 else 0x00) OR rc in
      (0x80 AND b = 0x80) = ra \<and> (0x20 AND b = 0x20) = ad \<and> (0x10 AND b = 0x10) = cd \<and> 0x0F AND b = rc)"

lemma flag_octets: "rc < 16 \<Longrightarrow> flag_octets_ok ra ad cd rc"
proof -
  assume rc: "rc < 16"
  let ?bs = "[False, True]"
  have "list_all (\<lambda>ra. list_all (\<lambda>ad. list_all (\<lambda>cd. list_all (\<lambda>n. flag_octets_ok ra ad cd (of_nat n))
      [0..<16]) ?bs) ?bs) ?bs"
    by code_simp
  then have "list_all (\<lambda>n. flag_octets_ok ra ad cd (of_nat n)) [0..<16]" by (cases ra; cases ad; cases cd) simp_all
  moreover have "unat rc \<in> set [0..<16]" using rc by (simp add: word_less_nat_alt)
  ultimately have "flag_octets_ok ra ad cd (of_nat (unat rc))" unfolding list_all_iff by blast
  then show ?thesis by simp
qed

lemma r_z_ad_cd_rcod_bits:
  assumes "h_response_code h < 16"
  shows "(0x80 AND r_z_ad_cd_rcod h = 0x80) = recursion_available h"
    "(0x20 AND r_z_ad_cd_rcod h = 0x20) = authentic_data h"
    "(0x10 AND r_z_ad_cd_rcod h = 0x10) = checking_disabled h"
    "0x0F AND r_z_ad_cd_rcod h = h_response_code h"
  using flag_octets [OF assms] unfolding flag_octets_ok_def r_z_ad_cd_rcod_def Let_def by blast+

lemma q_opcd_a_t_r_bits:
  "(if 0x80 AND q_opcd_a_t_r h = 0x80 then MT_Response else MT_Query) = h_message_type h"
  "op_from_u8 (drop_bit 3 (0x78 AND q_opcd_a_t_r h)) = Ok (h_op_code h)"
  "(0x4 AND q_opcd_a_t_r h = 0x4) = authoritative h"
  "(0x2 AND q_opcd_a_t_r h = 0x2) = truncation h"
  "(0x1 AND q_opcd_a_t_r h = 0x1) = recursion_desired h"
  by (cases "h_message_type h"; cases "h_op_code h"; cases "authoritative h"; cases "truncation h";
      cases "recursion_desired h"; simp add: q_opcd_a_t_r_def op_from_u8_def)+

lemma writes_header:
  assumes "h_response_code h < 16"
  shows "writes c (header_emit h) header_read h"
proof -
  have "writes c (header_emit h) header_read
    \<lparr>h_id = h_id h, h_message_type = h_message_type h, h_op_code = h_op_code h,
     authoritative = authoritative h, truncation = truncation h, recursion_desired = recursion_desired h,
     recursion_available = recursion_available h, authentic_data = authentic_data h,
     checking_disabled = checking_disabled h, h_response_code = h_response_code h,
     query_count = query_count h, answer_count = answer_count h, name_server_count = name_server_count h,
     additional_count = additional_count h\<rparr>"
    unfolding header_emit_def header_read_def
    by (rule writes_Cons [OF writes_integers(2)], rule writes_Cons [OF writes_pop],
        simp only: q_opcd_a_t_r_bits try_dec_lift_Ok, rule writes_Cons [OF writes_pop],
        (simp only: r_z_ad_cd_rcod_bits [OF assms])?, (rule codec)+)
  then show ?thesis by (cases h) simp
qed

section \<open>The codecs of queries and of EDNS\<close>

definition wf_query :: "query \<Rightarrow> bool" where
  "wf_query q \<longleftrightarrow> wf_name (q_name q) \<and> q_type q \<noteq> RT_IXFR \<and> (case q_class q of CL_OPT _ \<Rightarrow> False | _ \<Rightarrow> True)"

lemma writes_query:
  assumes "wf_query q"
  shows "writes c (query_emit q) query_read q"
proof -
  have w: "wf_name (q_name q)" "q_type q \<noteq> RT_IXFR" "\<And>v. q_class q \<noteq> CL_OPT v"
    using assms by (auto simp: wf_query_def)
  have "writes c (query_emit q) query_read \<lparr>q_name = q_name q, q_type = q_type q, q_class = q_class q\<rparr>"
    unfolding query_emit_def query_read_def by (rule codec w)+
  then show ?thesis by (cases q) simp
qed

interpretation query_codec: wire_codec query_emit query_read wf_query
  by unfold_locales (rule writes_query)

definition wf_edns :: "edns \<Rightarrow> bool" where
  "wf_edns e \<longleftrightarrow> 512 \<le> max_payload e \<and> wf_opt (edns_options e)"

lemma edns_ttl_fields:
  "ucast (drop_bit 24 (edns_ttl e AND 0xFF000000)) = rcode_high e"
  "ucast (drop_bit 16 (edns_ttl e AND 0x00FF0000)) = edns_version e"
  "(edns_ttl e AND 0x00008000 = 0x00008000) = dnssec_ok e"
proof -
  have masks: "(0xFF000000 :: u32) = push_bit 24 (mask 8)" "(0x00FF0000 :: u32) = push_bit 16 (mask 8)"
    by (simp_all add: mask_eq_exp_minus_1)
  have high: "\<not> bit (b :: u8) (8 + n)" for b n using bit_imp_le_length [of b "8 + n"] by auto
  have flag: "(if b then 0x00008000 else 0 :: u32) = push_bit 15 (of_bool b)" for b by simp
  note bits = bit_simps high bit_of_bool_iff
  show "ucast (drop_bit 24 (edns_ttl e AND 0xFF000000)) = rcode_high e"
    unfolding masks edns_ttl_def flag by (rule bit_word_eqI) (auto simp: bits)
  show "ucast (drop_bit 16 (edns_ttl e AND 0x00FF0000)) = edns_version e"
    unfolding masks edns_ttl_def flag by (rule bit_word_eqI) (auto simp: bits)
  have "edns_ttl e AND push_bit 15 (of_bool c) = push_bit 15 (of_bool (c \<and> dnssec_ok e))" for c
    unfolding edns_ttl_def flag by (rule bit_word_eqI) (auto simp: bits)
  from this [of True]
  show "(edns_ttl e AND 0x00008000 = 0x00008000) = dnssec_ok e" by simp
qed

lemma edns_of_to_record:
  assumes "wf_edns e"
  shows "edns_of_record (normal_resource (edns_to_record e)) = Ok e"
proof -
  have "(case normal_rdata (RD_OPT (edns_options e)) of RD_NULL _ \<Rightarrow> Ok opt_default | RD_OPT x \<Rightarrow> Ok x | _ \<Rightarrow> Panic)
      = (Ok (edns_options e) :: (opt, decode_error) outcome)"
    by (cases "edns_options e") (simp add: null_new_def opt_default_def)
  moreover have "max_payload e \<ge> 512" using assms by (simp add: wf_edns_def)
  ultimately show ?thesis
    unfolding edns_of_record_def edns_to_record_def normal_resource_def
    by (simp only: resource.simps edns_ttl_fields class_to_u16.simps not_less [symmetric] bind_outcome.simps
      if_False simp_thms) simp
qed

lemma wf_edns_record: "wf_edns e \<Longrightarrow> wf_resource (edns_to_record e)"
  by (simp add: wf_resource_def edns_to_record_def wf_edns_def wf_class_def is_root_def name_root_def name_new_def wf_name_def
    emittable_def holds_rdata_def)

section \<open>The codec of messages\<close>

lemma enc_seq_nested: "enc_seq (ms @ ns) = enc_seq [enc_seq ms, enc_seq ns]"
  by (rule ext) (rule enc_seq_append)

lemma writes_append:
  assumes "writes c (enc_seq ms) r x" "writes c (enc_seq ns) (f x) y"
  shows "writes c (enc_seq (ms @ ns)) (try_dec r f) y"
  unfolding enc_seq_nested using assms(2) by (intro writes_Cons [OF assms(1)]) (simp only: writes_single)

lemma records_loop_section:
  assumes "list_all wf_resource rs"
  shows "writes False (enc_seq (map resource_emit rs)) (records_loop (length rs) False acc ed sg False)
    (acc @ map normal_resource rs, ed, sg)"
  using assms
proof (induction rs arbitrary: acc)
  case Nil
  show ?case by (simp del: enc_seq.simps) (rule writes_Nil)
next
  case (Cons r rs)
  then have "writes False (resource_emit r) resource_read (normal_resource r)" by (simp add: writes_resource)
  moreover have "writes False (enc_seq (map resource_emit rs))
      (records_loop (length rs) False (acc @ [normal_resource r]) ed sg False)
      (acc @ map normal_resource (r # rs), ed, sg)"
    using Cons.IH [of "acc @ [normal_resource r]"] Cons.prems by simp
  ultimately show ?case
    by (simp only: list.map list.size add_0_right add_Suc_right records_loop.simps) (rule writes_Cons, simp_all)
qed

lemma records_loop_sigs:
  assumes "list_all (\<lambda>r. wf_resource r \<and> rr_type r = RT_SIG) rs"
  shows "writes False (enc_seq (map resource_emit rs)) (records_loop (length rs) True acc ed sg saw)
    (acc, ed, sg @ map normal_resource rs)"
  using assms
proof (induction rs arbitrary: sg saw)
  case Nil
  show ?case by (simp del: enc_seq.simps) (rule writes_Nil)
next
  case (Cons r rs)
  then have w: "writes False (resource_emit r) resource_read (normal_resource r)" by (simp add: writes_resource)
  have sig: "rr_type (normal_resource r) = RT_SIG" using Cons.prems by (simp add: normal_resource_def)
  have ih: "writes False (enc_seq (map resource_emit rs))
      (records_loop (length rs) True acc ed (sg @ [normal_resource r]) True)
      (acc, ed, sg @ map normal_resource (r # rs))"
    using Cons.IH [of "sg @ [normal_resource r]" True] Cons.prems by simp
  show ?case
    unfolding list.map(2) list.size add_0_right add_Suc_right records_loop.simps
    by (rule writes_Cons [OF w], simp only: sig simp_thms if_True if_False, use ih in simp)
qed

definition edns_records :: "message \<Rightarrow> resource list" where
  "edns_records m = (case m_edns m of Some e \<Rightarrow> [edns_to_record e] | None \<Rightarrow> [])"

lemma records_loop_edns:
  assumes "\<And>e. m_edns m = Some e \<Longrightarrow> wf_edns e"
    and sigs: "list_all (\<lambda>r. wf_resource r \<and> rr_type r = RT_SIG) rs"
  shows "writes False (enc_seq (map resource_emit (edns_records m @ rs)))
    (records_loop (length (edns_records m @ rs)) True acc None [] False) (acc, m_edns m, map normal_resource rs)"
proof (cases "m_edns m")
  case None
  with records_loop_sigs [OF sigs, of acc None "[]" False] show ?thesis by (simp add: edns_records_def)
next
  case (Some e)
  with assms(1) have e: "wf_edns e" by simp
  let ?r = "normal_resource (edns_to_record e)"
  have w: "writes False (resource_emit (edns_to_record e)) resource_read ?r"
    using e by (intro writes_resource wf_edns_record)
  have opt: "rr_type ?r = RT_OPT" by (simp add: normal_resource_def edns_to_record_def)
  show ?thesis
    unfolding edns_records_def Some option.case append_Cons append_Nil list.map(2) list.size add_0_right add_Suc_right
      records_loop.simps
    by (rule writes_Cons [OF w], simp only: opt record_type.distinct simp_thms if_True if_False edns_of_to_record [OF e]
        try_dec_lift_Ok, use records_loop_sigs [OF sigs, of acc "Some e" "[]" False] in simp)
qed

lemma records_loop_additionals:
  assumes "list_all (\<lambda>r. wf_resource r \<and> rr_type r \<notin> {RT_SIG, RT_OPT}) rs"
    and base: "\<And>acc. writes False (enc_seq ms) (records_loop n True acc None [] False) (acc, ed, sg)"
  shows "writes False (enc_seq (map resource_emit rs @ ms)) (records_loop (length rs + n) True acc None [] False)
    (acc @ map normal_resource rs, ed, sg)"
  using assms(1)
proof (induction rs arbitrary: acc)
  case Nil
  show ?case using base by simp
next
  case (Cons r rs)
  then have w: "writes False (resource_emit r) resource_read (normal_resource r)" by (simp add: writes_resource)
  have other: "rr_type (normal_resource r) \<noteq> RT_SIG" "rr_type (normal_resource r) \<noteq> RT_OPT"
    using Cons.prems by (simp_all add: normal_resource_def)
  have ih: "writes False (enc_seq (map resource_emit rs @ ms))
      (records_loop (length rs + n) True (acc @ [normal_resource r]) None [] False)
      (acc @ map normal_resource (r # rs), ed, sg)"
    using Cons.IH [of "acc @ [normal_resource r]"] Cons.prems by simp
  show ?case
    unfolding list.map(2) list.size add_0_right add_Suc_right add_Suc append_Cons records_loop.simps
    by (rule writes_Cons [OF w], simp only: other simp_thms if_True if_False, use ih in simp)
qed

lemma writes_finish: "writes c m r x \<Longrightarrow> f x = dec_return y \<Longrightarrow> writes c m (try_dec r f) y"
  by (subst writes_single [symmetric], rule writes_Cons, assumption, simp only: writes_Nil)

definition wf_message :: "message \<Rightarrow> bool" where
  "wf_message m \<longleftrightarrow>
     h_response_code (m_header m) < 16 \<and> list_all wf_query (m_queries m) \<and>
     list_all wf_resource (m_answers m) \<and> list_all wf_resource (m_name_servers m) \<and>
     list_all (\<lambda>r. wf_resource r \<and> rr_type r \<notin> {RT_SIG, RT_OPT}) (m_additionals m) \<and>
     list_all (\<lambda>r. wf_resource r \<and> rr_type r = RT_SIG) (m_sig0 m) \<and>
     (case m_edns m of Some e \<Rightarrow> wf_edns e \<and> fits_u16 (length (m_additionals m) + length (m_sig0 m) + 1) | None \<Rightarrow> True)"

definition normal_message :: "message \<Rightarrow> message" where
  "normal_message m =
     m\<lparr>m_answers := map normal_resource (m_answers m), m_name_servers := map normal_resource (m_name_servers m),
       m_additionals := map normal_resource (m_additionals m), m_sig0 := map normal_resource (m_sig0 m)\<rparr>"

text \<open>The message as written in one mode: when signing, without its SIG(0) records.\<close>

definition mode_message :: "bool \<Rightarrow> message \<Rightarrow> message" where
  "mode_message include_sig0 m = (if include_sig0 then m else m\<lparr>m_sig0 := []\<rparr>)"

definition message_parts :: "message \<Rightarrow> header \<Rightarrow> enc list" where
  "message_parts m h =
     [header_emit h] @ map query_emit (m_queries m) @ map resource_emit (m_answers m) @
     map resource_emit (m_name_servers m) @ map resource_emit (m_additionals m) @
     map resource_emit (edns_records m @ m_sig0 m)"

lemma update_header_counts_Ok:
  assumes "update_header_counts incl m = Ok h" "wf_message m"
  shows "unat (query_count h) = length (m_queries m)" "unat (answer_count h) = length (m_answers m)"
    "unat (name_server_count h) = length (m_name_servers m)"
    "unat (additional_count h) =
       length (m_additionals m) + length (edns_records m @ m_sig0 (mode_message incl m))"
    "h_response_code h = h_response_code (m_header m)"
proof -
  from assms(1) have fits: "fits_u16 (length (m_queries m))" "fits_u16 (length (m_answers m))"
    "fits_u16 (length (m_name_servers m))" "fits_u16 (length (m_additionals m) + length (m_sig0 m))"
    by (auto simp: update_header_counts_def split: if_splits)
  let ?n = "length (m_additionals m) + length (edns_records m @ m_sig0 (mode_message incl m))"
  have "(if incl then (if m_edns m \<noteq> None then length (m_additionals m) + 1 else length (m_additionals m)) + length (m_sig0 m)
      else (if m_edns m \<noteq> None then length (m_additionals m) + 1 else length (m_additionals m))) = ?n"
    by (auto simp: edns_records_def mode_message_def split: option.splits)
  with assms(1) fits have h: "h = header_clone (of_nat (length (m_queries m))) (of_nat (length (m_answers m)))
      (of_nat (length (m_name_servers m))) (of_nat ?n) (m_header m)"
    unfolding update_header_counts_def Let_def by simp
  show "unat (query_count h) = length (m_queries m)" "unat (answer_count h) = length (m_answers m)"
    "unat (name_server_count h) = length (m_name_servers m)" "h_response_code h = h_response_code (m_header m)"
    using fits unfolding h by (simp_all add: header_clone_def fits_u16_def)
  have "additional_count h = of_nat ?n" unfolding h by (simp add: header_clone_def)
  moreover have "?n < 65536" using assms(2) fits(4)
    by (auto simp: wf_message_def fits_u16_def edns_records_def mode_message_def split: option.splits)
  ultimately show "unat (additional_count h) = ?n" by (simp only: unat_of_nat_u16)
qed

lemma writes_message_parts:
  assumes "wf_message m" "h_response_code h < 16"
    "unat (query_count h) = length (m_queries m)" "unat (answer_count h) = length (m_answers m)"
    "unat (name_server_count h) = length (m_name_servers m)"
    "unat (additional_count h) = length (m_additionals m) + length (edns_records m @ m_sig0 m)"
  shows "writes False (enc_seq (message_parts m h)) message_read ((normal_message m)\<lparr>m_header := h\<rparr>)"
proof -
  have wf: "list_all wf_query (m_queries m)" "list_all wf_resource (m_answers m)"
    "list_all wf_resource (m_name_servers m)"
    "list_all (\<lambda>r. wf_resource r \<and> rr_type r \<notin> {RT_SIG, RT_OPT}) (m_additionals m)"
    "list_all (\<lambda>r. wf_resource r \<and> rr_type r = RT_SIG) (m_sig0 m)" "\<And>e. m_edns m = Some e \<Longrightarrow> wf_edns e"
    using assms(1) by (auto simp: wf_message_def)
  have sect: "writes False (enc_seq (map resource_emit rs)) (read_records (length rs) False)
      (map normal_resource rs, None, [])" if "list_all wf_resource rs" for rs
    using records_loop_section [OF that, of "[]" None "[]"] by (simp add: read_records_def)
  have base: "writes False (enc_seq (map resource_emit (edns_records m @ m_sig0 m)))
      (records_loop (length (edns_records m @ m_sig0 m)) True acc None [] False)
      (acc, m_edns m, map normal_resource (m_sig0 m))" for acc
    by (rule records_loop_edns [OF _ wf(5)]) (rule wf(6))
  have loop: "writes False (enc_seq (map resource_emit (m_additionals m) @ map resource_emit (edns_records m @ m_sig0 m)))
      (read_records (unat (additional_count h)) True)
      (map normal_resource (m_additionals m), m_edns m, map normal_resource (m_sig0 m))"
    unfolding assms(6) read_records_def
    using records_loop_additionals [OF wf(4) base, of "[]"] by simp
  have "writes False (enc_seq (message_parts m h)) message_read
    \<lparr>m_header = h, m_queries = m_queries m, m_answers = map normal_resource (m_answers m),
     m_name_servers = map normal_resource (m_name_servers m), m_additionals = map normal_resource (m_additionals m),
     m_sig0 = map normal_resource (m_sig0 m), m_edns = m_edns m\<rparr>"
    unfolding message_parts_def message_read_def append_Cons append_Nil
    by (rule writes_Cons [OF writes_header [OF assms(2)]],
        rule writes_append, unfold assms(3), rule query_codec.put_get_list [OF wf(1)],
        rule writes_append, unfold assms(4), rule sect [OF wf(2)], unfold prod.case,
        rule writes_append, unfold assms(5), rule sect [OF wf(3)], unfold prod.case,
        rule writes_finish [OF loop], simp)
  then show ?thesis by (cases m) (simp add: normal_message_def)
qed

lemma enc_seq_prefix_cong: "enc_seq ms = enc_seq ns \<Longrightarrow> enc_seq (xs @ ms) = enc_seq (xs @ ns)"
  by (simp only: enc_seq_nested)

lemma enc_seq_Cons_cong: "enc_seq ms = enc_seq ns \<Longrightarrow> enc_seq (x # ms) = enc_seq (x # ns)"
  using enc_seq_prefix_cong [of ms ns "[x]"] by (simp del: enc_seq.simps)

lemma enc_seq_emit_records: "enc_seq ms = enc_seq ns \<Longrightarrow> enc_seq (emit_records rs # ms) = enc_seq (map resource_emit rs @ ns)"
proof -
  assume "enc_seq ms = enc_seq ns"
  moreover have "enc_seq [enc_seq (map resource_emit rs), enc_seq ms] = enc_seq (emit_records rs # ms)"
    unfolding emit_records_def using enc_seq_nested [of "[enc_seq (map resource_emit rs)]" ms]
    by (simp add: fun_eq_iff split: prod.splits outcome.splits)
  ultimately show ?thesis by (simp only: enc_seq_nested [of "map resource_emit rs" ns])
qed

lemma message_emit_parts:
  assumes "message_emit m e = (Ok (), e')"
  obtains h where "update_header_counts (e_mode e \<noteq> Signing) m = (Ok h :: (header, 'e) outcome)"
    "enc_seq (message_parts (mode_message (e_mode e \<noteq> Signing) m) h) e = (Ok (), e')"
proof -
  let ?i = "e_mode e \<noteq> Signing"
  let ?edns = "case m_edns m of Some edns \<Rightarrow> [resource_emit (edns_to_record edns)] | None \<Rightarrow> []"
  let ?sigs = "if ?i then [emit_records (m_sig0 m)] else []"
  from assms obtain h where h: "(update_header_counts ?i m :: (header, encode_error) outcome) = Ok h"
    and e': "enc_seq ([header_emit h] @ map query_emit (m_queries m) @
      [emit_records (m_answers m), emit_records (m_name_servers m), emit_records (m_additionals m)] @ ?edns @ ?sigs) e =
        (Ok (), e')"
    unfolding message_emit_def Let_def by (auto split: outcome.splits)
  have sigs: "enc_seq ?sigs = enc_seq (map resource_emit (m_sig0 (mode_message ?i m)))"
    using enc_seq_emit_records [of "[]" "[]" "m_sig0 m"] by (simp add: mode_message_def)
  have "?edns = map resource_emit (edns_records (mode_message ?i m))"
    by (simp add: edns_records_def mode_message_def split: option.splits)
  with sigs have tail: "enc_seq (?edns @ ?sigs) =
      enc_seq (map resource_emit (edns_records (mode_message ?i m) @ m_sig0 (mode_message ?i m)))"
    unfolding map_append by (simp only: enc_seq_nested)
  have "enc_seq ([header_emit h] @ map query_emit (m_queries m) @
      [emit_records (m_answers m), emit_records (m_name_servers m), emit_records (m_additionals m)] @ ?edns @ ?sigs) =
    enc_seq ([header_emit h] @ map query_emit (m_queries m) @ map resource_emit (m_answers m) @
      map resource_emit (m_name_servers m) @ map resource_emit (m_additionals m) @
      map resource_emit (edns_records (mode_message ?i m) @ m_sig0 (mode_message ?i m)))"
    unfolding append_Cons append_Nil
    by (intro enc_seq_Cons_cong enc_seq_prefix_cong enc_seq_emit_records tail)
  also have "\<dots> = enc_seq (message_parts (mode_message ?i m) h)"
    by (simp add: message_parts_def mode_message_def del: enc_seq.simps)
  finally have "enc_seq (message_parts (mode_message ?i m) h) e = (Ok (), e')" using e' by simp
  moreover have "update_header_counts ?i m = (Ok h :: (header, 'e) outcome)"
    using h unfolding update_header_counts_def Let_def by (simp split: if_splits)
  ultimately show thesis by (intro that)
qed

lemma wf_mode_message: "wf_message m \<Longrightarrow> wf_message (mode_message incl m)"
  by (auto simp: wf_message_def mode_message_def fits_u16_def split: option.splits)

lemma message_emit_read:
  assumes wf: "wf_message m" and em: "message_emit m e = (Ok (), e')"
    and e: "enc_inv [] e" "canonical_names e = False" "e_buffer e = []"
  shows "\<exists>h. update_header_counts (e_mode e \<noteq> Signing) m = (Ok h :: (header, decode_error) outcome) \<and>
    message_from_vec (e_buffer e') =
      Ok ((normal_message (mode_message (e_mode e \<noteq> Signing) m))\<lparr>m_header := h\<rparr>)"
proof -
  let ?m = "mode_message (e_mode e \<noteq> Signing) m"
  obtain h where h: "update_header_counts (e_mode e \<noteq> Signing) m = (Ok h :: (header, decode_error) outcome)"
    and e': "enc_seq (message_parts ?m h) e = (Ok (), e')"
    by (rule message_emit_parts [OF em])
  note counts = update_header_counts_Ok [OF h wf]
  have er: "edns_records ?m = edns_records m" by (simp add: edns_records_def mode_message_def)
  have w: "writes False (enc_seq (message_parts ?m h)) message_read ((normal_message ?m)\<lparr>m_header := h\<rparr>)"
  proof (rule writes_message_parts [OF wf_mode_message [OF wf]])
    show "h_response_code h < 16" using counts(5) wf by (simp add: wf_message_def)
    show "unat (query_count h) = length (m_queries ?m)" "unat (answer_count h) = length (m_answers ?m)"
      "unat (name_server_count h) = length (m_name_servers ?m)"
      using counts(1-3) by (simp_all add: mode_message_def)
    show "unat (additional_count h) = length (m_additionals ?m) + length (edns_records ?m @ m_sig0 ?m)"
      using counts(4) unfolding er by (simp add: mode_message_def)
  qed
  show ?thesis
  proof (rule writesD [OF w e(1,2) e'])
    fix bs
    assume r: "\<And>rest. message_read (dec_at ([] @ e_buffer e' @ rest) (length ([] :: bytes) + length (e_buffer e))) =
      Ok ((normal_message ?m)\<lparr>m_header := h\<rparr>,
        dec_at ([] @ e_buffer e' @ rest) (length ([] :: bytes) + length (e_buffer e) + length bs))"
    have "message_from_vec (e_buffer e') = Ok ((normal_message ?m)\<lparr>m_header := h\<rparr>)"
      using r [of "[]"] e(3) by (simp add: message_from_vec_def)
    with h show ?thesis by blast
  qed
qed

section \<open>Properties\<close>

text \<open>
  C2. Messages survive the wire: if \<open>to_vec\<close> writes a well-formed message then \<open>from_vec\<close> reads
  the same header, questions, answers, authorities, additional records, SIG(0) records and EDNS
  data back, with the header counts set to the lengths of the sections.
\<close>
theorem message_roundtrip:
  assumes "wf_message m" "message_to_vec m = Ok buf"
  shows "\<exists>h. update_header_counts True m = (Ok h :: (header, decode_error) outcome) \<and>
    message_from_vec buf = Ok ((normal_message m)\<lparr>m_header := h\<rparr>)"
proof -
  from assms(2) obtain e' where em: "message_emit m (new_encoder []) = (Ok (), e')" and buf: "buf = e_buffer e'"
    by (auto simp: message_to_vec_def split: prod.splits outcome.splits)
  have "canonical_names (new_encoder []) = False" "e_buffer (new_encoder []) = []" "e_mode (new_encoder []) = Normal"
    by (simp_all add: new_encoder_def with_offset_def)
  with message_emit_read [OF assms(1) em enc_inv_new_encoder(1)] buf show ?thesis by (simp add: mode_message_def)
qed

definition sample_message :: message where
  "sample_message =
     message_new\<lparr>m_header := header_new\<lparr>h_id := 7, h_message_type := MT_Response, recursion_desired := True\<rparr>,
       m_queries := [\<lparr>q_name = Name [''w'', ''x''], q_type = RT_A, q_class = CL_IN\<rparr>],
       m_answers := [from_rdata (Name [''w'', ''x'']) 60 RT_A (RD_A (Ipv4 10 0 0 1))],
       m_edns := Some (edns_new\<lparr>dnssec_ok := True\<rparr>)\<rparr>"

lemma sample_message_vec:
  "message_to_vec sample_message =
     Ok [0, 7, 0x81, 0, 0, 1, 0, 1, 0, 0, 0, 1,
         1, 119, 1, 120, 0, 0, 1, 0, 1,
         0xC0, 12, 0, 1, 0, 1, 0, 0, 0, 60, 0, 4, 10, 0, 0, 1,
         0, 0, 41, 2, 0, 0, 0, 0x80, 0, 0, 0]"
  by code_simp

theorem message_roundtrip_witness:
  "\<exists>h. update_header_counts True sample_message = (Ok h :: (header, decode_error) outcome) \<and>
     message_from_vec
       [0, 7, 0x81, 0, 0, 1, 0, 1, 0, 0, 0, 1,
        1, 119, 1, 120, 0, 0, 1, 0, 1,
        0xC0, 12, 0, 1, 0, 1, 0, 0, 0, 60, 0, 4, 10, 0, 0, 1,
        0, 0, 41, 2, 0, 0, 0, 0x80, 0, 0, 0] = Ok (sample_message\<lparr>m_header := h\<rparr>)"
proof -
  have "wf_message sample_message" by code_simp
  moreover have "normal_message sample_message = sample_message" by code_simp
  ultimately show ?thesis using message_roundtrip [OF _ sample_message_vec] by simp
qed

text \<open>
  What is signed is the message without its signatures: written in signing mode, a well-formed
  message reads back with no SIG(0) records and with counts that do not include them, everything
  else unchanged. So adding SIG(0) records to a message does not change the octets to be signed.
\<close>
lemma message_signing_view:
  assumes "wf_message m" "message_emit m (with_mode [] Signing) = (Ok (), e')"
  shows "\<exists>h. update_header_counts False m = (Ok h :: (header, decode_error) outcome) \<and>
    message_from_vec (e_buffer e') = Ok ((normal_message m)\<lparr>m_sig0 := [], m_header := h\<rparr>)"
proof -
  have "canonical_names (with_mode [] Signing) = False" "e_buffer (with_mode [] Signing) = []"
    "e_mode (with_mode [] Signing) = Signing"
    by (simp_all add: with_mode_def with_offset_def)
  with message_emit_read [OF assms enc_inv_new_encoder(2)] show ?thesis
    by (simp add: mode_message_def normal_message_def)
qed

definition signed_sample :: message where
  "signed_sample =
     message_new\<lparr>m_sig0 := [\<lparr>rr_name = name_root, rr_type = RT_SIG, rr_class = CL_ANY, rr_ttl = 0,
       rr_rdata = RD_SIG \<lparr>type_covered = RT_NULL, sig_algorithm = RSASHA256, sig_num_labels = 0, original_ttl = 0,
         sig_expiration = 9, sig_inception = 5, sig_key_tag = 3, signer_name = Name [''k''], sig_bytes = [1, 2]\<rparr>\<rparr>]\<rparr>"

text \<open>
  EDNS data and its OPT record carry the same information: converting to a record and back
  gives the same version, extended response code, DNSSEC flag, payload size and options, provided
  the payload size is at least 512 octets; a smaller one is raised to 512.
\<close>
lemma edns_record_roundtrip:
  "edns_of_record (edns_to_record e) = Ok (e\<lparr>max_payload := if max_payload e < 512 then 512 else max_payload e\<rparr>)"
  unfolding edns_of_record_def edns_to_record_def
  by (cases e) (simp only: resource.simps edns_ttl_fields class_to_u16.simps bind_outcome.simps
      rdata.case if_False simp_thms edns.simps)

text \<open>
  The response code of a message is computed from the four bits of the header and the eight
  bits of the EDNS record; when no response code is assigned to the resulting number, asking for
  it panics. A message with response code 11 and no EDNS record is enough for that.
\<close>
lemma get_response_code_panics:
  "(get_response_code m = Panic \<longleftrightarrow>
     (let code = push_bit 4 (ucast (case m_edns m of Some e \<Rightarrow> rcode_high e | None \<Rightarrow> 0)) OR
                 (ucast (h_response_code (m_header m)) AND 0x000F) :: u16
      in 11 \<le> code \<and> code \<le> 15 \<or> 24 \<le> code)) \<and>
   get_response_code (message_new\<lparr>m_header := header_new\<lparr>h_response_code := 11\<rparr>\<rparr>) = Panic \<and>
   (\<forall>x. get_response_code m \<noteq> Err x)"
proof -
  have code: "rcode_from_u16 v = Panic \<longleftrightarrow> 11 \<le> v \<and> v \<le> 15 \<or> 24 \<le> v" "rcode_from_u16 v \<noteq> Err x" for v x
  proof -
    show "rcode_from_u16 v \<noteq> Err x" by (simp add: rcode_from_u16_def)
    have "list_all (\<lambda>n. rcode_from_u16 (of_nat n) = Panic \<longleftrightarrow> 11 \<le> n \<and> n \<le> 15) [0..<24]" by code_simp
    then have small: "n < 24 \<Longrightarrow> rcode_from_u16 (of_nat n) = Panic \<longleftrightarrow> 11 \<le> n \<and> n \<le> 15" for n
      by (simp add: list_all_iff)
    show "rcode_from_u16 v = Panic \<longleftrightarrow> 11 \<le> v \<and> v \<le> 15 \<or> 24 \<le> v"
    proof (cases "unat v < 24")
      case True
      with small [of "unat v"] show ?thesis by (auto simp: word_le_nat_alt)
    next
      case False
      then have "24 \<le> v" by (simp add: word_le_nat_alt)
      then have "v \<noteq> 0" "v \<noteq> 1" "v \<noteq> 2" "v \<noteq> 3" "v \<noteq> 4" "v \<noteq> 5" "v \<noteq> 6" "v \<noteq> 7" "v \<noteq> 8" "v \<noteq> 9" "v \<noteq> 10"
        "v \<noteq> 16" "v \<noteq> 17" "v \<noteq> 18" "v \<noteq> 19" "v \<noteq> 20" "v \<noteq> 21" "v \<noteq> 22" "v \<noteq> 23" by (auto simp: word_le_nat_alt)
      then have "rcode_from_u16 v = Panic" by (simp add: rcode_from_u16_def)
      with \<open>24 \<le> v\<close> show ?thesis by simp
    qed
  qed
  have "get_response_code (message_new\<lparr>m_header := header_new\<lparr>h_response_code := 11\<rparr>\<rparr>) = Panic" by code_simp
  then show ?thesis by (simp add: get_response_code_def rcode_from_def code Let_def)
qed

end
