(* ===== verification/Signing.thy ===== *)
theory Signing
  imports Messages "HOL-Library.Multiset" "HOL-Library.List_Lexorder" "HOL-Library.Product_Lexorder"
begin

text \<open>
  Keys, digests and signatures (\<open>rr/dnssec/keypair.rs\<close>, \<open>signer.rs\<close>, \<open>digest_type.rs\<close>, \<open>nsec3.rs\<close>,
  \<open>trust_anchor.rs\<close>, and the digests of \<open>rr/rdata/dnskey.rs\<close> and \<open>ds.rs\<close>). OpenSSL and ring are the
  record \<open>ssl\<close> of functions, an argument of every definition that calls them; the model is the
  build with both features enabled.
\<close>

section \<open>The cryptographic libraries\<close>

datatype dnssec_error = DE_Message string | DE_Msg string | DE_Ssl | DE_Ring

datatype curve = SECP256K1 | SECP384R1

text \<open>
  \<open>ssl_rsa_parts\<close> gives the exponent and the modulus of an RSA key as big-endian octets;
  \<open>ssl_rsa_public\<close> takes the modulus and the exponent. \<open>None\<close> is the error stack of the library.
\<close>

record 'p ssl =
  ssl_hash :: "digest_type \<Rightarrow> bytes \<Rightarrow> bytes option"
  ssl_rsa_parts :: "'p \<Rightarrow> bytes \<times> bytes"
  ssl_rsa_public :: "bytes \<Rightarrow> bytes \<Rightarrow> 'p option"
  ssl_ec_point :: "'p \<Rightarrow> bytes option"
  ssl_ec_public :: "curve \<Rightarrow> bytes \<Rightarrow> 'p option"
  ssl_sign :: "digest_type \<Rightarrow> 'p \<Rightarrow> bytes \<Rightarrow> bytes option"
  ssl_verify :: "digest_type \<Rightarrow> 'p \<Rightarrow> bytes \<Rightarrow> bytes \<Rightarrow> bool option"
  ring_sign :: "bytes \<Rightarrow> bytes \<Rightarrow> bytes \<Rightarrow> bytes option"
  ring_verify :: "bytes \<Rightarrow> bytes \<Rightarrow> bytes \<Rightarrow> bool"

definition of_option :: "'e \<Rightarrow> 'a option \<Rightarrow> ('a, 'e) outcome" where
  "of_option e x = (case x of Some y \<Rightarrow> Ok y | None \<Rightarrow> Err e)"

fun digest_debug :: "digest_type \<Rightarrow> string" where
  "digest_debug DT_SHA1 = ''SHA1''"
| "digest_debug DT_SHA256 = ''SHA256''"
| "digest_debug DT_SHA384 = ''SHA384''"
| "digest_debug DT_SHA512 = ''SHA512''"
| "digest_debug DT_ED25519 = ''ED25519''"

definition to_openssl_digest :: "digest_type \<Rightarrow> (digest_type, dnssec_error) outcome" where
  "to_openssl_digest dt =
     (if dt \<in> {DT_SHA1, DT_SHA256, DT_SHA384, DT_SHA512} then Ok dt
      else Err (DE_Msg (''digest not supported by openssl: '' @ digest_debug dt)))"

definition digest_hash :: "'p ssl \<Rightarrow> digest_type \<Rightarrow> bytes \<Rightarrow> (bytes, dnssec_error) outcome" where
  "digest_hash ssl dt data =
     bind_outcome (to_openssl_digest dt) (\<lambda>d. of_option DE_Ssl (ssl_hash ssl d data))"

section \<open>Key pairs\<close>

datatype 'p key_pair = KP_RSA 'p | KP_EC 'p | KP_ED25519 (ed_private: bytes) (ed_public: bytes)

text \<open>
  The slices of an RSA key are taken without a check that the exponent length lies within the key.
\<close>

definition rsa_from_public_bytes :: "'p ssl \<Rightarrow> bytes \<Rightarrow> ('p key_pair, dnssec_error) outcome" where
  "rsa_from_public_bytes ssl pk =
     (if length pk < 3 \<or> length pk > 4096 + 3 then Err (DE_Message ''bad public key'')
      else
        let (num_exp_len_octs, len) =
              (if pk ! 0 = 0
               then (3, unat (push_bit 8 (ucast (pk ! 1)) OR ucast (pk ! 2) :: u16))
               else (1, unat (pk ! 0)))
        in
          if len + num_exp_len_octs > length pk then Panic
          else
            let e = take len (drop num_exp_len_octs pk);
                n = drop (len + num_exp_len_octs) pk
            in bind_outcome (of_option DE_Ssl (ssl_rsa_public ssl n e)) (\<lambda>p. Ok (KP_RSA p)))"

definition from_public_bytes :: "'p ssl \<Rightarrow> bytes \<Rightarrow> algorithm \<Rightarrow> ('p key_pair, dnssec_error) outcome" where
  "from_public_bytes ssl pk alg =
     (case alg of
        ECDSAP256SHA256 \<Rightarrow>
          bind_outcome (of_option DE_Ssl (ssl_ec_public ssl SECP256K1 pk)) (\<lambda>p. Ok (KP_EC p))
      | ECDSAP384SHA384 \<Rightarrow>
          bind_outcome (of_option DE_Ssl (ssl_ec_public ssl SECP384R1 pk)) (\<lambda>p. Ok (KP_EC p))
      | ED25519 \<Rightarrow>
          if length pk \<noteq> 32
          then Err (DE_Msg (''expected 32 byte public_key: '' @ show_nat (length pk)))
          else Ok (KP_ED25519 (replicate 32 0) (rev pk))
      | _ \<Rightarrow> rsa_from_public_bytes ssl pk)"

fun to_public_bytes :: "'p ssl \<Rightarrow> 'p key_pair \<Rightarrow> (bytes, dnssec_error) outcome" where
  "to_public_bytes ssl (KP_RSA pkey) =
     (let (e, n) = ssl_rsa_parts ssl pkey;
          len = (if length e > 255
                 then [0, of_nat (length e div 256), of_nat (length e)]
                 else [of_nat (length e)])
      in Ok (len @ e @ n))"
| "to_public_bytes ssl (KP_EC pkey) = of_option DE_Ssl (ssl_ec_point ssl pkey)"
| "to_public_bytes ssl (KP_ED25519 _ pk) = Ok (rev pk)"

text \<open>The accumulator is a \<open>usize\<close>; the sum of the octets of a key stays far below its range.\<close>

fun key_tag_loop :: "nat \<Rightarrow> int \<Rightarrow> bytes \<Rightarrow> int" where
  "key_tag_loop i ac [] = ac"
| "key_tag_loop i ac (k # ks) = key_tag_loop (i + 1) (ac + (if odd i then uint k else uint k * 256)) ks"

definition key_tag_of :: "bytes \<Rightarrow> u16" where
  "key_tag_of bs = (let ac = key_tag_loop 0 0 bs; ac = ac + (ac div 65536) mod 65536 in of_int (ac mod 65536))"

definition key_tag :: "'p ssl \<Rightarrow> 'p key_pair \<Rightarrow> (u16, dnssec_error) outcome" where
  "key_tag ssl kp = bind_outcome (to_public_bytes ssl kp) (\<lambda>bs. Ok (key_tag_of bs))"

definition to_dnskey :: "'p ssl \<Rightarrow> algorithm \<Rightarrow> 'p key_pair \<Rightarrow> (dnskey, dnssec_error) outcome" where
  "to_dnskey ssl alg kp =
     bind_outcome (to_public_bytes ssl kp) (\<lambda>bs.
     Ok \<lparr>zone_key = True, secure_entry_point = True, revoke = False, dk_algorithm = alg, public_key = bs\<rparr>)"

text \<open>The digest of a key: the canonical owner name followed by the data of the key.\<close>

definition encode_error_to_string :: "encode_error \<Rightarrow> string" where
  "encode_error_to_string e =
     (case e of
        CharacterDataTooLong n \<Rightarrow> ''char data length exceeds 255: '' @ show_nat n
      | LabelBytesTooLong n \<Rightarrow> ''label bytes exceed 63: '' @ show_nat n
      | DomainNameTooLong n \<Rightarrow> ''name label data exceed 255: '' @ show_nat n)"

definition to_digest :: "'p ssl \<Rightarrow> name \<Rightarrow> digest_type \<Rightarrow> dnskey \<Rightarrow> (bytes, dnssec_error) outcome" where
  "to_digest ssl name dt key =
     (case enc_seq [name_emit name, dnskey_emit key] (set_canonical_names True (new_encoder [])) of
        (Ok _, e) \<Rightarrow> digest_hash ssl dt (e_buffer e)
      | (Err x, _) \<Rightarrow> Err (DE_Msg (''error serializing dnskey: '' @ encode_error_to_string x))
      | (Panic, _) \<Rightarrow> Panic
      | (Overrun, _) \<Rightarrow> Overrun)"

definition ds_covers :: "'p ssl \<Rightarrow> name \<Rightarrow> dnskey \<Rightarrow> ds \<Rightarrow> (bool, dnssec_error) outcome" where
  "ds_covers ssl name key ds =
     bind_outcome (to_digest ssl name (ds_digest_type ds) key) (\<lambda>hash. Ok (hash = ds_digest ds))"

definition to_ds :: "'p ssl \<Rightarrow> name \<Rightarrow> algorithm \<Rightarrow> digest_type \<Rightarrow> 'p key_pair \<Rightarrow> (ds, dnssec_error) outcome" where
  "to_ds ssl name alg dt kp =
     bind_outcome (to_dnskey ssl alg kp) (\<lambda>dnskey.
     bind_outcome (key_tag ssl kp) (\<lambda>tag.
     bind_outcome (to_digest ssl name dt dnskey) (\<lambda>digest.
     Ok \<lparr>ds_key_tag = tag, ds_algorithm = alg, ds_digest_type = dt, ds_digest = digest\<rparr>)))"

text \<open>
  \<open>ssl_sign\<close> and \<open>ssl_verify\<close> stand for the creation of the signer or verifier and all its steps: a creation
  that fails, which the source unwraps, is not told apart from an error of a later step. In
  \<open>to_public_bytes\<close> a key pair holds a key of its kind, as the source expects.
\<close>

definition pkey_sign :: "'p ssl \<Rightarrow> algorithm \<Rightarrow> 'p \<Rightarrow> bytes \<Rightarrow> (bytes, dnssec_error) outcome" where
  "pkey_sign ssl alg pkey message =
     bind_outcome (to_openssl_digest (digest_of_alg alg)) (\<lambda>d. of_option DE_Ssl (ssl_sign ssl d pkey message))"

fun key_sign :: "'p ssl \<Rightarrow> algorithm \<Rightarrow> bytes \<Rightarrow> 'p key_pair \<Rightarrow> (bytes, dnssec_error) outcome" where
  "key_sign ssl alg message (KP_RSA pkey) = pkey_sign ssl alg pkey message"
| "key_sign ssl alg message (KP_EC pkey) = pkey_sign ssl alg pkey message"
| "key_sign ssl alg message (KP_ED25519 private_key pk) =
     of_option (DE_Message ''something is wrong with the keys'') (ring_sign ssl private_key pk message)"

definition pkey_verify :: "'p ssl \<Rightarrow> algorithm \<Rightarrow> 'p \<Rightarrow> bytes \<Rightarrow> bytes \<Rightarrow> (unit, dnssec_error) outcome" where
  "pkey_verify ssl alg pkey message signature =
     bind_outcome (to_openssl_digest (digest_of_alg alg)) (\<lambda>d.
     bind_outcome (of_option DE_Ssl (ssl_verify ssl d pkey message signature)) (\<lambda>b.
     if b then Ok () else Err (DE_Message ''could not verify'')))"

fun key_verify :: "'p ssl \<Rightarrow> algorithm \<Rightarrow> bytes \<Rightarrow> bytes \<Rightarrow> 'p key_pair \<Rightarrow> (unit, dnssec_error) outcome" where
  "key_verify ssl alg message signature (KP_RSA pkey) = pkey_verify ssl alg pkey message signature"
| "key_verify ssl alg message signature (KP_EC pkey) = pkey_verify ssl alg pkey message signature"
| "key_verify ssl alg message signature (KP_ED25519 _ pk) =
     (if ring_verify ssl pk message signature then Ok () else Err DE_Ring)"

section \<open>Signers\<close>

record 'p signer =
  sg_key :: "'p key_pair"
  sg_algorithm :: algorithm
  sg_signer_name :: name
  sg_sig_duration :: int
  sg_is_zone_signing_key :: bool
  sg_is_zone_update_auth :: bool

definition new_verifier :: "algorithm \<Rightarrow> 'p key_pair \<Rightarrow> name \<Rightarrow> bool \<Rightarrow> bool \<Rightarrow> 'p signer" where
  "new_verifier alg key name zsk update_auth =
     \<lparr>sg_key = key, sg_algorithm = alg, sg_signer_name = name, sg_sig_duration = 0,
      sg_is_zone_signing_key = zsk, sg_is_zone_update_auth = update_auth\<rparr>"

definition signer_new :: "algorithm \<Rightarrow> 'p key_pair \<Rightarrow> name \<Rightarrow> int \<Rightarrow> bool \<Rightarrow> bool \<Rightarrow> 'p signer" where
  "signer_new alg key name duration zsk update_auth =
     \<lparr>sg_key = key, sg_algorithm = alg, sg_signer_name = name, sg_sig_duration = duration,
      sg_is_zone_signing_key = zsk, sg_is_zone_update_auth = update_auth\<rparr>"

definition calculate_key_tag :: "'p ssl \<Rightarrow> 'p signer \<Rightarrow> (u16, dnssec_error) outcome" where
  "calculate_key_tag ssl s =
     bind_outcome (to_public_bytes ssl (sg_key s)) (\<lambda>bs.
     let ac = key_tag_loop 0 0 bs; ac = ac + (ac div 65536) mod 65536 in Ok (of_int (ac mod 65536)))"

definition hash_message :: "'p ssl \<Rightarrow> message \<Rightarrow> 'p signer \<Rightarrow> (bytes, dnssec_error) outcome" where
  "hash_message ssl m s =
     (case message_emit m (with_mode [] Signing) of
        (Ok _, e) \<Rightarrow> digest_hash ssl (digest_of_alg (sg_algorithm s)) (e_buffer e)
      | (Overrun, _) \<Rightarrow> Overrun
      | _ \<Rightarrow> Panic)"

definition signer_sign :: "'p ssl \<Rightarrow> bytes \<Rightarrow> 'p signer \<Rightarrow> (bytes, dnssec_error) outcome" where
  "signer_sign ssl hash s = key_sign ssl (sg_algorithm s) hash (sg_key s)"

definition signer_verify :: "'p ssl \<Rightarrow> bytes \<Rightarrow> bytes \<Rightarrow> 'p signer \<Rightarrow> (unit, dnssec_error) outcome" where
  "signer_verify ssl hash signature s = key_verify ssl (sg_algorithm s) hash signature (sg_key s)"

definition sign_message :: "'p ssl \<Rightarrow> message \<Rightarrow> 'p signer \<Rightarrow> (bytes, dnssec_error) outcome" where
  "sign_message ssl m s = bind_outcome (hash_message ssl m s) (\<lambda>hash. signer_sign ssl hash s)"

definition verify_message :: "'p ssl \<Rightarrow> message \<Rightarrow> bytes \<Rightarrow> 'p signer \<Rightarrow> (unit, dnssec_error) outcome" where
  "verify_message ssl m signature s =
     bind_outcome (hash_message ssl m s) (\<lambda>hash. signer_verify ssl hash signature s)"

section \<open>Signing a message\<close>

definition message_sign :: "'p ssl \<Rightarrow> 'p signer \<Rightarrow> u32 \<Rightarrow> message \<Rightarrow> (message, dnssec_error) outcome" where
  "message_sign ssl signer inception m =
     bind_outcome (sign_message ssl m signer) (\<lambda>signature.
     bind_outcome (calculate_key_tag ssl signer) (\<lambda>tag.
     if inception > 0xFFFFFFFF - 300 then Panic
     else add_sig0
       \<lparr>rr_name = name_root, rr_type = RT_SIG, rr_class = CL_ANY, rr_ttl = 0,
        rr_rdata = RD_SIG
          \<lparr>type_covered = RT_NULL, sig_algorithm = sg_algorithm signer, sig_num_labels = num_labels name_root,
           original_ttl = 0, sig_expiration = inception + 300, sig_inception = inception, sig_key_tag = tag,
           signer_name = sg_signer_name signer, sig_bytes = signature\<rparr>\<rparr> m))"

section \<open>The signed form of a record set\<close>

definition determine_name :: "name \<Rightarrow> u8 \<Rightarrow> (name option, dnssec_error) outcome" where
  "determine_name name num =
     (let fqdn_labels = num_labels name in
      if fqdn_labels = num then Ok (Some name)
      else if num < fqdn_labels then
        bind_outcome (name_label ''*'' name_new) (\<lambda>star_name.
        let rightmost = trim_to (unat num) name in
        if \<not> is_root rightmost
        then bind_outcome (name_append rightmost star_name) (\<lambda>n. Ok (Some n))
        else Ok (Some star_name))
      else Ok None)"

text \<open>The canonical order of the records: a stable sort by the order of records.\<close>

fun insert_rr :: "resource \<Rightarrow> resource list \<Rightarrow> (resource list, 'e) outcome" where
  "insert_rr x [] = Ok [x]"
| "insert_rr x (y # ys) =
     bind_outcome (resource_cmp x y) (\<lambda>order.
     if order = Greater then bind_outcome (insert_rr x ys) (\<lambda>zs. Ok (y # zs))
     else Ok (x # y # ys))"

fun sort_rrs :: "resource list \<Rightarrow> (resource list, 'e) outcome" where
  "sort_rrs [] = Ok []"
| "sort_rrs (x # xs) = bind_outcome (sort_rrs xs) (insert_rr x)"

definition assert_ok :: "enc \<Rightarrow> enc" where
  "assert_ok m e = (case m e of (Err _, e') \<Rightarrow> (Panic, e') | r \<Rightarrow> r)"

definition canonical_rdata :: "rdata \<Rightarrow> (bytes, 'e) outcome" where
  "canonical_rdata rd =
     (case assert_ok (rdata_emit rd) (set_canonical_names True (new_encoder [])) of
        (Ok _, e) \<Rightarrow> Ok (e_buffer e)
      | (Overrun, _) \<Rightarrow> Overrun
      | _ \<Rightarrow> Panic)"

definition emit_signed_rr :: "name \<Rightarrow> record_type \<Rightarrow> dns_class \<Rightarrow> u32 \<Rightarrow> resource \<Rightarrow> enc" where
  "emit_signed_rr name rt class ttl r e =
     (case (name_to_lowercase name :: (name, encode_error) outcome) of
        Ok lower \<Rightarrow>
          (case (canonical_rdata (rr_rdata r) :: (bytes, encode_error) outcome) of
             Ok rdata_buf \<Rightarrow>
               enc_seq [assert_ok (emit_as_canonical lower True), assert_ok (rt_emit rt), assert_ok (class_emit class),
                        assert_ok (emit_u32 ttl), assert_ok (emit_u16 (of_nat (length rdata_buf))),
                        assert_ok (emit_vec rdata_buf)] e
           | Overrun \<Rightarrow> (Overrun, e)
           | _ \<Rightarrow> (Panic, e))
      | _ \<Rightarrow> (Panic, e))"

definition in_rrset :: "name \<Rightarrow> dns_class \<Rightarrow> record_type \<Rightarrow> resource \<Rightarrow> bool" where
  "in_rrset name class rt r \<longleftrightarrow> class = rr_class r \<and> rt = rr_type r \<and> name_eq name (rr_name r)"

definition hash_rrset ::
  "name \<Rightarrow> dns_class \<Rightarrow> u8 \<Rightarrow> record_type \<Rightarrow> algorithm \<Rightarrow> u32 \<Rightarrow> u32 \<Rightarrow> u32 \<Rightarrow> u16 \<Rightarrow> name \<Rightarrow> resource list \<Rightarrow>
     (bytes, dnssec_error) outcome" where
  "hash_rrset name class num covered alg ttl expiration inception tag signer records =
     bind_outcome (sort_rrs (filter (in_rrset name class covered) records)) (\<lambda>rrset.
     bind_outcome (determine_name name num) (\<lambda>determined.
     case determined of
       None \<Rightarrow> Err (DE_Msg (''could not determine name from '' @ name_to_string name))
     | Some name' \<Rightarrow>
         (case enc_seq
             (assert_ok (emit_pre_sig covered alg (num_labels name') ttl expiration inception tag signer) #
              map (emit_signed_rr name' covered class ttl) rrset)
             (set_canonical_names True (new_encoder [])) of
            (Ok _, e) \<Rightarrow> Ok (e_buffer e)
          | (Overrun, _) \<Rightarrow> Overrun
          | _ \<Rightarrow> Panic)))"

definition hash_rrset_with_sig :: "name \<Rightarrow> dns_class \<Rightarrow> sig \<Rightarrow> resource list \<Rightarrow> (bytes, dnssec_error) outcome" where
  "hash_rrset_with_sig name class s records =
     hash_rrset name class (sig_num_labels s) (type_covered s) (sig_algorithm s) (original_ttl s)
       (sig_expiration s) (sig_inception s) (sig_key_tag s) (signer_name s) records"

definition hash_rrset_with_rrsig :: "resource \<Rightarrow> resource list \<Rightarrow> (bytes, dnssec_error) outcome" where
  "hash_rrset_with_rrsig rrsig records =
     (case rr_rdata rrsig of
        RD_SIG s \<Rightarrow> hash_rrset_with_sig (rr_name rrsig) (rr_class rrsig) s records
      | _ \<Rightarrow> Err (DE_Msg (''could not determine name from '' @ name_to_string (rr_name rrsig))))"

section \<open>Hashed names and trust anchors\<close>

fun sha1_recursive_hash :: "'p ssl \<Rightarrow> bytes \<Rightarrow> bytes \<Rightarrow> nat \<Rightarrow> (bytes, dnssec_error) outcome" where
  "sha1_recursive_hash ssl salt bs 0 = of_option DE_Ssl (ssl_hash ssl DT_SHA1 (bs @ salt))"
| "sha1_recursive_hash ssl salt bs (Suc iterations) =
     bind_outcome (sha1_recursive_hash ssl salt bs iterations) (\<lambda>hash.
     of_option DE_Ssl (ssl_hash ssl DT_SHA1 (hash @ salt)))"

fun nsec3_hash :: "'p ssl \<Rightarrow> bytes \<Rightarrow> name \<Rightarrow> u16 \<Rightarrow> nsec3_hash_algorithm \<Rightarrow> (bytes, dnssec_error) outcome" where
  "nsec3_hash ssl salt name iterations NSEC3_SHA1 =
     (case name_emit name (set_canonical_names True (new_encoder [])) of
        (Ok _, e) \<Rightarrow> sha1_recursive_hash ssl salt (e_buffer e) (unat iterations)
      | (Overrun, _) \<Rightarrow> Overrun
      | _ \<Rightarrow> Panic)"

record trust_anchor =
  pkeys :: "bytes list"

definition trust_anchor_new :: trust_anchor where
  "trust_anchor_new = \<lparr>pkeys = []\<rparr>"

definition ta_contains :: "bytes \<Rightarrow> trust_anchor \<Rightarrow> bool" where
  "ta_contains other_key ta = list_ex (\<lambda>k. other_key = k) (pkeys ta)"

definition insert_trust_anchor :: "bytes \<Rightarrow> trust_anchor \<Rightarrow> trust_anchor" where
  "insert_trust_anchor key ta = (if \<not> ta_contains key ta then ta\<lparr>pkeys := pkeys ta @ [key]\<rparr> else ta)"

definition ta_get :: "nat \<Rightarrow> trust_anchor \<Rightarrow> (bytes, 'e) outcome" where
  "ta_get idx ta = (if idx < length (pkeys ta) then Ok (pkeys ta ! idx) else Panic)"

section \<open>Properties\<close>

text \<open>
  The owner name that is signed follows RFC 4035 5.3.2: with the label count of the name it is
  the name itself, with fewer labels it is a star followed by the rightmost labels, and a larger
  count is rejected.
\<close>
lemma determine_name_rfc4035:
  assumes "length (labels name) < 256"
  shows "determine_name name num =
    (if num = num_labels name then Ok (Some name)
     else if num < num_labels name
     then Ok (Some (Name (''*'' # drop (length (labels name) - unat num) (labels name))))
     else Ok None)"
proof (cases "num < num_labels name")
  case True
  have "unat (num_labels name) \<le> length (labels name)"
    using assms unat_minus_one [of "of_nat (length (labels name)) :: u8"]
    by (auto simp: num_labels_def Let_def)
  with True have k: "unat num < length (labels name)" by (simp add: word_less_nat_alt)
  then have trim: "trim_to (unat num) name = Name (drop (length (labels name) - unat num) (labels name))"
    by (simp add: trim_to_def)
  have star: "name_label ''*'' name_new = (Ok (Name [''*'']) :: (name, dnssec_error) outcome)"
    by (simp add: name_label_def name_new_def)
  have app: "(name_append (Name (drop (length (labels name) - unat num) (labels name))) (Name [''*'']) ::
      (name, dnssec_error) outcome) = Ok (Name (''*'' # drop (length (labels name) - unat num) (labels name)))"
    using k assms by (simp add: name_append_def append_labels_eq)
  from True k show ?thesis
    by (auto simp: determine_name_def Let_def trim star app is_root_def)
qed (auto simp: determine_name_def Let_def)

lemma of_option_Ok: "of_option e x = Ok y \<longleftrightarrow> x = Some y"
  by (simp add: of_option_def split: option.splits)

text \<open>
  A DS record that \<open>to_ds\<close> makes for a key covers exactly that key: checking the key of the pair
  against it under the same owner name succeeds.
\<close>
lemma to_ds_covers:
  assumes "to_ds ssl name alg dt kp = Ok ds" "to_dnskey ssl alg kp = Ok key"
  shows "ds_covers ssl name key ds = Ok True"
  using assms by (auto simp: to_ds_def ds_covers_def)

text \<open>The witnesses run on a toy library: the digest of octets is their number, a signature is the message.\<close>

definition toy_ssl :: "bytes ssl" where
  "toy_ssl =
     \<lparr>ssl_hash = (\<lambda>_ bs. Some [of_nat (length bs)]), ssl_rsa_parts = (\<lambda>p. ([1, 0, 1], p)),
      ssl_rsa_public = (\<lambda>n e. if e = [1, 0, 1] then Some n else None), ssl_ec_point = (\<lambda>p. Some p),
      ssl_ec_public = (\<lambda>_ p. Some p), ssl_sign = (\<lambda>_ p bs. Some (p @ bs)),
      ssl_verify = (\<lambda>_ p bs s. Some (s = p @ bs)), ring_sign = (\<lambda>_ p bs. Some (p @ bs)),
      ring_verify = (\<lambda>p bs s. s = p @ bs)\<rparr>"

lemma exponent_length:
  assumes "n < 65536"
  shows "unat (push_bit 8 (ucast (of_nat (n div 256) :: u8)) OR ucast (of_nat n :: u8) :: u16) = n"
proof -
  let ?x = "of_nat n :: u16"
  have hi: "(of_nat (n div 256) :: u8) = ucast (drop_bit 8 ?x)"
    using assms by (intro word_unat_eq_iff [THEN iffD2])
      (simp add: unsigned_ucast_eq unat_div take_bit_eq_mod drop_bit_eq_div)
  have lo: "(of_nat n :: u8) = ucast ?x" using assms by (simp add: unsigned_of_nat take_bit_eq_mod)
  have "(push_bit 8 (ucast (ucast (drop_bit 8 ?x) :: u8)) OR ucast (ucast ?x :: u8) :: u16) = ?x"
    by (rule bit_word_eqI) (auto simp: bit_simps)
  then show ?thesis using assms by (simp only: hi lo unat_of_nat_u16)
qed

text \<open>
  RSA public keys survive their DNS form: the octets written for a key with an exponent of 1 to
  65535 octets are taken apart into the same modulus and exponent, whatever the library does with
  them. The reader however slices without checking: a key whose length octet exceeds the key panics.
\<close>
lemma rsa_public_bytes_roundtrip:
  assumes "ssl_rsa_parts ssl p = (e, n)" "1 \<le> length e" "length e < 65536"
    "3 \<le> length e + length n" "length e + length n \<le> 4096"
    "alg \<in> {RSASHA1, RSASHA1NSEC3SHA1, RSASHA256, RSASHA512}"
  shows "bind_outcome (to_public_bytes ssl (KP_RSA p)) (\<lambda>bs. from_public_bytes ssl bs alg) =
      bind_outcome (of_option DE_Ssl (ssl_rsa_public ssl n e)) (\<lambda>q. Ok (KP_RSA q)) \<and>
    (\<forall>l m. l \<noteq> 0 \<and> 2 \<le> length m \<and> length m < unat (l :: u8) \<longrightarrow> from_public_bytes ssl (l # m) alg = Panic)"
proof
  have alg: "from_public_bytes ssl bs alg = rsa_from_public_bytes ssl bs" for bs
    using assms(6) by (auto simp: from_public_bytes_def)
  show "\<forall>l m. l \<noteq> 0 \<and> 2 \<le> length m \<and> length m < unat (l :: u8) \<longrightarrow> from_public_bytes ssl (l # m) alg = Panic"
  proof (intro allI impI)
    fix l :: u8 and m :: bytes
    assume a: "l \<noteq> 0 \<and> 2 \<le> length m \<and> length m < unat l"
    then have "length m < 256" using unat_u8_less [of l] by simp
    with a show "from_public_bytes ssl (l # m) alg = Panic" by (simp add: alg rsa_from_public_bytes_def drop_Cons')
  qed
  show "bind_outcome (to_public_bytes ssl (KP_RSA p)) (\<lambda>bs. from_public_bytes ssl bs alg) =
      bind_outcome (of_option DE_Ssl (ssl_rsa_public ssl n e)) (\<lambda>q. Ok (KP_RSA q))"
  proof (cases "length e > 255")
    case True
    let ?hi = "of_nat (length e div 256) :: u8" and ?lo = "of_nat (length e) :: u8"
    have "unat (push_bit 8 (ucast ?hi) OR ucast ?lo :: u16) = length e"
      using assms(3) by (rule exponent_length)
    with True assms show ?thesis by (simp add: alg rsa_from_public_bytes_def drop_Cons')
  next
    case False
    then have "of_nat (length e) \<noteq> (0 :: u8)" "unat (of_nat (length e) :: u8) = length e"
      using assms(2) unat_of_nat_u8 [of "length e"] by fastforce+
    with False assms show ?thesis by (simp add: alg rsa_from_public_bytes_def drop_Cons')
  qed
qed

subsection \<open>The order of the signed records\<close>

definition rr_sort_key :: "resource \<Rightarrow> u32 \<times> bytes" where
  "rr_sort_key r = (rr_ttl r, case (to_bytes (rr_rdata r) :: (bytes, unit) outcome) of Ok bs \<Rightarrow> bs | _ \<Rightarrow> [])"

lemma cmp_bytes_order: "cmp_bytes a b = (if a < b then Less else if a = b then Equal else Greater)"
  by (induction "cmp_u8" a b rule: cmp_list.induct) (auto simp: cmp_u8_def cmp_nat_def word_less_nat_alt word_unat_eq_iff)

lemma to_bytes_any: "to_bytes rd = Ok bs \<Longrightarrow> to_bytes rd = (Ok bs :: (bytes, 'e) outcome)"
  by (cases "rdata_emit rd (new_encoder [])", cases "fst (rdata_emit rd (new_encoder []))") (simp_all add: to_bytes_def)

lemma resource_cmp_in_rrset:
  assumes "in_rrset name cls rt a" "in_rrset name cls rt b"
    "is_ok (to_bytes (rr_rdata a) :: (bytes, unit) outcome)" "is_ok (to_bytes (rr_rdata b) :: (bytes, unit) outcome)"
  shows "resource_cmp a b =
    (Ok (if rr_sort_key a < rr_sort_key b then Less else if rr_sort_key a = rr_sort_key b then Equal else Greater)
      :: (ordering, 'e) outcome)"
proof -
  obtain x y where xy: "to_bytes (rr_rdata a) = (Ok x :: (bytes, unit) outcome)"
    "to_bytes (rr_rdata b) = (Ok y :: (bytes, unit) outcome)"
    using assms(3,4) by (auto simp: is_ok_iff)
  then have "rdata_cmp (rr_rdata a) (rr_rdata b) = (Ok (cmp_bytes x y) :: (ordering, 'e) outcome)"
    by (simp add: rdata_cmp_def to_bytes_any [OF xy(1)] to_bytes_any [OF xy(2)])
  moreover have "name_cmp (rr_name a) (rr_name b) = Equal" "rt_cmp (rr_type a) (rr_type b) = Equal"
    "class_cmp (rr_class a) (rr_class b) = Equal"
    using assms(1,2) by (simp_all add: in_rrset_def name_cmp_Equal name_eq_iff class_cmp_def cmp_nat_def)
  ultimately have cmp: "resource_cmp a b =
      (or_else_cmp (cmp_nat (unat (rr_ttl a)) (unat (rr_ttl b))) (Ok (cmp_bytes x y)) :: (ordering, 'e) outcome)"
    by (simp only: resource_cmp_def or_else_cmp.simps)
  have key: "rr_sort_key a = (rr_ttl a, x)" "rr_sort_key b = (rr_ttl b, y)" using xy by (simp_all add: rr_sort_key_def)
  show ?thesis
    by (cases "rr_ttl a" "rr_ttl b" rule: linorder_cases)
      (auto simp: cmp key cmp_nat_def cmp_bytes_order word_less_nat_alt word_le_nat_alt)
qed

lemma insert_rr_insort:
  assumes "\<forall>r\<in>set (x # ys). in_rrset name cls rt r \<and> is_ok (to_bytes (rr_rdata r) :: (bytes, unit) outcome)"
  shows "insert_rr x ys = (Ok (insort_key rr_sort_key x ys) :: (resource list, 'e) outcome)"
  using assms
proof (induction ys)
  case (Cons y ys)
  then show ?case using resource_cmp_in_rrset [where 'e = 'e, of name cls rt x y] by auto
qed simp

lemma sort_rrs_sort_key:
  assumes "\<forall>r\<in>set rs. in_rrset name cls rt r \<and> is_ok (to_bytes (rr_rdata r) :: (bytes, unit) outcome)"
  shows "sort_rrs rs = (Ok (sort_key rr_sort_key rs) :: (resource list, 'e) outcome)"
  using assms
proof (induction rs)
  case (Cons r rs)
  then show ?case using insert_rr_insort [where 'e = 'e, of r "sort_key rr_sort_key rs" name cls rt] by simp
qed simp

lemma sort_key_by_parts:
  fixes h :: "'a \<Rightarrow> 'b" and g :: "'b \<Rightarrow> 'k :: linorder"
  assumes "mset xs = mset ys" "\<forall>x\<in>set xs. \<forall>y\<in>set xs. g (h x) = g (h y) \<longrightarrow> h x = h y"
  shows "map h (sort_key (\<lambda>x. g (h x)) xs) = map h (sort_key (\<lambda>x. g (h x)) ys)"
proof -
  have ins: "map h (insort_key (\<lambda>x. g (h x)) x zs) = insort_key g (h x) (map h zs)" for x zs
    by (induction zs) auto
  have split: "map h (sort_key (\<lambda>x. g (h x)) zs) = sort_key g (map h zs)" for zs
    by (induction zs) (auto simp: ins)
  have "inj_on g (set (map h xs))" using assms(2) by (auto simp: inj_on_def)
  moreover have "mset (map h xs) = mset (sort_key g (map h ys))" using assms(1) by simp
  ultimately have "sort_key g (map h xs) = sort_key g (map h ys)" by (intro sort_key_inj_key_eq) auto
  then show ?thesis by (simp add: split)
qed

lemma emit_signed_rr_data:
  "map (emit_signed_rr name rt cls ttl) rs =
   map (\<lambda>rd. emit_signed_rr name rt cls ttl \<lparr>rr_name = name, rr_type = rt, rr_class = cls, rr_ttl = ttl, rr_rdata = rd\<rparr>)
     (map rr_rdata rs)"
  by (auto simp: emit_signed_rr_def fun_eq_iff split: outcome.splits)

text \<open>
  C36. The signed form of a record set does not depend on the order the records arrive in: two lists
  with the same records, any two of which with the same TTL and wire data have the same data, hash
  to the same octets (or the same error).
\<close>
theorem hash_rrset_order_independent:
  assumes "mset records = mset records'"
    "\<forall>r\<in>set records. is_ok (to_bytes (rr_rdata r) :: (bytes, unit) outcome)"
    "\<forall>r\<in>set records. \<forall>s\<in>set records. rr_sort_key r = rr_sort_key s \<longrightarrow> rr_rdata r = rr_rdata s"
  shows "hash_rrset name cls num covered alg ttl expiration inception tag signer records =
    hash_rrset name cls num covered alg ttl expiration inception tag signer records'"
proof -
  let ?in = "filter (in_rrset name cls covered)"
  let ?g = "\<lambda>(t, rd). (t, case (to_bytes rd :: (bytes, unit) outcome) of Ok bs \<Rightarrow> bs | _ \<Rightarrow> [])"
  let ?h = "\<lambda>r. (rr_ttl r, rr_rdata r)"
  have key: "rr_sort_key = (\<lambda>r. ?g (?h r))" by (simp add: rr_sort_key_def [abs_def])
  have perm: "mset (?in records) = mset (?in records')" using assms(1) by simp
  have set: "set records = set records'" using assms(1) by (rule mset_eq_setD)
  have sorted: "sort_rrs (?in records) = (Ok (sort_key rr_sort_key (?in records)) :: (_, dnssec_error) outcome)"
    "sort_rrs (?in records') = (Ok (sort_key rr_sort_key (?in records')) :: (_, dnssec_error) outcome)"
    using assms(2) set by (auto intro!: sort_rrs_sort_key [of _ name cls covered])
  have "map ?h (sort_key rr_sort_key (?in records)) = map ?h (sort_key rr_sort_key (?in records'))"
    unfolding key using assms(3) unfolding key by (intro sort_key_by_parts [OF perm]) auto
  then have "map snd (map ?h (sort_key rr_sort_key (?in records))) =
      map snd (map ?h (sort_key rr_sort_key (?in records')))" by (rule arg_cong)
  then have data: "map rr_rdata (sort_key rr_sort_key (?in records)) =
      map rr_rdata (sort_key rr_sort_key (?in records'))" by (simp add: o_def)
  show ?thesis
    unfolding hash_rrset_def sorted bind_outcome.simps
    by (subst (1 2) emit_signed_rr_data) (simp only: data)
qed

definition a_record :: "u8 \<Rightarrow> resource" where
  "a_record a = \<lparr>rr_name = Name [''a''], rr_type = RT_A, rr_class = CL_IN, rr_ttl = 5, rr_rdata = RD_A (Ipv4 a 0 0 1)\<rparr>"

theorem hash_rrset_order_independent_witness:
  "hash_rrset (Name [''a'']) CL_IN 1 RT_A RSASHA256 5 9 8 7 (Name [''z'']) [a_record 2, a_record 1] =
   hash_rrset (Name [''a'']) CL_IN 1 RT_A RSASHA256 5 9 8 7 (Name [''z'']) [a_record 1, a_record 2]"
proof (rule hash_rrset_order_independent)
  show "\<forall>r\<in>set [a_record 2, a_record 1]. is_ok (to_bytes (rr_rdata r) :: (bytes, unit) outcome)" by code_simp
  have "rr_sort_key (a_record 2) \<noteq> rr_sort_key (a_record 1)" by code_simp
  then show "\<forall>r\<in>set [a_record 2, a_record 1]. \<forall>s\<in>set [a_record 2, a_record 1].
      rr_sort_key r = rr_sort_key s \<longrightarrow> rr_rdata r = rr_rdata s" by fastforce
qed simp

subsection \<open>Message signatures\<close>

definition library_verifies :: "'p ssl \<Rightarrow> bool" where
  "library_verifies ssl \<longleftrightarrow>
     (\<forall>d p bs s. ssl_sign ssl d p bs = Some s \<longrightarrow> ssl_verify ssl d p bs s = Some True) \<and>
     (\<forall>k p bs s. ring_sign ssl k p bs = Some s \<longrightarrow> ring_verify ssl p bs s)"

lemma pkey_sign_verify:
  assumes "library_verifies ssl" "pkey_sign ssl alg p bs = Ok s"
  shows "pkey_verify ssl alg p bs s = Ok ()"
proof -
  obtain d where "to_openssl_digest (digest_of_alg alg) = Ok d" "ssl_sign ssl d p bs = Some s"
    using assms(2) by (auto simp: pkey_sign_def of_option_Ok bind_outcome_Ok_iff)
  moreover from this assms(1) have "ssl_verify ssl d p bs s = Some True" by (simp add: library_verifies_def)
  ultimately show ?thesis by (simp add: pkey_verify_def of_option_def)
qed

lemma key_sign_verify:
  "library_verifies ssl \<Longrightarrow> key_sign ssl alg bs kp = Ok s \<Longrightarrow> key_verify ssl alg bs s kp = Ok ()"
  by (cases kp) (simp_all add: pkey_sign_verify, auto simp: library_verifies_def of_option_Ok)

lemma message_emit_signing:
  assumes "e_mode e = Signing" "fits_u16 (length (m_additionals m) + length (m_sig0 m))"
    "fits_u16 (length (m_additionals m) + length s)"
  shows "message_emit (m\<lparr>m_sig0 := s\<rparr>) e = message_emit m e"
  using assms by (cases m) (simp add: message_emit_def update_header_counts_def Let_def)

lemma hash_message_sig0:
  assumes "fits_u16 (length (m_additionals m) + length (m_sig0 m))" "fits_u16 (length (m_additionals m) + length s)"
  shows "hash_message ssl (m\<lparr>m_sig0 := s\<rparr>) sg = hash_message ssl m sg"
  using assms by (simp add: hash_message_def message_emit_signing with_mode_def with_offset_def)

lemma message_sign_OkE:
  assumes "message_sign ssl signer now m = Ok m'"
  obtains hash r s where "hash_message ssl m signer = Ok hash" "signer_sign ssl hash signer = Ok (sig_bytes s)"
    "m' = m\<lparr>m_sig0 := m_sig0 m @ [r]\<rparr>" "rr_type r = RT_SIG" "rr_rdata r = RD_SIG s" "type_covered s = RT_NULL"
    "signer_name s = sg_signer_name signer" "sig_inception s = now" "unat (sig_expiration s) = unat now + 300"
proof -
  obtain hash signature tag where h: "hash_message ssl m signer = Ok hash"
    and s: "signer_sign ssl hash signer = Ok signature" and now: "now \<le> 0xFFFFFFFF - 300"
    and m': "m' = m\<lparr>m_sig0 := m_sig0 m @
       [\<lparr>rr_name = name_root, rr_type = RT_SIG, rr_class = CL_ANY, rr_ttl = 0,
        rr_rdata = RD_SIG
          \<lparr>type_covered = RT_NULL, sig_algorithm = sg_algorithm signer, sig_num_labels = num_labels name_root,
           original_ttl = 0, sig_expiration = now + 300, sig_inception = now, sig_key_tag = tag,
           signer_name = sg_signer_name signer, sig_bytes = signature\<rparr>\<rparr>]\<rparr>"
    using assms by (auto simp: message_sign_def sign_message_def add_sig0_def bind_outcome_Ok_iff split: if_splits)
  have "unat (now + 300) = unat now + 300" using now unat_add_lem [of now 300] by (simp add: word_le_nat_alt)
  with s show thesis
    by (intro that [where s = "\<lparr>type_covered = RT_NULL, sig_algorithm = sg_algorithm signer,
      sig_num_labels = num_labels name_root, original_ttl = 0, sig_expiration = now + 300, sig_inception = now,
      sig_key_tag = tag, signer_name = sg_signer_name signer, sig_bytes = signature\<rparr>", OF h _ m']) simp_all
qed

text \<open>
  C33. A signed message verifies: signing appends one SIG(0) record by the signer, valid for five
  minutes from the given time, covering nothing, and the message that carries it passes
  \<open>verify_message\<close> with its signature octets, given that the cryptographic libraries accept what
  they sign and that the additional section has room for the record.
\<close>
theorem message_sign_verifies:
  assumes "library_verifies ssl" "message_sign ssl signer now m = Ok m'"
    "fits_u16 (length (m_additionals m) + length (m_sig0 m) + 1)"
  shows "\<exists>r s. m' = m\<lparr>m_sig0 := m_sig0 m @ [r]\<rparr> \<and> rr_type r = RT_SIG \<and> rr_rdata r = RD_SIG s \<and>
    type_covered s = RT_NULL \<and> signer_name s = sg_signer_name signer \<and>
    sig_inception s = now \<and> unat (sig_expiration s) = unat now + 300 \<and>
    verify_message ssl m' (sig_bytes s) signer = Ok ()"
  using assms(2)
proof (rule message_sign_OkE)
  fix hash r s
  assume m': "hash_message ssl m signer = Ok hash" "signer_sign ssl hash signer = Ok (sig_bytes s)"
    "m' = m\<lparr>m_sig0 := m_sig0 m @ [r]\<rparr>" "rr_type r = RT_SIG" "rr_rdata r = RD_SIG s" "type_covered s = RT_NULL"
    "signer_name s = sg_signer_name signer" "sig_inception s = now" "unat (sig_expiration s) = unat now + 300"
  have "hash_message ssl m' signer = Ok hash"
    unfolding m'(3) using assms(3) m'(1) by (subst hash_message_sig0) (simp_all add: fits_u16_def)
  then have "verify_message ssl m' (sig_bytes s) signer = Ok ()"
    using key_sign_verify [OF assms(1)] m'(2) by (simp add: verify_message_def signer_verify_def signer_sign_def)
  with m' show ?thesis by blast
qed

theorem message_sign_verifies_witness:
  "\<exists>m' s. message_sign toy_ssl (new_verifier RSASHA256 (KP_RSA [9]) (Name [''k'']) False True) 1000 message_new = Ok m' \<and>
     verify_message toy_ssl m' s (new_verifier RSASHA256 (KP_RSA [9]) (Name [''k'']) False True) = Ok ()"
proof -
  let ?s = "new_verifier RSASHA256 (KP_RSA [9]) (Name [''k'']) False True"
  have "is_ok (message_sign toy_ssl ?s 1000 message_new)" by code_simp
  then obtain m' where "message_sign toy_ssl ?s 1000 message_new = Ok m'" by (auto simp: is_ok_iff)
  moreover have "library_verifies toy_ssl" by (simp add: library_verifies_def toy_ssl_def)
  moreover have "fits_u16 (length (m_additionals message_new) + length (m_sig0 message_new) + 1)" by code_simp
  ultimately show ?thesis using message_sign_verifies [of toy_ssl ?s 1000 message_new m'] by blast
qed

subsection \<open>Hashed names\<close>

text \<open>
  The hash of a name for NSEC3 is the SHA-1 digest iterated as RFC 5155 says, \<open>iterations\<close> times
  beyond the first; the octets hashed are those of the name with its letters as they are, so the
  upper and the lower case form of one name are hashed from different octets.
\<close>
lemma nsec3_hash_iterates:
  "(\<forall>h salt bs n. (\<forall>x. ssl_hash ssl DT_SHA1 x = Some (h x)) \<longrightarrow>
      sha1_recursive_hash ssl salt bs n = Ok (((\<lambda>x. h (x @ salt)) ^^ n) (h (bs @ salt)))) \<and>
   nsec3_hash ssl salt (Name [''A'']) 0 NSEC3_SHA1 = of_option DE_Ssl (ssl_hash ssl DT_SHA1 ([1, 65, 0] @ salt)) \<and>
   nsec3_hash ssl salt (Name [''a'']) 0 NSEC3_SHA1 = of_option DE_Ssl (ssl_hash ssl DT_SHA1 ([1, 97, 0] @ salt))"
proof (intro conjI allI impI)
  fix h salt bs n
  assume "\<forall>x. ssl_hash ssl DT_SHA1 x = Some (h x)"
  then show "sha1_recursive_hash ssl salt bs n = Ok (((\<lambda>x. h (x @ salt)) ^^ n) (h (bs @ salt)))"
    by (induction n) (simp_all add: of_option_def)
next
  have "fst (name_emit (Name [''A'']) (set_canonical_names True (new_encoder []))) = Ok ()"
    "e_buffer (snd (name_emit (Name [''A'']) (set_canonical_names True (new_encoder [])))) = [1, 65, 0]"
    by code_simp+
  then show "nsec3_hash ssl salt (Name [''A'']) 0 NSEC3_SHA1 = of_option DE_Ssl (ssl_hash ssl DT_SHA1 ([1, 65, 0] @ salt))"
    by (simp add: split_beta)
  have "fst (name_emit (Name [''a'']) (set_canonical_names True (new_encoder []))) = Ok ()"
    "e_buffer (snd (name_emit (Name [''a'']) (set_canonical_names True (new_encoder [])))) = [1, 97, 0]"
    by code_simp+
  then show "nsec3_hash ssl salt (Name [''a'']) 0 NSEC3_SHA1 = of_option DE_Ssl (ssl_hash ssl DT_SHA1 ([1, 97, 0] @ salt))"
    by (simp add: split_beta)
qed

subsection \<open>Trust anchors\<close>

lemma insert_trust_anchor_set:
  "ta_contains k (insert_trust_anchor key ta) \<longleftrightarrow> k = key \<or> ta_contains k ta"
  "distinct (pkeys ta) \<Longrightarrow> distinct (pkeys (insert_trust_anchor key ta))"
  by (auto simp: insert_trust_anchor_def ta_contains_def list_ex_iff)

end
