(* ===== verification/Journal.thy ===== *)
theory Journal
  imports Signing "HOL-Library.Sublist"
begin

text \<open>
  The journal of a zone (\<open>authority/persistence.rs\<close>): an append-only table of records in their wire
  form. SQLite is the record \<open>sqlite\<close> of what the engine does, over an abstract database state: a
  statement gives a count, or the rows of a table in the order the engine visits them, or the error
  of the library. The columns an INSERT writes and the WHERE and LIMIT of the SELECT are part of the
  model. The clock reading stored with a row is an argument.
\<close>

section \<open>The database\<close>

datatype sql_error = SQL_Error string | SQL_InvalidParameterName decode_error

datatype persistence_error =
    PE_Decode decode_error
  | PE_DnsSec dnssec_error
  | PE_Encode encode_error
  | PE_Sqlite sql_error
  | PE_WrongInsertCount int int
  | PE_RecoveryError response_code

text \<open>The columns of the table \<open>records\<close>; SQLite adds the \<open>_rowid_\<close>.\<close>

record journal_row =
  row_client_id :: int
  row_soa_serial :: int
  row_timestamp :: int
  row_record :: bytes

text \<open>
  \<open>sql_insert\<close> adds a row to \<open>records\<close>; \<open>sql_visit k\<close> reads its rows for the SELECT with the parameter \<open>k\<close>,
  in the order the engine chooses, as the statement has no ORDER BY.
\<close>

record 'd sqlite =
  sql_insert :: "journal_row \<Rightarrow> 'd \<Rightarrow> (sql_error + int) \<times> 'd"
  sql_visit :: "int \<Rightarrow> 'd \<Rightarrow> sql_error + (int \<times> journal_row) list"
  sql_schema_table :: "'d \<Rightarrow> sql_error + string option"
  sql_schema_version :: "'d \<Rightarrow> sql_error + int"
  sql_update_version :: "int \<Rightarrow> 'd \<Rightarrow> (sql_error + int) \<times> 'd"
  sql_create_schema :: "'d \<Rightarrow> (sql_error + int) \<times> 'd"
  sql_insert_schema :: "'d \<Rightarrow> (sql_error + int) \<times> 'd"
  sql_create_records :: "'d \<Rightarrow> (sql_error + int) \<times> 'd"

section \<open>State and errors\<close>

text \<open>A statement that may change the state, which stays changed when it fails.\<close>

type_synonym ('s, 'a, 'e) step = "'s \<Rightarrow> ('a, 'e) outcome \<times> 's"

fun st_bind :: "('s, 'a, 'e) step \<Rightarrow> ('a \<Rightarrow> ('s, 'b, 'e) step) \<Rightarrow> ('s, 'b, 'e) step" where
  "st_bind m f s =
     (case m s of
        (Ok x, s') \<Rightarrow> f x s'
      | (Err e, s') \<Rightarrow> (Err e, s')
      | (Panic, s') \<Rightarrow> (Panic, s')
      | (Overrun, s') \<Rightarrow> (Overrun, s'))"

declare st_bind.simps [simp del]

definition st_return :: "'a \<Rightarrow> ('s, 'a, 'e) step" where
  "st_return x s = (Ok x, s)"

definition st_lift :: "('a, 'e) outcome \<Rightarrow> ('s, 'a, 'e) step" where
  "st_lift r s = (r, s)"

fun st_map_err :: "('e \<Rightarrow> 'f) \<Rightarrow> ('s, 'a, 'e) step \<Rightarrow> ('s, 'a, 'f) step" where
  "st_map_err g m s = (case m s of (r, s') \<Rightarrow> (map_outcome_err g r, s'))"

section \<open>The journal\<close>

record 'd journal =
  j_conn :: 'd
  j_version :: int

definition current_version :: int where
  "current_version = 1"

text \<open>Runs a statement of the library on the connection.\<close>

definition execute :: "('d \<Rightarrow> (sql_error + 'a) \<times> 'd) \<Rightarrow> ('d journal, 'a, persistence_error) step" where
  "execute stmt j =
     (case stmt (j_conn j) of
        (Inr x, d) \<Rightarrow> (Ok x, j\<lparr>j_conn := d\<rparr>)
      | (Inl e, d) \<Rightarrow> (Err (PE_Sqlite e), j\<lparr>j_conn := d\<rparr>))"

definition select_schema_version :: "'d sqlite \<Rightarrow> 'd \<Rightarrow> (int, persistence_error) outcome" where
  "select_schema_version sql d =
     (case sql_schema_table sql d of
        Inl e \<Rightarrow> Err (PE_Sqlite e)
      | Inr None \<Rightarrow> Ok (- 1)
      | Inr (Some name) \<Rightarrow>
          if name \<noteq> ''tdns_schema'' then Panic
          else (case sql_schema_version sql d of Inl e \<Rightarrow> Err (PE_Sqlite e) | Inr v \<Rightarrow> Ok v))"

definition journal_new :: "'d sqlite \<Rightarrow> 'd \<Rightarrow> ('d journal, persistence_error) outcome" where
  "journal_new sql conn =
     bind_outcome (select_schema_version sql conn) (\<lambda>version. Ok \<lparr>j_conn = conn, j_version = version\<rparr>)"

definition update_schema_version :: "'d sqlite \<Rightarrow> int \<Rightarrow> ('d journal, unit, persistence_error) step" where
  "update_schema_version sql new_version =
     (if new_version > current_version then st_lift Panic
      else st_bind (execute (sql_update_version sql new_version)) (\<lambda>count.
           if count \<noteq> 1 then st_lift Panic else st_return ()))"

definition init_up :: "'d sqlite \<Rightarrow> ('d journal, int, persistence_error) step" where
  "init_up sql =
     st_bind (execute (sql_create_schema sql)) (\<lambda>count.
     if count \<noteq> 0 then st_lift Panic
     else st_bind (execute (sql_insert_schema sql)) (\<lambda>count.
          if count \<noteq> 1 then st_lift Panic else st_return 0))"

definition records_up :: "'d sqlite \<Rightarrow> ('d journal, int, persistence_error) step" where
  "records_up sql =
     st_bind (execute (sql_create_records sql)) (\<lambda>count.
     if count \<noteq> 1 then st_lift Panic else st_return 1)"

text \<open>
  The loop of \<open>schema_up\<close>: every turn raises the version to 0 or 1, so it turns at most twice.
\<close>

definition set_version :: "int \<Rightarrow> ('d journal, unit, persistence_error) step" where
  "set_version v j = (Ok (), j\<lparr>j_version := v\<rparr>)"

function schema_up :: "'d sqlite \<Rightarrow> 'd journal \<Rightarrow> (int, persistence_error) outcome \<times> 'd journal" where
  "schema_up sql j =
     (if j_version j < current_version then
        (if j_version j + 1 = 0 then
           (case st_bind (init_up sql) (\<lambda>v. st_bind (set_version v) (\<lambda>_. update_schema_version sql 0)) j of
              (Ok _, j') \<Rightarrow> schema_up sql (j'\<lparr>j_version := 0\<rparr>)
            | (Err e, j') \<Rightarrow> (Err e, j')
            | (Panic, j') \<Rightarrow> (Panic, j')
            | (Overrun, j') \<Rightarrow> (Overrun, j'))
         else if j_version j + 1 = 1 then
           (case st_bind (records_up sql) (\<lambda>v. st_bind (set_version v) (\<lambda>_. update_schema_version sql 1)) j of
              (Ok _, j') \<Rightarrow> schema_up sql (j'\<lparr>j_version := 1\<rparr>)
            | (Err e, j') \<Rightarrow> (Err e, j')
            | (Panic, j') \<Rightarrow> (Panic, j')
            | (Overrun, j') \<Rightarrow> (Overrun, j'))
         else (Panic, j))
      else (Ok (j_version j), j))"
  by pat_completeness auto

termination
  by (relation "measure (\<lambda>(_, j). nat (1 - j_version j))") (auto simp: current_version_def)

declare schema_up.simps [simp del]

definition insert_record :: "'d sqlite \<Rightarrow> int \<Rightarrow> u32 \<Rightarrow> resource \<Rightarrow> ('d journal, unit, persistence_error) step" where
  "insert_record sql now soa_serial r j =
     (if j_version j \<noteq> current_version then (Panic, j)
      else
        (case resource_emit r (new_encoder []) of
           (Ok _, e) \<Rightarrow>
             st_bind (execute (sql_insert sql \<lparr>row_client_id = 0, row_soa_serial = uint soa_serial, row_timestamp = now, row_record = e_buffer e\<rparr>)) (\<lambda>count.
             if count \<noteq> 1 then st_lift (Err (PE_WrongInsertCount count 1)) else st_return ()) j
         | (Err x, _) \<Rightarrow> (Err (PE_Encode x), j)
         | (Panic, _) \<Rightarrow> (Panic, j)
         | (Overrun, _) \<Rightarrow> (Overrun, j)))"

fun insert_records :: "'d sqlite \<Rightarrow> int \<Rightarrow> u32 \<Rightarrow> resource list \<Rightarrow> ('d journal, unit, persistence_error) step" where
  "insert_records sql now soa_serial [] = st_return ()"
| "insert_records sql now soa_serial (r # rs) =
     st_bind (insert_record sql now soa_serial r) (\<lambda>_. insert_records sql now soa_serial rs)"

text \<open>\<open>SELECT _rowid_, record FROM records WHERE _rowid_ >= $1 LIMIT 1\<close>.\<close>

definition select_first :: "'d sqlite \<Rightarrow> int \<Rightarrow> 'd \<Rightarrow> sql_error + (int \<times> bytes) option" where
  "select_first sql row_id d =
     (case sql_visit sql row_id d of
        Inl e \<Rightarrow> Inl e
      | Inr rows \<Rightarrow> Inr (map_option (\<lambda>(i, row). (i, row_record row)) (find (\<lambda>(i, row). i \<ge> row_id) rows)))"

definition select_record :: "'d sqlite \<Rightarrow> int \<Rightarrow> 'd journal \<Rightarrow> ((int \<times> resource) option, persistence_error) outcome" where
  "select_record sql row_id j =
     (if j_version j \<noteq> current_version then Panic
      else
        (case select_first sql row_id (j_conn j) of
           Inl e \<Rightarrow> Err (PE_Sqlite e)
         | Inr None \<Rightarrow> Ok None
         | Inr (Some (i, bs)) \<Rightarrow>
             (case resource_read (new_decoder bs) of
                Ok (r, _) \<Rightarrow> Ok (Some (i, r))
              | Err e \<Rightarrow> Err (PE_Sqlite (SQL_InvalidParameterName e))
              | Panic \<Rightarrow> Panic
              | Overrun \<Rightarrow> Overrun)))"

text \<open>
  \<open>JournalIter::next\<close> on the row it stands on: an error of the database or of the decoder ends the
  iteration like the end of the table does.
\<close>

definition journal_next :: "'d sqlite \<Rightarrow> 'd journal \<Rightarrow> int \<Rightarrow> ((resource \<times> int) option, persistence_error) outcome" where
  "journal_next sql j current_row_id =
     (case select_record sql (current_row_id + 1) j of
        Ok (Some (row_id, r)) \<Rightarrow> Ok (Some (r, row_id))
      | Ok None \<Rightarrow> Ok None
      | Err _ \<Rightarrow> Ok None
      | Panic \<Rightarrow> Panic
      | Overrun \<Rightarrow> Overrun)"

text \<open>All records from a row on; the fuel bounds the number of rows.\<close>

fun journal_iter :: "nat \<Rightarrow> 'd sqlite \<Rightarrow> 'd journal \<Rightarrow> int \<Rightarrow> (resource list, persistence_error) outcome" where
  "journal_iter 0 sql j i = Overrun"
| "journal_iter (Suc fuel) sql j i =
     bind_outcome (journal_next sql j i) (\<lambda>next.
     case next of
       None \<Rightarrow> Ok []
     | Some (r, i') \<Rightarrow> bind_outcome (journal_iter fuel sql j i') (\<lambda>rs. Ok (r # rs)))"

section \<open>Lemmas\<close>

lemma st_bind_Ok [simp]: "m s = (Ok x, s') \<Longrightarrow> st_bind m f s = f x s'"
  by (simp add: st_bind.simps)

lemma st_bind_Err [simp]: "m s = (Err e, s') \<Longrightarrow> st_bind m f s = (Err e, s')"
  by (simp add: st_bind.simps)

lemma st_bind_Panic [simp]: "m s = (Panic, s') \<Longrightarrow> st_bind m f s = (Panic, s')"
  by (simp add: st_bind.simps)

lemma st_simps [simp]:
  "st_return x s = (Ok x, s)" "st_lift r s = (r, s)" "st_bind (st_return x) f = f x"
  by (simp_all add: st_return_def st_lift_def st_bind.simps fun_eq_iff)

lemma st_bind_Ok_iff: "st_bind m f s = (Ok y, s'') \<longleftrightarrow> (\<exists>x s'. m s = (Ok x, s') \<and> f x s' = (Ok y, s''))"
  by (cases "m s"; cases "fst (m s)") (auto simp: st_bind.simps)

text \<open>
  What is documented of an SQLite table with a rowid. A failed insertion changes nothing. An insertion that
  succeeds counts one row, and its row id is one more than the largest in use as long as that is below the
  largest 64-bit integer. Reading the table may fail, and visits every row once, in no particular order.
\<close>

definition max_rowid :: int where
  "max_rowid = 2 ^ 63 - 1"

definition table_laws :: "'d sqlite \<Rightarrow> ('d \<Rightarrow> (int \<times> journal_row) list) \<Rightarrow> bool" where
  "table_laws sql rows \<longleftrightarrow>
     (\<forall>row d e d'. sql_insert sql row d = (Inl e, d') \<longrightarrow> rows d' = rows d) \<and>
     (\<forall>row d n d'. sql_insert sql row d = (Inr n, d') \<longrightarrow> n = 1 \<and>
        (\<exists>i. rows d' = rows d @ [(i, row)] \<and>
          (list_all (\<lambda>row. fst row < max_rowid) (rows d) \<longrightarrow> i = Max (insert 0 (fst ` set (rows d))) + 1))) \<and>
     (\<forall>k d vs. sql_visit sql k d = Inr vs \<longrightarrow> mset vs = mset (rows d))"

text \<open>
  A condition on the engine that the SELECT does not ask for: it reads the table without an error and
  visits the rows in the order of their ids.
\<close>

definition visits_in_order :: "'d sqlite \<Rightarrow> ('d \<Rightarrow> (int \<times> journal_row) list) \<Rightarrow> 'd \<Rightarrow> bool" where
  "visits_in_order sql rows d \<longleftrightarrow> (\<forall>k. sql_visit sql k d = Inr (rows d))"

definition rows_numbered :: "(int \<times> journal_row) list \<Rightarrow> bool" where
  "rows_numbered rows \<longleftrightarrow> map fst rows = map (\<lambda>i. int (Suc i)) [0..<length rows]"

definition holds_row :: "int \<times> journal_row \<Rightarrow> resource \<Rightarrow> bool" where
  "holds_row row r \<longleftrightarrow> (\<exists>d. resource_read (new_decoder (row_record (snd row))) = Ok (r, d))"

definition journal_holds :: "('d \<Rightarrow> (int \<times> journal_row) list) \<Rightarrow> 'd journal \<Rightarrow> resource list \<Rightarrow> bool" where
  "journal_holds rows j rs \<longleftrightarrow>
     j_version j = current_version \<and> rows_numbered (rows (j_conn j)) \<and> list_all2 holds_row (rows (j_conn j)) rs"

abbreviation storable :: "resource \<Rightarrow> bool" where
  "storable r \<equiv> wf_resource r \<and> normal_resource r = r"

lemma rows_numbered_nth: "rows_numbered rows \<Longrightarrow> k < length rows \<Longrightarrow> fst (rows ! k) = int (Suc k)"
  unfolding rows_numbered_def by (metis (no_types, lifting) add_0 diff_zero length_map length_upt nth_map nth_upt)

lemma rows_numbered_max: "rows_numbered rows \<Longrightarrow> Max (insert 0 (fst ` set rows)) = int (length rows)"
proof (intro Max_eqI)
  assume n: "rows_numbered rows"
  then have "fst ` set rows = set (map (\<lambda>i. int (Suc i)) [0..<length rows])"
    unfolding rows_numbered_def by (metis set_map)
  then have ids: "fst ` set rows = (\<lambda>i. int (Suc i)) ` {0..<length rows}" by simp
  show "y \<le> int (length rows)" if "y \<in> insert 0 (fst ` set rows)" for y using that unfolding ids by auto
  show "int (length rows) \<in> insert 0 (fst ` set rows)" unfolding ids by (cases "length rows") auto
qed simp

lemma find_first_from:
  assumes "rows_numbered rows" "i < length rows"
  shows "find (\<lambda>(k, row). k \<ge> int i + 1) rows = Some (rows ! i)"
proof -
  have "(case rows ! k of (k, row) \<Rightarrow> k \<ge> int i + 1) \<longleftrightarrow> i \<le> k" if "k < length rows" for k
    using rows_numbered_nth [OF assms(1) that] by (cases "rows ! k") auto
  then show ?thesis using assms(2) unfolding find_Some_iff by (intro exI [of _ i]) auto
qed

text \<open>Each step of the iterator yields a record that follows the one it stands on, or ends.\<close>

lemma journal_next_cases:
  assumes "table_laws sql rows" "journal_holds rows j rs"
  obtains "journal_next sql j (int i) = Ok None"
  | k where "i \<le> k" "k < length rs" "journal_next sql j (int i) = Ok (Some (rs ! k, int (Suc k)))"
proof (cases "sql_visit sql (int i + 1) (j_conn j)")
  case (Inl e)
  with assms(2) that(1) show thesis by (simp add: journal_next_def select_record_def select_first_def journal_holds_def)
next
  case (Inr vs)
  let ?rows = "rows (j_conn j)" and ?f = "find (\<lambda>(k, row). k \<ge> int i + 1) vs"
  have v: "j_version j = current_version" "rows_numbered ?rows" "list_all2 holds_row ?rows rs"
    using assms(2) by (simp_all add: journal_holds_def)
  have vs: "set vs = set ?rows" using assms(1) Inr unfolding table_laws_def by (metis set_mset_mset)
  show thesis
  proof (cases ?f)
    case None
    with Inr v(1) that(1) show thesis by (simp add: journal_next_def select_record_def select_first_def)
  next
    case (Some row)
    then have "row \<in> set vs" "fst row \<ge> int i + 1" by (auto simp: find_Some_iff in_set_conv_nth)
    then have "row \<in> set ?rows" using vs by simp
    then obtain k where k: "k < length ?rows" "row = ?rows ! k" by (metis in_set_conv_nth)
    then have row: "fst row = int (Suc k)" "i \<le> k" using rows_numbered_nth [OF v(2)] \<open>fst row \<ge> int i + 1\<close> by auto
    have len: "k < length rs" and "holds_row row (rs ! k)" using v(3) k by (auto simp: list_all2_conv_all_nth)
    then have "journal_next sql j (int i) = Ok (Some (rs ! k, int (Suc k)))"
      using Inr Some v(1) row(1) by (cases row) (auto simp: journal_next_def select_record_def select_first_def holds_row_def)
    with len row(2) that(2) show thesis by blast
  qed
qed

lemma journal_next_in_order:
  assumes "visits_in_order sql rows (j_conn j)" "journal_holds rows j rs" "i < length rs"
  shows "journal_next sql j (int i) = Ok (Some (rs ! i, int (Suc i)))"
proof -
  let ?row = "rows (j_conn j) ! i"
  have i: "i < length (rows (j_conn j))" and h: "holds_row ?row (rs ! i)" and n: "rows_numbered (rows (j_conn j))"
    using assms(2,3) by (auto simp: journal_holds_def list_all2_conv_all_nth)
  with find_first_from [OF n i] rows_numbered_nth [OF n i] assms(1,2) show ?thesis
    by (cases ?row) (auto simp: journal_next_def select_record_def select_first_def journal_holds_def visits_in_order_def holds_row_def)
qed

lemma journal_iter_from:
  assumes "table_laws sql rows" "journal_holds rows j rs" "length rs - i < fuel"
  shows "\<exists>xs. journal_iter fuel sql j (int i) = Ok xs \<and> subseq xs (drop i rs) \<and>
    (visits_in_order sql rows (j_conn j) \<longrightarrow> xs = drop i rs)"
  using assms(3)
proof (induction fuel arbitrary: i)
  case (Suc fuel)
  show ?case
  proof (rule journal_next_cases [OF assms(1,2), of i])
    assume none: "journal_next sql j (int i) = Ok None"
    then have "drop i rs = []" if "visits_in_order sql rows (j_conn j)"
      using journal_next_in_order [OF that assms(2), of i] by (cases "i < length rs") auto
    with none show ?thesis by simp
  next
    fix k assume k: "i \<le> k" "k < length rs" "journal_next sql j (int i) = Ok (Some (rs ! k, int (Suc k)))"
    then have "length rs - Suc k < fuel" using Suc.prems by linarith
    with Suc.IH obtain xs where xs: "journal_iter fuel sql j (int (Suc k)) = Ok xs"
        "subseq xs (drop (Suc k) rs)" "visits_in_order sql rows (j_conn j) \<longrightarrow> xs = drop (Suc k) rs"
      by blast
    have "drop k rs = drop (k - i) (drop i rs)" using k(1) by simp
    then have "suffix (drop k rs) (drop i rs)" by (metis suffix_drop)
    moreover have d: "drop k rs = rs ! k # drop (Suc k) rs" by (rule Cons_nth_drop_Suc [OF k(2), symmetric])
    ultimately have "subseq (rs ! k # xs) (drop i rs)"
      using xs(2) by (metis subseq_Cons2 suffix_imp_subseq subseq_order.trans)
    moreover have "k = i" if "visits_in_order sql rows (j_conn j)"
      using journal_next_in_order [OF that assms(2), of i] k by auto
    ultimately show ?thesis using k(3) xs d by (auto simp del: of_nat_Suc)
  qed
qed simp

lemmas journal_holds_iter = journal_iter_from [where i = 0, simplified]

lemma insert_record_holds:
  assumes "table_laws sql rows" "journal_holds rows j old" "storable r"
    "insert_record sql now ser r j = (Ok (), j')" "int (length old) < max_rowid"
  shows "journal_holds rows j' (old @ [r])"
proof -
  let ?rows = "rows (j_conn j)"
  have v: "j_version j = current_version" "rows_numbered ?rows" "length ?rows = length old"
    using assms(2) list_all2_lengthD by (auto simp: journal_holds_def)
  with assms(4) obtain e where e: "resource_emit r (new_encoder []) = (Ok (), e)"
    by (auto simp: insert_record_def split: outcome.splits prod.splits)
  let ?row = "\<lparr>row_client_id = 0, row_soa_serial = uint ser, row_timestamp = now, row_record = e_buffer e\<rparr>"
  obtain n d' where n: "sql_insert sql ?row (j_conn j) = (Inr n, d')" "j' = j\<lparr>j_conn := d'\<rparr>"
    using assms(4) v(1) e by (auto simp: insert_record_def execute_def st_bind.simps split: sum.splits prod.splits if_splits)
  have "\<forall>row\<in>set ?rows. fst row < max_rowid"
    using rows_numbered_max [OF v(2)] Max_ge [of "insert 0 (fst ` set ?rows)"] v(3) assms(5) by fastforce
  then obtain d' where i: "rows d' = ?rows @ [(int (length old) + 1, ?row)]" "j' = j\<lparr>j_conn := d'\<rparr>"
    using assms(1) n rows_numbered_max [OF v(2)] v(3) unfolding table_laws_def list_all_iff by metis
  moreover have "holds_row (i, ?row) r" for i
    using record_codec.put_get_new [OF assms(3) e] by (simp add: holds_row_def)
  ultimately show ?thesis
    using assms(2) v by (auto simp: journal_holds_def rows_numbered_def intro!: list_all2_appendI)
qed

lemma insert_records_holds:
  assumes "table_laws sql rows" "journal_holds rows j old" "list_all storable rs"
    "insert_records sql now ser rs j = (Ok (), j')" "int (length old + length rs) \<le> max_rowid"
  shows "journal_holds rows j' (old @ rs)"
  using assms(2-5)
proof (induction rs arbitrary: j old)
  case (Cons r rs)
  from Cons.prems(3) obtain j1 where j1: "insert_record sql now ser r j = (Ok (), j1)"
      "insert_records sql now ser rs j1 = (Ok (), j')"
    by (auto simp: st_bind_Ok_iff)
  with Cons.prems(1,2,4) insert_record_holds [OF assms(1) _ _ j1(1)] Cons.IH [of j1 "old @ [r]"]
  show ?case by simp
qed simp

section \<open>Properties\<close>

text \<open>
  C32. The iterator of the journal always ends, after at most as many steps as there are rows, and yields
  records that were inserted, each at most once and in the order of insertion: a subsequence of the rows
  the journal held and the records inserted since. It yields all of them when SQLite reads the table
  without an error and visits it in the order of the row ids; the SELECT, which has no ORDER BY, does not
  ask for that, and an error ends the iteration as the last row does.
\<close>
theorem journal_roundtrip:
  assumes "table_laws sql rows" "journal_holds rows j old" "list_all storable rs"
    "insert_records sql now ser rs j = (Ok (), j')" "int (length old + length rs) \<le> max_rowid"
    "length old + length rs < fuel"
  shows "\<exists>xs. journal_iter fuel sql j' 0 = Ok xs \<and> subseq xs (old @ rs) \<and>
    (visits_in_order sql rows (j_conn j') \<longrightarrow> xs = old @ rs)"
  using assms by (intro journal_holds_iter [OF assms(1) insert_records_holds [OF assms(1-5)]]) simp

text \<open>
  A table kept as a list, in the order of the row ids, which are given out as SQLite does; a table with
  the largest id in use takes no more rows.
\<close>

type_synonym list_db = "(int \<times> journal_row) list \<times> int option"

definition list_insert :: "journal_row \<Rightarrow> list_db \<Rightarrow> (sql_error + int) \<times> list_db" where
  "list_insert row d =
     (if list_all (\<lambda>row. fst row < max_rowid) (fst d)
      then (Inr 1, (fst d @ [(fold max (map fst (fst d)) 0 + 1, row)], snd d))
      else (Inl (SQL_Error ''database or disk is full''), d))"

definition list_sqlite :: "list_db sqlite" where
  "list_sqlite =
     \<lparr>sql_insert = list_insert,
      sql_visit = (\<lambda>k (rows, v). Inr rows),
      sql_schema_table = (\<lambda>(rows, v). Inr (if v = None then None else Some ''tdns_schema'')),
      sql_schema_version = (\<lambda>(rows, v). Inr (case v of Some n \<Rightarrow> n | None \<Rightarrow> 0)),
      sql_update_version = (\<lambda>n (rows, v). (Inr 1, (rows, Some n))),
      sql_create_schema = (\<lambda>d. (Inr 0, d)),
      sql_insert_schema = (\<lambda>(rows, v). (Inr 1, (rows, Some 0))),
      sql_create_records = (\<lambda>d. (Inr 1, d))\<rparr>"

lemma list_sqlite_laws: "table_laws list_sqlite fst"
proof -
  have "fold max (map fst rows) 0 = Max (insert 0 (fst ` set rows))" for rows :: "(int \<times> journal_row) list"
    using Max.set_eq_fold [of 0 "map fst rows"] by simp
  then show ?thesis
    by (auto simp: table_laws_def list_sqlite_def list_insert_def split: if_splits)
qed

lemma list_sqlite_in_order: "visits_in_order list_sqlite fst d"
  by (cases d) (simp add: visits_in_order_def list_sqlite_def)

theorem journal_roundtrip_witness:
  "\<exists>j'. insert_records list_sqlite 0 7 [a_record 1, a_record 2] \<lparr>j_conn = ([], Some 1), j_version = 1\<rparr> = (Ok (), j') \<and>
     journal_iter 3 list_sqlite j' 0 = Ok [a_record 1, a_record 2]"
proof -
  let ?j = "\<lparr>j_conn = ([], Some 1), j_version = 1\<rparr>"
  obtain r j' where r: "insert_records list_sqlite 0 7 [a_record 1, a_record 2] ?j = (r, j')" by fastforce
  have "fst (insert_records list_sqlite 0 7 [a_record 1, a_record 2] ?j) = Ok ()" by code_simp
  with r have "r = Ok ()" by simp
  moreover have "list_all storable [a_record 1, a_record 2]" by code_simp
  moreover have "journal_holds fst ?j []" by (simp add: journal_holds_def current_version_def rows_numbered_def)
  ultimately show ?thesis
    using r list_sqlite_in_order
      journal_roundtrip [OF list_sqlite_laws, of ?j "[]" "[a_record 1, a_record 2]" 0 7 j' 3]
    by (auto simp: max_rowid_def)
qed

lemma schema_up_1: "j_version j = 1 \<Longrightarrow> schema_up sql j = (Ok 1, j)"
  by (simp add: schema_up.simps current_version_def)

lemma schema_up_0:
  assumes "j_version j = 0" "schema_up sql j = (Ok v, j')"
  shows "v = 1 \<and> j_version j' = 1"
  using assms(2) unfolding schema_up.simps [of sql j] using assms(1)
  by (auto simp: current_version_def schema_up_1 split: outcome.splits prod.splits)

lemma schema_up_m1:
  assumes "j_version j = - 1" "schema_up sql j = (Ok v, j')"
  shows "v = 1 \<and> j_version j' = 1"
proof -
  obtain j1 where "schema_up sql (j1\<lparr>j_version := 0\<rparr>) = (Ok v, j')"
    using assms(2) unfolding schema_up.simps [of sql j] using assms(1)
    by (auto simp: current_version_def split: outcome.splits prod.splits)
  then show ?thesis by (intro schema_up_0) simp_all
qed

text \<open>
  Bringing up the schema ends, and ends at the current version: it succeeds only there, does
  nothing to a journal that is already current, and panics on a version it does not know.
\<close>
lemma schema_up_version:
  "(schema_up sql j = (Ok v, j') \<and> j_version j \<le> 1 \<longrightarrow> v = 1 \<and> j_version j' = 1) \<and>
   (j_version j = 1 \<longrightarrow> schema_up sql j = (Ok 1, j)) \<and>
   (j_version j < - 1 \<longrightarrow> schema_up sql j = (Panic, j))"
proof (intro conjI impI)
  show "schema_up sql j = (Ok 1, j)" if "j_version j = 1"
    using that by (rule schema_up_1)
  show "schema_up sql j = (Panic, j)" if "j_version j < - 1"
    using that by (simp add: schema_up.simps current_version_def)
  assume up: "schema_up sql j = (Ok v, j') \<and> j_version j \<le> 1"
  then have "\<not> j_version j < - 1" by (auto simp: schema_up.simps current_version_def)
  with up consider "j_version j = - 1" | "j_version j = 0" | "j_version j = 1" by linarith
  then have "v = 1 \<and> j_version j' = 1"
    using up by cases (auto dest: schema_up_m1 schema_up_0 simp: schema_up_1)
  then show "v = 1" "j_version j' = 1" by simp_all
qed

end
