(* ===== verification/Authority.thy ===== *)
theory Authority
  imports Journal
begin

text \<open>
  A zone (\<open>authority/authority.rs\<close>): its record sets ordered by name and type, the dynamic updates
  of RFC 2136 with their prerequisites and authorisation, the NSEC chain and the signatures of a
  secure zone, and its journal. Operations that change the zone are steps on the record
  \<open>authority\<close>; a failing step leaves the changes made so far. Times are integers in nanoseconds.
\<close>

section \<open>The zone\<close>

datatype zone_type = ZT_Master | ZT_Slave | ZT_Hint | ZT_Forward

record ('p, 'd) authority =
  a_origin :: name
  a_class :: dns_class
  a_journal :: "'d journal option"
  a_records :: "(rr_key, rr_set) btree"
  a_zone_type :: zone_type
  allow_update :: bool
  is_dnssec_enabled :: bool
  secure_keys :: "'p signer list"

definition authority_new ::
  "name \<Rightarrow> (rr_key, rr_set) btree \<Rightarrow> zone_type \<Rightarrow> bool \<Rightarrow> bool \<Rightarrow> ('p, 'd) authority" where
  "authority_new origin records zt allow dnssec =
     \<lparr>a_origin = origin, a_class = CL_IN, a_journal = None, a_records = records, a_zone_type = zt,
      allow_update = allow, is_dnssec_enabled = dnssec, secure_keys = []\<rparr>"

definition set_journal :: "'d journal \<Rightarrow> ('p, 'd) authority \<Rightarrow> ('p, 'd) authority" where
  "set_journal j a = a\<lparr>a_journal := Some j\<rparr>"

definition set_allow_update :: "bool \<Rightarrow> ('p, 'd) authority \<Rightarrow> ('p, 'd) authority" where
  "set_allow_update b a = a\<lparr>allow_update := b\<rparr>"

section \<open>Lookups\<close>

definition lookup :: "name \<Rightarrow> record_type \<Rightarrow> bool \<Rightarrow> supported_algorithms \<Rightarrow> ('p, 'd) authority \<Rightarrow> resource list" where
  "lookup name rtype is_secure algs a =
     (let name = (if rtype = RT_SOA then a_origin a else name) in
      if rtype = RT_ANY \<or> rtype = RT_AXFR then
        concat (map (get_records is_secure algs)
          (filter (\<lambda>s. rtype = RT_AXFR \<or> name_eq (rs_name s) name)
            (filter (\<lambda>s. rtype = RT_ANY \<or> rs_type s \<noteq> RT_SOA) (map snd (a_records a)))))
      else
        (case bt_get rr_key_cmp (rr_key_new name rtype) (a_records a) of
           Some s \<Rightarrow> get_records is_secure algs s
         | None \<Rightarrow> []))"

definition get_soa :: "('p, 'd) authority \<Rightarrow> resource option" where
  "get_soa a = (case lookup (a_origin a) RT_SOA False sa_new a of [] \<Rightarrow> None | r # _ \<Rightarrow> Some r)"

definition get_soa_secure :: "bool \<Rightarrow> supported_algorithms \<Rightarrow> ('p, 'd) authority \<Rightarrow> resource list" where
  "get_soa_secure is_secure algs a = lookup (a_origin a) RT_SOA is_secure algs a"

definition get_ns :: "bool \<Rightarrow> supported_algorithms \<Rightarrow> ('p, 'd) authority \<Rightarrow> resource list" where
  "get_ns is_secure algs a = lookup (a_origin a) RT_NS is_secure algs a"

definition get_minimum_ttl :: "('p, 'd) authority \<Rightarrow> u32" where
  "get_minimum_ttl a =
     (case get_soa a of None \<Rightarrow> 0 | Some r \<Rightarrow> (case rr_rdata r of RD_SOA soa \<Rightarrow> minimum soa | _ \<Rightarrow> 0))"

definition get_serial :: "('p, 'd) authority \<Rightarrow> (u32, 'e) outcome" where
  "get_serial a =
     (case get_soa a of
        None \<Rightarrow> Ok 0
      | Some r \<Rightarrow> (case rr_rdata r of RD_SOA soa \<Rightarrow> Ok (serial soa) | _ \<Rightarrow> Panic))"

definition search :: "query \<Rightarrow> bool \<Rightarrow> supported_algorithms \<Rightarrow> ('p, 'd) authority \<Rightarrow> resource list" where
  "search q is_secure algs a =
     (if q_type q = RT_AXFR \<and> a_zone_type a \<notin> {ZT_Master, ZT_Slave} then []
      else
        let query_result = lookup (q_name q) (q_type q) is_secure algs a in
        if q_type q = RT_AXFR then (case get_soa a of Some soa \<Rightarrow> soa # query_result @ [soa] | None \<Rightarrow> [])
        else query_result)"

text \<open>Names compare with \<open><\<close> as \<open>name_cmp\<close> says.\<close>

definition get_nsec_records :: "name \<Rightarrow> bool \<Rightarrow> supported_algorithms \<Rightarrow> ('p, 'd) authority \<Rightarrow> resource list" where
  "get_nsec_records name is_secure algs a =
     (case dropWhile (\<lambda>s. name_cmp name (rs_name s) = Less)
         (filter (\<lambda>s. rs_type s = RT_NSEC) (map snd (a_records a))) of
        [] \<Rightarrow> []
      | s # _ \<Rightarrow> get_records is_secure algs s)"

section \<open>Inserting records\<close>

text \<open>The outcome of a call that has no error result.\<close>

fun infallible :: "('a, 'e) outcome \<Rightarrow> ('a, 'f) outcome" where
  "infallible (Ok x) = Ok x"
| "infallible (Err _) = Panic"
| "infallible Panic = Panic"
| "infallible Overrun = Overrun"

definition upsert :: "resource \<Rightarrow> u32 \<Rightarrow> (('p, 'd) authority, bool, 'e) step" where
  "upsert r ser a =
     (if a_class a \<noteq> rr_class r then (Panic, a)
      else
        let key = rr_key_new (rr_name r) (rr_type r);
            s = (case bt_get rr_key_cmp key (a_records a) of
                   Some s \<Rightarrow> s
                 | None \<Rightarrow> rr_set_new (rr_name r) (rr_type r) ser)
        in (case infallible (rr_set_insert r ser s) of
              Ok (b, s') \<Rightarrow> (Ok b, a\<lparr>a_records := bt_insert rr_key_cmp key s' (a_records a)\<rparr>)
            | Err e \<Rightarrow> (Err e, a)
            | Panic \<Rightarrow> (Panic, a)
            | Overrun \<Rightarrow> (Overrun, a)))"

definition increment_soa_serial :: "(('p, 'd) authority, u32, 'e) step" where
  "increment_soa_serial a =
     (case get_soa a of
        None \<Rightarrow> (Ok 0, a)
      | Some soa \<Rightarrow>
          (case rr_rdata soa of
             RD_SOA d \<Rightarrow>
               st_bind (st_lift (increment_serial d)) (\<lambda>d'.
               st_bind (upsert (soa\<lparr>rr_rdata := RD_SOA d'\<rparr>) (serial d')) (\<lambda>_.
               st_return (serial d'))) a
           | _ \<Rightarrow> (Panic, a)))"

section \<open>Securing the zone\<close>

definition add_secure_key :: "'p ssl \<Rightarrow> 'p signer \<Rightarrow> (('p, 'd) authority, unit, dnssec_error) step" where
  "add_secure_key ssl signer a =
     (let zone_ttl = get_minimum_ttl a in
      st_bind (st_lift (to_dnskey ssl (sg_algorithm signer) (sg_key signer))) (\<lambda>dnskey.
      st_bind (st_lift (get_serial a)) (\<lambda>ser.
      st_bind (upsert (from_rdata (a_origin a) zone_ttl RT_DNSKEY (RD_DNSKEY dnskey)) ser) (\<lambda>_ a'.
      (Ok (), a'\<lparr>secure_keys := secure_keys a' @ [signer]\<rparr>)))) a)"

text \<open>The loop over the keys that builds the chain; \<open>nsec_info\<close> is the owner name under way and its types.\<close>

definition nsec_record :: "name \<Rightarrow> u32 \<Rightarrow> name \<Rightarrow> record_type list \<Rightarrow> resource" where
  "nsec_record name ttl next_name types =
     (resource_with name RT_NSEC ttl)\<lparr>rr_rdata := RD_NSEC \<lparr>next_domain_name = next_name, nsec_types = types\<rparr>\<rparr>"

fun nsec_loop ::
  "name \<Rightarrow> u32 \<Rightarrow> rr_key list \<Rightarrow> (name \<times> record_type list) option \<Rightarrow> resource list \<Rightarrow> resource list" where
  "nsec_loop origin ttl [] None records = records"
| "nsec_loop origin ttl [] (Some (name, types)) records = records @ [nsec_record name ttl origin types]"
| "nsec_loop origin ttl (key # keys) None records =
     nsec_loop origin ttl keys (Some (key_name key, [key_type key])) records"
| "nsec_loop origin ttl (key # keys) (Some (name, types)) records =
     (if name_eq name (key_name key)
      then nsec_loop origin ttl keys (Some (name, types @ [key_type key])) records
      else nsec_loop origin ttl keys (Some (key_name key, [key_type key]))
             (records @ [nsec_record name ttl (key_name key) types]))"

fun upsert_all :: "resource list \<Rightarrow> u32 \<Rightarrow> (('p, 'd) authority, unit, 'e) step" where
  "upsert_all [] ser = st_return ()"
| "upsert_all (r # rs) ser = st_bind (upsert r ser) (\<lambda>_. upsert_all rs ser)"

definition delete_keys :: "rr_key list \<Rightarrow> ('p, 'd) authority \<Rightarrow> ('p, 'd) authority" where
  "delete_keys ks a = a\<lparr>a_records := fold (bt_remove rr_key_cmp) ks (a_records a)\<rparr>"

definition nsec_zone :: "(('p, 'd) authority, unit, 'e) step" where
  "nsec_zone a =
     (if secure_keys a = [] then (Ok (), a)
      else
        let a' = delete_keys (filter (\<lambda>k. key_type k = RT_NSEC) (map fst (a_records a))) a;
            ttl = get_minimum_ttl a'
        in st_bind (st_lift (get_serial a'))
             (upsert_all (nsec_loop (a_origin a') ttl (map fst (a_records a')) None [])) a')"

definition timestamp :: "int \<Rightarrow> u32" where
  "timestamp t = of_int (t div 1000000000)"

definition make_rrsig :: "u32 \<Rightarrow> 'p signer \<Rightarrow> u32 \<Rightarrow> u32 \<Rightarrow> u16 \<Rightarrow> bytes \<Rightarrow> rr_set \<Rightarrow> resource" where
  "make_rrsig zone_ttl signer expiration inception tag signature s =
     (resource_with (rs_name s) RT_RRSIG zone_ttl)\<lparr>rr_rdata := RD_SIG
       \<lparr>type_covered = rs_type s, sig_algorithm = sg_algorithm signer, sig_num_labels = num_labels (rs_name s),
        original_ttl = rs_ttl s, sig_expiration = expiration, sig_inception = inception, sig_key_tag = tag,
        signer_name = sg_signer_name signer, sig_bytes = signature\<rparr>\<rparr>"

fun sign_set :: "'p ssl \<Rightarrow> int \<Rightarrow> u32 \<Rightarrow> dns_class \<Rightarrow> 'p signer list \<Rightarrow> (rr_set, unit, dnssec_error) step" where
  "sign_set ssl now zone_ttl cls [] s = (Ok (), s)"
| "sign_set ssl now zone_ttl cls (signer # signers) s =
     (let expiration = now + sg_sig_duration signer in
      case calculate_key_tag ssl signer of
        Ok tag \<Rightarrow>
          (case hash_rrset (rs_name s) cls (num_labels (rs_name s)) (rs_type s) (sg_algorithm signer) (rs_ttl s)
              (timestamp expiration) (timestamp now) tag (sg_signer_name signer) (get_records False sa_new s) of
             Ok hash \<Rightarrow>
               (case signer_sign ssl hash signer of
                  Ok signature \<Rightarrow>
                    sign_set ssl now zone_ttl cls signers
                      (insert_rrsig (make_rrsig zone_ttl signer (timestamp expiration) (timestamp now) tag signature s) s)
                | Err _ \<Rightarrow> sign_set ssl now zone_ttl cls signers s
                | Panic \<Rightarrow> (Panic, s)
                | Overrun \<Rightarrow> (Overrun, s))
           | Err _ \<Rightarrow> sign_set ssl now zone_ttl cls signers s
           | Panic \<Rightarrow> (Panic, s)
           | Overrun \<Rightarrow> (Overrun, s))
      | Err e \<Rightarrow> (Err e, s)
      | Panic \<Rightarrow> (Panic, s)
      | Overrun \<Rightarrow> (Overrun, s))"

fun sign_sets ::
  "'p ssl \<Rightarrow> int \<Rightarrow> u32 \<Rightarrow> dns_class \<Rightarrow> 'p signer list \<Rightarrow> ((rr_key, rr_set) btree, unit, dnssec_error) step" where
  "sign_sets ssl now zone_ttl cls signers [] = (Ok (), [])"
| "sign_sets ssl now zone_ttl cls signers ((k, s) # m) =
     (if rs_type s = RT_DNSKEY
      then (case sign_sets ssl now zone_ttl cls signers m of (r, m') \<Rightarrow> (r, (k, s) # m'))
      else
        (case sign_set ssl now zone_ttl cls signers (clear_rrsigs s) of
           (Ok _, s') \<Rightarrow> (case sign_sets ssl now zone_ttl cls signers m of (r, m') \<Rightarrow> (r, (k, s') # m'))
         | (r, s') \<Rightarrow> (r, (k, s') # m)))"

definition sign_zone :: "'p ssl \<Rightarrow> int \<Rightarrow> (('p, 'd) authority, unit, dnssec_error) step" where
  "sign_zone ssl now a =
     (case sign_sets ssl now (get_minimum_ttl a) (a_class a) (secure_keys a) (a_records a) of
        (r, m) \<Rightarrow> (r, a\<lparr>a_records := m\<rparr>))"

definition secure_zone :: "'p ssl \<Rightarrow> int \<Rightarrow> (('p, 'd) authority, unit, dnssec_error) step" where
  "secure_zone ssl now =
     st_bind nsec_zone (\<lambda>_. st_bind increment_soa_serial (\<lambda>_. sign_zone ssl now))"

section \<open>Dynamic updates\<close>

fun is_null :: "rdata \<Rightarrow> bool" where
  "is_null (RD_NULL _) = True"
| "is_null _ = False"

definition verify_prerequisite :: "resource \<Rightarrow> ('p, 'd) authority \<Rightarrow> (unit, response_code) outcome" where
  "verify_prerequisite require a =
     (if rr_ttl require \<noteq> 0 then Err FormErr
      else
        bind_outcome (zone_of (a_origin a) (rr_name require)) (\<lambda>inside.
        if \<not> inside then Err NotZone
        else
          let found = lookup (rr_name require) (rr_type require) False sa_new a in
          if rr_class require = CL_ANY then
            if is_null (rr_rdata require) then
              if rr_type require = RT_ANY
              then (if found = [] then Err NXDomain else Ok ())
              else (if found = [] then Err NXRRSet else Ok ())
            else Err FormErr
          else if rr_class require = CL_NONE then
            if is_null (rr_rdata require) then
              if rr_type require = RT_ANY
              then (if found \<noteq> [] then Err YXDomain else Ok ())
              else (if found \<noteq> [] then Err YXRRSet else Ok ())
            else Err FormErr
          else if rr_class require = a_class a then
            (if filter (\<lambda>rr. resource_eq rr require) found = [] then Err NXRRSet else Ok ())
          else Err FormErr))"

fun verify_prerequisites :: "resource list \<Rightarrow> ('p, 'd) authority \<Rightarrow> (unit, response_code) outcome" where
  "verify_prerequisites [] a = Ok ()"
| "verify_prerequisites (require # pre_requisites) a =
     bind_outcome (verify_prerequisite require a) (\<lambda>_. verify_prerequisites pre_requisites a)"

fun any_ok :: "('a \<Rightarrow> (bool, 'e) outcome) \<Rightarrow> 'a list \<Rightarrow> (bool, 'e) outcome" where
  "any_ok f [] = Ok False"
| "any_ok f (x # xs) = bind_outcome (f x) (\<lambda>b. if b then Ok True else any_ok f xs)"

definition key_accepts :: "'p ssl \<Rightarrow> message \<Rightarrow> sig \<Rightarrow> dnskey \<Rightarrow> (bool, response_code) outcome" where
  "key_accepts ssl m s key =
     (case from_public_bytes ssl (public_key key) (dk_algorithm key) of
        Err _ \<Rightarrow> Ok False
      | Panic \<Rightarrow> Panic
      | Overrun \<Rightarrow> Overrun
      | Ok pkey \<Rightarrow>
          (case verify_message ssl m (sig_bytes s)
              (new_verifier (dk_algorithm key) pkey (signer_name s) False True) of
             Ok _ \<Rightarrow> Ok True
           | Err _ \<Rightarrow> Ok False
           | Panic \<Rightarrow> Panic
           | Overrun \<Rightarrow> Overrun))"

definition sigs_of :: "resource list \<Rightarrow> sig list" where
  "sigs_of rs = List.map_filter (\<lambda>r. case rr_rdata r of RD_SIG s \<Rightarrow> Some s | _ \<Rightarrow> None) rs"

definition keys_of :: "resource list \<Rightarrow> dnskey list" where
  "keys_of rs = List.map_filter (\<lambda>r. case rr_rdata r of RD_KEY k \<Rightarrow> Some k | _ \<Rightarrow> None) rs"

definition authorize :: "'p ssl \<Rightarrow> message \<Rightarrow> ('p, 'd) authority \<Rightarrow> (unit, response_code) outcome" where
  "authorize ssl m a =
     (if \<not> allow_update a then Err Refused
      else if m_sig0 m = [] then Err Refused
      else
        bind_outcome
          (any_ok (\<lambda>s. any_ok (key_accepts ssl m s) (keys_of (lookup (signer_name s) RT_KEY False sa_new a)))
             (sigs_of (m_sig0 m)))
          (\<lambda>verified. if verified then Ok () else Err Refused))"

definition pre_scan_record :: "resource \<Rightarrow> ('p, 'd) authority \<Rightarrow> (unit, response_code) outcome" where
  "pre_scan_record rr a =
     bind_outcome (zone_of (a_origin a) (rr_name rr)) (\<lambda>inside.
     if \<not> inside then Err NotZone
     else if rr_class rr = a_class a then
       (if rr_type rr \<in> {RT_ANY, RT_AXFR, RT_IXFR} then Err FormErr else Ok ())
     else if rr_class rr = CL_ANY then
       if rr_ttl rr \<noteq> 0 then Err FormErr
       else if \<not> is_null (rr_rdata rr) then Err FormErr
       else if rr_type rr \<in> {RT_AXFR, RT_IXFR} then Err FormErr
       else Ok ()
     else if rr_class rr = CL_NONE then
       if rr_ttl rr \<noteq> 0 then Err FormErr
       else if rr_type rr \<in> {RT_ANY, RT_AXFR, RT_IXFR} then Err FormErr
       else Ok ()
     else Err FormErr)"

fun pre_scan :: "resource list \<Rightarrow> ('p, 'd) authority \<Rightarrow> (unit, response_code) outcome" where
  "pre_scan [] a = Ok ()"
| "pre_scan (rr # records) a = bind_outcome (pre_scan_record rr a) (\<lambda>_. pre_scan records a)"

text \<open>
  One record of the update section. Deleting all sets of a name skips the SOA and NS sets of names
  other than the origin, as the source's filter says.
\<close>

definition delete_name :: "name \<Rightarrow> (('p, 'd) authority, bool, 'e) step" where
  "delete_name name a =
     (let to_delete = filter (\<lambda>k. name_eq (key_name k) name)
            (filter (\<lambda>k. \<not> ((key_type k = RT_SOA \<or> key_type k = RT_NS) \<and> \<not> name_eq (key_name k) (a_origin a)))
              (map fst (a_records a)))
      in (Ok (to_delete \<noteq> []), delete_keys to_delete a))"

definition update_record :: "u32 \<Rightarrow> resource \<Rightarrow> (('p, 'd) authority, bool, response_code) step" where
  "update_record ser rr a =
     (let key = rr_key_new (rr_name rr) (rr_type rr) in
      if rr_class rr = a_class a then upsert rr ser a
      else if rr_class rr = CL_ANY then
        if (rr_type rr = RT_SOA \<or> rr_type rr = RT_NS) \<and> name_eq (rr_name rr) (a_origin a) then (Ok False, a)
        else if rr_type rr = RT_ANY then delete_name (rr_name rr) a
        else if is_null (rr_rdata rr) then
          (Ok (bt_get rr_key_cmp key (a_records a) \<noteq> None), delete_keys [key] a)
        else (Err FormErr, a)
      else if rr_class rr = CL_NONE then
        (case bt_get rr_key_cmp key (a_records a) of
           Some s \<Rightarrow>
             (case rr_set_remove rr ser s of
                Ok (deleted, s') \<Rightarrow> (Ok deleted, a\<lparr>a_records := bt_insert rr_key_cmp key s' (a_records a)\<rparr>)
              | Err e \<Rightarrow> (Err e, a)
              | Panic \<Rightarrow> (Panic, a)
              | Overrun \<Rightarrow> (Overrun, a))
         | None \<Rightarrow> (Ok False, a))
      else (Err FormErr, a))"

fun update_loop :: "u32 \<Rightarrow> resource list \<Rightarrow> bool \<Rightarrow> (('p, 'd) authority, bool, response_code) step" where
  "update_loop ser [] updated = st_return updated"
| "update_loop ser (rr # records) updated =
     st_bind (update_record ser rr) (\<lambda>changed. update_loop ser records (updated \<or> changed))"

definition write_ahead :: "'d sqlite \<Rightarrow> int \<Rightarrow> u32 \<Rightarrow> resource list \<Rightarrow> (('p, 'd) authority, unit, response_code) step" where
  "write_ahead sql now ser records a =
     (case a_journal a of
        None \<Rightarrow> (Ok (), a)
      | Some j \<Rightarrow>
          (case insert_records sql now ser records j of
             (r, j') \<Rightarrow> (map_outcome_err (\<lambda>_. ServFail) r, a\<lparr>a_journal := Some j'\<rparr>)))"

definition finish_update :: "'p ssl \<Rightarrow> int \<Rightarrow> bool \<Rightarrow> (('p, 'd) authority, bool, response_code) step" where
  "finish_update ssl now updated a =
     (if is_dnssec_enabled a
      then st_bind (st_map_err (\<lambda>_. ServFail) (secure_zone ssl now)) (\<lambda>_. st_return updated) a
      else st_bind increment_soa_serial (\<lambda>_. st_return updated) a)"

definition update_records ::
  "'p ssl \<Rightarrow> 'd sqlite \<Rightarrow> int \<Rightarrow> resource list \<Rightarrow> bool \<Rightarrow> (('p, 'd) authority, bool, response_code) step" where
  "update_records ssl sql now records auto_signing_and_increment a =
     st_bind (st_lift (get_serial a)) (\<lambda>ser.
     st_bind (write_ahead sql now ser records) (\<lambda>_.
     st_bind (update_loop ser records False) (\<lambda>updated.
     if updated \<and> auto_signing_and_increment then finish_update ssl now updated else st_return updated))) a"

definition update :: "'p ssl \<Rightarrow> 'd sqlite \<Rightarrow> int \<Rightarrow> message \<Rightarrow> (('p, 'd) authority, bool, response_code) step" where
  "update ssl sql now m a =
     st_bind (st_lift (authorize ssl m a)) (\<lambda>_.
     st_bind (st_lift (verify_prerequisites (get_pre_requisites m) a)) (\<lambda>_.
     st_bind (st_lift (pre_scan (get_updates m) a)) (\<lambda>_.
     update_records ssl sql now (get_updates m) True))) a"

section \<open>Recovery and persistence\<close>

text \<open>The journal that is read is separate from the one of the zone; the fuel bounds its rows.\<close>

fun recover_loop ::
  "nat \<Rightarrow> 'p ssl \<Rightarrow> 'd sqlite \<Rightarrow> int \<Rightarrow> 'd journal \<Rightarrow> int \<Rightarrow> (('p, 'd) authority, unit, persistence_error) step" where
  "recover_loop 0 ssl sql now j i a = (Overrun, a)"
| "recover_loop (Suc fuel) ssl sql now j i a =
     st_bind (st_lift (journal_next sql j i)) (\<lambda>next.
     case next of
       None \<Rightarrow> st_return ()
     | Some (r, i') \<Rightarrow>
         if rr_type r = RT_AXFR then (\<lambda>a'. recover_loop fuel ssl sql now j i' (a'\<lparr>a_records := []\<rparr>))
         else st_bind (st_map_err PE_RecoveryError (update_records ssl sql now [r] False)) (\<lambda>_.
              recover_loop fuel ssl sql now j i')) a"

definition recover_with_journal ::
  "nat \<Rightarrow> 'p ssl \<Rightarrow> 'd sqlite \<Rightarrow> int \<Rightarrow> 'd journal \<Rightarrow> (('p, 'd) authority, unit, persistence_error) step" where
  "recover_with_journal fuel ssl sql now j a =
     (if a_records a \<noteq> [] then (Panic, a)
      else
        st_bind (recover_loop fuel ssl sql now j 0) (\<lambda>_ a'.
        if is_dnssec_enabled a' then st_map_err PE_DnsSec (sign_zone ssl now) a' else (Ok (), a')) a)"

definition persist_to_journal :: "'d sqlite \<Rightarrow> int \<Rightarrow> (('p, 'd) authority, unit, persistence_error) step" where
  "persist_to_journal sql now a =
     (case a_journal a of
        None \<Rightarrow> (Ok (), a)
      | Some j \<Rightarrow>
          (case get_serial a of
             Ok ser \<Rightarrow>
               (case insert_records sql now ser
                   (resource_new\<lparr>rr_type := RT_AXFR\<rparr> # concat (map (rs_records \<circ> snd) (a_records a))) j of
                  (r, j') \<Rightarrow> (r, a\<lparr>a_journal := Some j'\<rparr>))
           | Err e \<Rightarrow> (Err e, a)
           | Panic \<Rightarrow> (Panic, a)
           | Overrun \<Rightarrow> (Overrun, a)))"

end
