(* ===== verification/Zone_Updates.thy ===== *)
theory Zone_Updates
  imports Authority
begin

text \<open>
  The dynamic update of a zone (\<open>authority/authority.rs\<close>): the invariant of zones, the abstract zone
  (which data is held under which name and type), the abstract effect of a record of the update
  section, and the proof that \<open>update_records\<close> implements it.
\<close>

section \<open>The invariant of zones\<close>

definition entry_inv :: "dns_class \<Rightarrow> rr_key \<times> rr_set \<Rightarrow> bool" where
  "entry_inv cls e \<longleftrightarrow>
     name_eq (key_name (fst e)) (rs_name (snd e)) \<and> key_type (fst e) = rs_type (snd e) \<and> rr_set_inv (snd e) \<and>
     list_all (\<lambda>r. rr_class r = cls) (rs_records (snd e))"

definition zone_inv :: "('p, 'd) authority \<Rightarrow> bool" where
  "zone_inv a \<longleftrightarrow> bt_sorted rr_key_cmp (a_records a) \<and> list_all (entry_inv (a_class a)) (a_records a)"

definition zone_get :: "('p, 'd) authority \<Rightarrow> name \<Rightarrow> record_type \<Rightarrow> resource list" where
  "zone_get a n t =
     (case bt_get rr_key_cmp (rr_key_new n t) (a_records a) of Some s \<Rightarrow> rs_records s | None \<Rightarrow> [])"

definition zone_has :: "('p, 'd) authority \<Rightarrow> name \<Rightarrow> record_type \<Rightarrow> rdata \<Rightarrow> bool" where
  "zone_has a n t = holds (zone_get a n t)"

abbreviation same_key :: "name \<Rightarrow> record_type \<Rightarrow> resource \<Rightarrow> bool" where
  "same_key n t r \<equiv> name_eq n (rr_name r) \<and> t = rr_type r"

lemma rr_key_new_sel [simp]: "key_name (rr_key_new n t) = n" "key_type (rr_key_new n t) = t"
  by (simp_all add: rr_key_new_def)

lemma get_records_plain [simp]: "get_records False algs s = rs_records s"
  by (simp add: get_records_def)

lemma zone_inv_get:
  assumes "zone_inv a" "bt_get rr_key_cmp (rr_key_new n t) (a_records a) = Some s"
  shows "rr_set_inv s" "name_eq n (rs_name s)" "rs_type s = t" "list_all (\<lambda>r. rr_class r = a_class a) (rs_records s)"
proof -
  obtain k where k: "(k, s) \<in> set (a_records a)" "rr_key_cmp (rr_key_new n t) k = Equal"
    using bt_get_mem [OF assms(2)] by blast
  with assms(1) have "entry_inv (a_class a) (k, s)" by (auto simp: zone_inv_def list_all_iff)
  with k(2) show "rr_set_inv s" "name_eq n (rs_name s)" "rs_type s = t"
      "list_all (\<lambda>r. rr_class r = a_class a) (rs_records s)"
    by (auto simp: entry_inv_def rr_key_cmp_Equal intro: name_eq_trans)
qed

lemma zone_get_insert:
  assumes "zone_inv a"
  shows "zone_get (a\<lparr>a_records := bt_insert rr_key_cmp (rr_key_new m u) s (a_records a)\<rparr>) n t =
    (if name_eq n m \<and> t = u then rs_records s else zone_get a n t)"
  using assms by (auto simp: zone_get_def zone_inv_def key_ord.bt_get_insert rr_key_cmp_Equal)

lemma zone_inv_insert:
  assumes "zone_inv a" "name_eq n (rs_name s)" "t = rs_type s" "rr_set_inv s"
    "list_all (\<lambda>r. rr_class r = a_class a) (rs_records s)"
  shows "zone_inv (a\<lparr>a_records := bt_insert rr_key_cmp (rr_key_new n t) s (a_records a)\<rparr>)"
proof -
  have "entry_inv (a_class a) e" if "e \<in> set (bt_insert rr_key_cmp (rr_key_new n t) s (a_records a))" for e
    using bt_insert_mem [OF that] assms
    by (auto simp: zone_inv_def list_all_iff entry_inv_def rr_key_cmp_Equal name_eq_iff)
  then show ?thesis using assms(1) by (auto simp: zone_inv_def list_all_iff intro: key_ord.bt_sorted_insert)
qed

lemma set_fold_bt_remove: "set (fold (bt_remove c) ks m) \<subseteq> set m"
proof (induction ks arbitrary: m)
  case (Cons k ks)
  from Cons [of "bt_remove c k m"] set_bt_remove_subset [of c k m] show ?case by auto
qed simp

lemma bt_sorted_fold_remove: "bt_sorted c m \<Longrightarrow> bt_sorted c (fold (bt_remove c) ks m)"
  by (induction ks arbitrary: m) (simp_all add: bt_sorted_remove)

lemma zone_inv_delete: "zone_inv a \<Longrightarrow> zone_inv (delete_keys ks a)"
  using set_fold_bt_remove [of rr_key_cmp ks "a_records a"]
  by (auto simp: zone_inv_def delete_keys_def list_all_iff bt_sorted_fold_remove)

lemma bt_get_fold_remove:
  "bt_sorted rr_key_cmp m \<Longrightarrow>
   bt_get rr_key_cmp k (fold (bt_remove rr_key_cmp) ks m) =
     (if \<exists>k' \<in> set ks. rr_key_cmp k k' = Equal then None else bt_get rr_key_cmp k m)"
  by (induction ks arbitrary: m) (auto simp: bt_sorted_remove key_ord.bt_get_remove)

lemma zone_get_delete:
  "zone_inv a \<Longrightarrow>
   zone_get (delete_keys ks a) n t =
     (if \<exists>k \<in> set ks. name_eq n (key_name k) \<and> t = key_type k then [] else zone_get a n t)"
  by (auto simp: zone_get_def delete_keys_def zone_inv_def bt_get_fold_remove rr_key_cmp_Equal)

section \<open>The effect of one record\<close>

fun soa_older :: "rdata \<Rightarrow> rdata \<Rightarrow> bool" where
  "soa_older (RD_SOA old) (RD_SOA new) \<longleftrightarrow> serial old < serial new"
| "soa_older _ _ \<longleftrightarrow> False"

type_synonym zone = "name \<Rightarrow> record_type \<Rightarrow> rdata \<Rightarrow> bool"

definition at_most_one :: "(rdata \<Rightarrow> bool) \<Rightarrow> bool" where
  "at_most_one P \<longleftrightarrow> (\<forall>rd rd'. P rd \<and> P rd' \<longrightarrow> rdata_eq rd rd')"

definition spec_add :: "resource \<Rightarrow> zone \<Rightarrow> zone" where
  "spec_add r z n t rd \<longleftrightarrow>
     (if \<not> same_key n t r then z n t rd
      else if t = RT_SOA then
        (if \<forall>old. z n t old \<longrightarrow> soa_older old (rr_rdata r) then rdata_eq (rr_rdata r) rd else z n t rd)
      else if t = RT_CNAME then rdata_eq (rr_rdata r) rd
      else z n t rd \<or> rdata_eq (rr_rdata r) rd)"

definition spec_delete_name :: "name \<Rightarrow> name \<Rightarrow> zone \<Rightarrow> zone" where
  "spec_delete_name origin m z n t rd \<longleftrightarrow>
     z n t rd \<and> \<not> (name_eq n m \<and> (t \<notin> {RT_SOA, RT_NS} \<or> name_eq n origin))"

definition spec_delete_set :: "name \<Rightarrow> resource \<Rightarrow> zone \<Rightarrow> zone" where
  "spec_delete_set origin r z n t rd \<longleftrightarrow>
     z n t rd \<and> \<not> (same_key n t r \<and> \<not> (t \<in> {RT_SOA, RT_NS} \<and> name_eq n origin))"

definition spec_delete :: "resource \<Rightarrow> zone \<Rightarrow> zone" where
  "spec_delete r z n t rd \<longleftrightarrow>
     z n t rd \<and> \<not> (same_key n t r \<and> rdata_eq (rr_rdata r) rd \<and>
                  \<not> (t = RT_SOA \<or> t = RT_NS \<and> at_most_one (z n t)))"

definition spec_update :: "name \<Rightarrow> dns_class \<Rightarrow> resource \<Rightarrow> zone \<Rightarrow> zone" where
  "spec_update origin cls r z =
     (if rr_class r = cls then spec_add r z
      else if rr_class r = CL_ANY then
        (if rr_type r = RT_ANY then spec_delete_name origin (rr_name r) z else spec_delete_set origin r z)
      else spec_delete r z)"

text \<open>
  The records an update section may hold: what the prescan accepts, and SOA records to add have SOA
  data.
\<close>

definition update_ok :: "dns_class \<Rightarrow> resource \<Rightarrow> bool" where
  "update_ok cls r \<longleftrightarrow>
     (if rr_class r = cls then rr_type r = RT_SOA \<longrightarrow> is_soa (rr_rdata r)
      else if rr_class r = CL_ANY then is_null (rr_rdata r) \<or> rr_type r = RT_ANY
      else rr_class r = CL_NONE)"

lemma rdata_eq_soa: "rdata_eq (RD_SOA x) rd \<Longrightarrow> \<exists>y. rd = RD_SOA y \<and> serial y = serial x"
  by (cases rd) (auto simp: rdata_eq_def dest: arg_cong [where f = serial])

lemma newer_soa_iff:
  assumes "rr_set_inv s" "rs_type s = RT_SOA" "is_soa (rr_rdata r)"
  shows "newer_soa r (rs_records s) \<longleftrightarrow> (\<forall>old. holds (rs_records s) old \<longrightarrow> soa_older old (rr_rdata r))"
proof (cases "rs_records s")
  case Nil
  then show ?thesis by (simp add: newer_soa_def)
next
  case (Cons q rs)
  with assms have rs: "rs_records s = [q]" "is_soa (rr_rdata q)" by (auto simp: rr_set_inv_def)
  then obtain x y where x: "rr_rdata q = RD_SOA x" "rr_rdata r = RD_SOA y"
    using assms(3) by (cases "rr_rdata q"; cases "rr_rdata r") auto
  have "soa_older old (RD_SOA y) \<longleftrightarrow> serial x < serial y" if "rdata_eq (RD_SOA x) old" for old
    using rdata_eq_soa [OF that] by auto
  then have "(\<forall>old. rdata_eq (RD_SOA x) old \<longrightarrow> soa_older old (RD_SOA y)) \<longleftrightarrow> serial x < serial y"
    using rdata_eq_refl [of "RD_SOA x"] by blast
  then show ?thesis by (simp add: newer_soa_def rs x)
qed

lemma at_most_one_holds:
  assumes "distinct_data rs"
  shows "at_most_one (holds rs) \<longleftrightarrow> length rs \<le> 1"
proof
  assume one: "at_most_one (holds rs)"
  show "length rs \<le> 1"
  proof (rule ccontr)
    assume "\<not> length rs \<le> 1"
    then obtain q q' rs' where rs: "rs = q # q' # rs'" by (cases rs; cases "tl rs") auto
    then have "holds rs (rr_rdata q)" "holds rs (rr_rdata q')" by (simp_all add: rdata_eq_refl)
    with one have "rdata_eq (rr_rdata q') (rr_rdata q)" by (auto simp: at_most_one_def)
    with assms rs show False by simp
  qed
next
  assume "length rs \<le> 1"
  then show "at_most_one (holds rs)"
    by (cases rs) (auto simp: at_most_one_def dest: rdata_eq_left)
qed

lemma zone_has_simps:
  "zone_has a n t rd \<longleftrightarrow> holds (zone_get a n t) rd"
  by (simp add: zone_has_def)

lemma zone_get_cong: "name_eq n m \<Longrightarrow> zone_get a n t = zone_get a m t"
  unfolding zone_get_def by (subst key_ord.bt_get_cong [of _ "rr_key_new m t"]) (simp_all add: rr_key_cmp_Equal)

lemma zone_get_same_key: "same_key n t r \<Longrightarrow> zone_get a n t = zone_get a (rr_name r) (rr_type r)"
  by (auto intro: zone_get_cong)

text \<open>The set a record goes to: the present one or a new one.\<close>

definition set_for :: "('p, 'd) authority \<Rightarrow> resource \<Rightarrow> u32 \<Rightarrow> rr_set" where
  "set_for a r ser =
     (case bt_get rr_key_cmp (rr_key_new (rr_name r) (rr_type r)) (a_records a) of
        Some s \<Rightarrow> s | None \<Rightarrow> rr_set_new (rr_name r) (rr_type r) ser)"

lemma set_for_props:
  assumes "zone_inv a"
  shows "rr_set_inv (set_for a r ser)" "same_owner (set_for a r ser) r" "rs_type (set_for a r ser) = rr_type r"
    "rs_records (set_for a r ser) = zone_get a (rr_name r) (rr_type r)"
    "list_all (\<lambda>q. rr_class q = a_class a) (rs_records (set_for a r ser))"
  using zone_inv_get [OF assms, of "rr_name r" "rr_type r"]
  by (auto simp: set_for_def zone_get_def rr_set_new_def rr_set_inv_def same_owner_def split: option.splits)

lemma upsert_set_for:
  assumes "rr_class r = a_class a" "rr_set_insert r ser (set_for a r ser) = Ok (b, s')"
  shows "upsert r ser a = (Ok b, a\<lparr>a_records :=
    bt_insert rr_key_cmp (rr_key_new (rr_name r) (rr_type r)) s' (a_records a)\<rparr>)"
  using assms by (simp add: upsert_def Let_def set_for_def)

lemma insert_records_of:
  assumes "rr_set_inv s" "same_owner s r" "rs_type s = RT_SOA \<Longrightarrow> is_soa (rr_rdata r)"
    "rr_set_insert r ser s = Ok (b, s')"
  shows "rr_set_inv s' \<and> rs_name s' = rs_name s \<and> rs_type s' = rs_type s \<and>
    set (rs_records s') \<subseteq> insert r (set (rs_records s)) \<and> (\<not> b \<longrightarrow> s' = s) \<and> (b \<longrightarrow> r \<in> set (rs_records s')) \<and>
    (holds (rs_records s') rd \<longleftrightarrow>
       (if rs_type s = RT_SOA then
          (if newer_soa r (rs_records s) then rdata_eq (rr_rdata r) rd else holds (rs_records s) rd)
        else if rs_type s = RT_CNAME then rdata_eq (rr_rdata r) rd
        else holds (rs_records s) rd \<or> rdata_eq (rr_rdata r) rd))"
  using assms(1,2)
proof (cases rule: rr_set_insert_cases [where ser = ser])
  case kept
  then have s: "s' = s" "\<not> b" using assms(4) by simp_all
  have "holds (rs_records s) rd \<longleftrightarrow> holds (rs_records s) rd \<or> rdata_eq (rr_rdata r) rd" if "rs_type s \<noteq> RT_SOA"
    using kept(3) [OF that]
    by (auto simp: holds_def list_ex_iff resource_eq_def dest: rdata_eq_left)
  moreover have "rs_type s \<noteq> RT_CNAME" using kept(1) rr_set_insert_cname [OF assms(1,2), of ser] by auto
  ultimately show ?thesis using kept s assms(1) by auto
next
  case (changed rs)
  then have s: "s' = changed_set r ser rs s" "b" using assms(4) by simp_all
  have "rr_set_inv s'" by (rule rr_set_insert_inv [OF assms(1,2,3,4)])
  moreover have "holds rs rd \<longleftrightarrow>
       (if rs_type s = RT_SOA then
          (if newer_soa r (rs_records s) then rdata_eq (rr_rdata r) rd else holds (rs_records s) rd)
        else if rs_type s = RT_CNAME then rdata_eq (rr_rdata r) rd
        else holds (rs_records s) rd \<or> rdata_eq (rr_rdata r) rd)"
    using changed(5-7) by auto
  ultimately show ?thesis using changed(3,4) s by simp
qed

definition same_frame :: "('p, 'd) authority \<Rightarrow> ('p, 'd) authority \<Rightarrow> bool" where
  "same_frame a a' \<longleftrightarrow> a' = a\<lparr>a_records := a_records a'\<rparr>"

lemma same_frame_sel:
  assumes "same_frame a a'"
  shows "a_origin a' = a_origin a" "a_class a' = a_class a" "a_journal a' = a_journal a"
    "a_zone_type a' = a_zone_type a" "allow_update a' = allow_update a"
    "is_dnssec_enabled a' = is_dnssec_enabled a" "secure_keys a' = secure_keys a"
  using assms unfolding same_frame_def by (metis authority.select_convs authority.surjective authority.update_convs(4))+

lemma same_frame_refl [simp]: "same_frame a a"
  by (simp add: same_frame_def)

lemma same_frame_records [simp]: "same_frame a (a\<lparr>a_records := m\<rparr>)"
  by (simp add: same_frame_def)

lemma same_frame_trans: "same_frame a b \<Longrightarrow> same_frame b c \<Longrightarrow> same_frame a c"
  unfolding same_frame_def by (metis authority.surjective authority.update_convs(4))

lemma upsert_effect:
  assumes "zone_inv a" "rr_class r = a_class a" "rr_type r = RT_SOA \<Longrightarrow> is_soa (rr_rdata r)"
  obtains b a' where "upsert r ser a = (Ok b :: (bool, 'e) outcome, a')" "zone_inv a'" "same_frame a a'"
    "zone_has a' = spec_add r (zone_has a)"
    "b \<Longrightarrow> r \<in> set (zone_get a' (rr_name r) (rr_type r))"
    "\<And>n t. \<not> b \<or> \<not> same_key n t r \<Longrightarrow> zone_get a' n t = zone_get a n t"
    "set (zone_get a' (rr_name r) (rr_type r)) \<subseteq> insert r (set (zone_get a (rr_name r) (rr_type r)))"
proof -
  let ?s = "set_for a r ser"
  note s = set_for_props [OF assms(1), of r ser]
  obtain b s' where ins: "rr_set_insert r ser ?s = Ok (b, s')" using rr_set_insert_total [OF s(1,2)] by blast
  note of = insert_records_of [OF s(1,2) _ ins]
  let ?a = "a\<lparr>a_records := bt_insert rr_key_cmp (rr_key_new (rr_name r) (rr_type r)) s' (a_records a)\<rparr>"
  have soa: "rs_type ?s = RT_SOA \<Longrightarrow> is_soa (rr_rdata r)" using assms(3) s(3) by simp
  have get: "zone_get ?a n t = (if same_key n t r then rs_records s' else zone_get a n t)" for n t
    by (rule zone_get_insert [OF assms(1)])
  have s': "rr_set_inv s'" "rs_name s' = rs_name ?s" "rs_type s' = rr_type r"
    "set (rs_records s') \<subseteq> insert r (set (rs_records ?s))" "\<not> b \<Longrightarrow> s' = ?s" "b \<Longrightarrow> r \<in> set (rs_records s')"
    using of [OF soa, of null_new] unfolding s(3) by blast+
  have data: "holds (rs_records s') rd \<longleftrightarrow>
       (if rr_type r = RT_SOA then
          (if newer_soa r (rs_records ?s) then rdata_eq (rr_rdata r) rd else holds (rs_records ?s) rd)
        else if rr_type r = RT_CNAME then rdata_eq (rr_rdata r) rd
        else holds (rs_records ?s) rd \<or> rdata_eq (rr_rdata r) rd)" for rd
    using of [OF soa, of rd] unfolding s(3) by blast
  have newer: "newer_soa r (rs_records ?s) \<longleftrightarrow> (\<forall>old. holds (rs_records ?s) old \<longrightarrow> soa_older old (rr_rdata r))"
    if "rr_type r = RT_SOA"
    using that s(3) soa by (intro newer_soa_iff [OF s(1)]) simp_all
  have "name_eq (rr_name r) (rs_name ?s)" using s(2) by (simp add: same_owner_def)
  moreover have "list_all (\<lambda>r. rr_class r = a_class a) (rs_records s')"
    using s'(4) s(5) assms(2) by (auto simp: list_all_iff)
  ultimately have inv: "zone_inv ?a"
    using s' assms(1) by (intro zone_inv_insert) simp_all
  have "zone_has ?a n t rd \<longleftrightarrow> spec_add r (zone_has a) n t rd" for n t rd
  proof (cases "same_key n t r")
    case True
    then have t: "t = rr_type r" and n: "name_eq n (rr_name r)" by simp_all
    then have old: "zone_get a n (rr_type r) = rs_records ?s" using s(4) zone_get_cong [of n "rr_name r"] by simp
    have new: "zone_get ?a n (rr_type r) = rs_records s'" using n by (simp add: get)
    show ?thesis
      unfolding zone_has_simps spec_add_def t new old data
      using n newer by (cases "rr_type r = RT_SOA") simp_all
  qed (auto simp: zone_has_simps get spec_add_def)
  then have has: "zone_has ?a = spec_add r (zone_has a)" by (simp add: fun_eq_iff)
  have kept: "zone_get ?a n t = zone_get a n t" if "\<not> b \<or> \<not> same_key n t r" for n t
    using that s'(5) s(4) zone_get_cong [of n "rr_name r" a t] by (auto simp: get)
  show thesis
  proof (rule that [OF upsert_set_for [OF assms(2) ins] inv _ has _ kept])
    show "same_frame a ?a" by simp
    show "r \<in> set (zone_get ?a (rr_name r) (rr_type r))" if "b" using s'(6) that by (simp add: get)
    show "set (zone_get ?a (rr_name r) (rr_type r)) \<subseteq> insert r (set (zone_get a (rr_name r) (rr_type r)))"
      using s'(4) s(4) by (simp add: get)
  qed
qed

lemma zone_get_None: "\<not> (\<exists>k \<in> set (map fst (a_records a)). name_eq n (key_name k) \<and> t = key_type k) \<Longrightarrow> zone_get a n t = []"
  using bt_get_None_iff [of rr_key_cmp "rr_key_new n t" "a_records a"]
  by (fastforce simp: zone_get_def rr_key_cmp_Equal split: option.splits)

lemma deleted_keys_iff:
  "(\<exists>k \<in> {k \<in> K. \<not> ((key_type k = RT_SOA \<or> key_type k = RT_NS) \<and> \<not> name_eq (key_name k) org) \<and> name_eq (key_name k) m}.
      name_eq n (key_name k) \<and> t = key_type k) \<longleftrightarrow>
   name_eq n m \<and> (t \<notin> {RT_SOA, RT_NS} \<or> name_eq n org) \<and> (\<exists>k \<in> K. name_eq n (key_name k) \<and> t = key_type k)"
  (is "?l \<longleftrightarrow> ?r")
proof
  assume ?l
  then show ?r by (auto intro: name_eq_trans)
next
  assume ?r
  then obtain k where "k \<in> K" "name_eq n (key_name k)" "t = key_type k" "name_eq n m"
    "t \<notin> {RT_SOA, RT_NS} \<or> name_eq n org" by blast
  then show ?l by (intro bexI [of _ k]) (auto simp: name_eq_iff)
qed

lemma delete_name_effect:
  assumes "zone_inv a"
  obtains b a' where "delete_name m a = (Ok b :: (bool, 'e) outcome, a')" "zone_inv a'" "same_frame a a'"
    "zone_has a' = spec_delete_name (a_origin a) m (zone_has a)"
    "\<And>n t. zone_get a' n t = (if name_eq n m \<and> (t \<notin> {RT_SOA, RT_NS} \<or> name_eq n (a_origin a)) then [] else zone_get a n t)"
proof -
  let ?ks = "filter (\<lambda>k. name_eq (key_name k) m)
     (filter (\<lambda>k. \<not> ((key_type k = RT_SOA \<or> key_type k = RT_NS) \<and> \<not> name_eq (key_name k) (a_origin a)))
        (map fst (a_records a)))"
  have get: "zone_get (delete_keys ?ks a) n t =
      (if name_eq n m \<and> (t \<notin> {RT_SOA, RT_NS} \<or> name_eq n (a_origin a)) then [] else zone_get a n t)" for n t
  proof -
    have ks: "set ?ks = {k \<in> set (map fst (a_records a)).
        \<not> ((key_type k = RT_SOA \<or> key_type k = RT_NS) \<and> \<not> name_eq (key_name k) (a_origin a)) \<and> name_eq (key_name k) m}"
      by auto
    show ?thesis
      unfolding zone_get_delete [OF assms] ks deleted_keys_iff using zone_get_None [of a n t] by auto
  qed
  have has: "zone_has (delete_keys ?ks a) = spec_delete_name (a_origin a) m (zone_has a)"
    unfolding fun_eq_iff zone_has_simps spec_delete_name_def get by simp
  have "delete_name m a = (Ok (?ks \<noteq> []) :: (bool, 'e) outcome, delete_keys ?ks a)" unfolding delete_name_def Let_def by (rule refl)
  then show thesis
    by (rule that [OF _ zone_inv_delete [OF assms] _ has get]) (simp add: delete_keys_def)
qed

lemma delete_set_has:
  assumes "zone_inv a" "\<not> (rr_type r \<in> {RT_SOA, RT_NS} \<and> name_eq (rr_name r) (a_origin a))"
  shows "zone_has (delete_keys [rr_key_new (rr_name r) (rr_type r)] a) = spec_delete_set (a_origin a) r (zone_has a)"
proof -
  have "\<not> (t \<in> {RT_SOA, RT_NS} \<and> name_eq n (a_origin a))" if "same_key n t r" for n t
    using assms(2) that by (auto simp: name_eq_iff)
  then show ?thesis
    by (auto simp: fun_eq_iff zone_has_simps zone_get_delete [OF assms(1)] spec_delete_set_def)
qed

lemma remove_effect:
  assumes "zone_inv a" "bt_get rr_key_cmp (rr_key_new (rr_name r) (rr_type r)) (a_records a) = Some s"
  obtains b s' a' where "rr_set_remove r ser s = Ok (b, s')"
    "a' = a\<lparr>a_records := bt_insert rr_key_cmp (rr_key_new (rr_name r) (rr_type r)) s' (a_records a)\<rparr>"
    "zone_inv a'" "zone_has a' = spec_delete r (zone_has a)"
    "set (zone_get a' (rr_name r) (rr_type r)) \<subseteq> set (zone_get a (rr_name r) (rr_type r))"
    "protected_set (rr_type r) s \<Longrightarrow> s' = s"
proof -
  note s = zone_inv_get [OF assms]
  have dist: "distinct_data (rs_records s)" using s(1) by (simp add: rr_set_inv_def)
  have recs: "zone_get a n t = rs_records s" if "same_key n t r" for n t
    unfolding zone_get_same_key [OF that] using assms(2) by (simp add: zone_get_def)
  obtain b s' where s': "rr_set_remove r ser s = Ok (b, s')" "rs_name s' = rs_name s" "rs_type s' = rs_type s"
    using rr_set_remove_total [OF s(1), of r ser] s(2,3) by (auto simp: same_owner_def)
  let ?a = "a\<lparr>a_records := bt_insert rr_key_cmp (rr_key_new (rr_name r) (rr_type r)) s' (a_records a)\<rparr>"
  have get: "zone_get ?a n t = (if same_key n t r then rs_records s' else zone_get a n t)" for n t
    by (rule zone_get_insert [OF assms(1)])
  have o: "rr_type r = rs_type s \<or> rr_type r = RT_ANY" using s(3) by simp
  have eff: "set (rs_records s') \<subseteq> set (rs_records s) \<and> (protected_set (rr_type r) s \<longrightarrow> s' = s) \<and>
      (\<forall>rd. holds (rs_records s') rd \<longleftrightarrow>
        holds (rs_records s) rd \<and> \<not> (rdata_eq (rr_rdata r) rd \<and> \<not> protected_set (rr_type r) s))"
    using s(1,2) o
  proof (cases rule: rr_set_remove_cases [where ser = ser])
    case kept
    then have "s' = s" using s'(1) by simp
    with kept(2) show ?thesis by (auto dest: holds_cong)
  next
    case (removed ys q zs)
    then have "s' = s\<lparr>rs_records := ys @ zs, rs_serial := ser, rs_rrsigs := []\<rparr>" using s'(1) by simp
    moreover have "holds (ys @ zs) rd \<longleftrightarrow> holds (ys @ q # zs) rd \<and> \<not> rdata_eq (rr_rdata r) rd" for rd
      using removed(2,3) holds_cong [of "rr_rdata r" rd "ys @ zs"] rdata_eq_left [OF removed(2)] by auto
    ultimately show ?thesis using removed(1,4) by auto
  qed
  have prot: "protected_set (rr_type r) s \<longleftrightarrow> rr_type r = RT_SOA \<or> rr_type r = RT_NS \<and> at_most_one (holds (rs_records s))"
    using at_most_one_holds [OF dist] by (simp add: protected_set_def)
  have "zone_has ?a n t rd \<longleftrightarrow> spec_delete r (zone_has a) n t rd" for n t rd
  proof (cases "same_key n t r")
    case True
    then have t: "t = rr_type r" and n: "name_eq n (rr_name r)" by simp_all
    have "zone_has a n (rr_type r) = holds (rs_records s)" using recs n by (simp add: zone_has_def)
    moreover have "zone_get ?a n (rr_type r) = rs_records s'" using n by (simp add: get)
    ultimately show ?thesis
      unfolding spec_delete_def t zone_has_simps [of ?a] using eff n prot by auto
  qed (auto simp: zone_has_simps get spec_delete_def)
  then have has: "zone_has ?a = spec_delete r (zone_has a)" by (simp add: fun_eq_iff)
  have "rr_set_inv s'" using rr_set_remove_inv [OF s(1,2) _ s'(1)] s(3) by simp
  then have inv: "zone_inv ?a"
    using s s' eff assms(1) by (intro zone_inv_insert) (auto simp: list_all_iff)
  show thesis
    by (rule that [OF s'(1) refl inv has]) (use eff recs [of "rr_name r" "rr_type r"] in \<open>simp_all add: get\<close>)
qed

text \<open>A step succeeds, keeps the invariant and everything but the records, and gives the abstract zone \<open>z\<close>.\<close>

definition refines :: "('p, 'd) authority \<Rightarrow> (('p, 'd) authority, bool, response_code) step \<Rightarrow> zone \<Rightarrow> bool" where
  "refines a m z \<longleftrightarrow> (\<exists>b a'. m a = (Ok b, a') \<and> zone_inv a' \<and> same_frame a a' \<and> zone_has a' = z)"

lemma refinesI: "m a = (Ok b, a') \<Longrightarrow> zone_inv a' \<Longrightarrow> same_frame a a' \<Longrightarrow> zone_has a' = z \<Longrightarrow> refines a m z"
  by (auto simp: refines_def)

lemma refines_cong: "m a = m' a \<Longrightarrow> refines a m' z \<Longrightarrow> refines a m z"
  by (simp add: refines_def)

lemma upsert_refines:
  assumes "zone_inv a" "rr_class r = a_class a" "rr_type r = RT_SOA \<Longrightarrow> is_soa (rr_rdata r)"
  shows "refines a (upsert r ser) (spec_add r (zone_has a))"
  by (rule upsert_effect [OF assms, where ser = ser and 'e = response_code]) (auto intro: refinesI)

lemma update_any_refines:
  assumes "zone_inv a" "rr_class r \<noteq> a_class a" "rr_class r = CL_ANY" "is_null (rr_rdata r) \<or> rr_type r = RT_ANY"
  shows "refines a (update_record ser r) (spec_update (a_origin a) (a_class a) r (zone_has a))"
proof -
  let ?apex = "rr_type r \<in> {RT_SOA, RT_NS} \<and> name_eq (rr_name r) (a_origin a)"
  let ?key = "rr_key_new (rr_name r) (rr_type r)"
  consider (skip) ?apex | (name) "rr_type r = RT_ANY" | (set) "rr_type r \<noteq> RT_ANY" "\<not> ?apex" by auto
  then show ?thesis
  proof cases
    case skip
    then have "zone_has a = spec_delete_set (a_origin a) r (zone_has a)" "rr_type r \<noteq> RT_ANY"
      by (auto simp: fun_eq_iff spec_delete_set_def name_eq_iff)
    with skip assms show ?thesis
      by (intro refinesI [of _ _ False a]) (auto simp: update_record_def Let_def spec_update_def)
  next
    case name
    have "refines a (delete_name (rr_name r)) (spec_delete_name (a_origin a) (rr_name r) (zone_has a))"
      by (rule delete_name_effect [OF assms(1), where m = "rr_name r" and 'e = response_code]) (auto intro: refinesI)
    with name assms(2,3) show ?thesis
      by (auto simp: spec_update_def update_record_def Let_def intro: refines_cong)
  next
    case set
    with assms have "update_record ser r a = (Ok (bt_get rr_key_cmp ?key (a_records a) \<noteq> None), delete_keys [?key] a)"
      by (auto simp: update_record_def Let_def)
    then show ?thesis
      by (rule refinesI) (use set assms delete_set_has [OF assms(1) set(2)] in
        \<open>simp_all add: zone_inv_delete spec_update_def, simp add: delete_keys_def\<close>)
  qed
qed

lemma update_none_refines:
  assumes "zone_inv a" "rr_class r \<noteq> a_class a" "rr_class r = CL_NONE"
  shows "refines a (update_record ser r) (spec_update (a_origin a) (a_class a) r (zone_has a))"
proof (cases "bt_get rr_key_cmp (rr_key_new (rr_name r) (rr_type r)) (a_records a)")
  case None
  have "zone_get a n t = []" if "same_key n t r" for n t
    unfolding zone_get_same_key [OF that] using None by (simp add: zone_get_def)
  then have "zone_has a = spec_delete r (zone_has a)"
    by (auto simp: fun_eq_iff zone_has_simps spec_delete_def)
  with None assms show ?thesis
    by (intro refinesI [of _ _ False a]) (auto simp: update_record_def Let_def spec_update_def)
next
  case (Some s)
  show ?thesis
  proof (rule remove_effect [OF assms(1) Some, where ser = ser])
    fix b s' a'
    assume "rr_set_remove r ser s = Ok (b, s')"
      "a' = a\<lparr>a_records := bt_insert rr_key_cmp (rr_key_new (rr_name r) (rr_type r)) s' (a_records a)\<rparr>"
      "zone_inv a'" "zone_has a' = spec_delete r (zone_has a)"
    with Some assms show ?thesis
      by (intro refinesI [of _ _ b a']) (simp_all add: update_record_def Let_def spec_update_def)
  qed
qed

lemma update_record_refines:
  assumes "zone_inv a" "update_ok (a_class a) r"
  shows "refines a (update_record ser r) (spec_update (a_origin a) (a_class a) r (zone_has a))"
proof (cases "rr_class r = a_class a")
  case True
  with assms have "refines a (upsert r ser) (spec_add r (zone_has a))"
    by (intro upsert_refines) (simp_all add: update_ok_def)
  with True show ?thesis by (auto simp: spec_update_def update_record_def intro: refines_cong)
next
  case False
  with assms show ?thesis
    using update_any_refines [OF assms(1) False] update_none_refines [OF assms(1) False]
    by (auto simp: update_ok_def split: if_splits)
qed

lemma update_loop_refines:
  assumes "zone_inv a" "list_all (update_ok (a_class a)) rs"
  shows "refines a (update_loop ser rs u) (fold (spec_update (a_origin a) (a_class a)) rs (zone_has a))"
  using assms
proof (induction rs arbitrary: a u)
  case Nil
  then show ?case by (intro refinesI [of _ _ u a]) simp_all
next
  case (Cons r rs)
  then obtain b a1 where one: "update_record ser r a = (Ok b, a1)" "zone_inv a1" "same_frame a a1"
      "zone_has a1 = spec_update (a_origin a) (a_class a) r (zone_has a)"
    using update_record_refines [of a r ser] by (auto simp: refines_def)
  from Cons.IH [of a1 "u \<or> b"] Cons.prems one obtain b' a2 where
    "update_loop ser rs (u \<or> b) a1 = (Ok b', a2)" "zone_inv a2" "same_frame a1 a2"
    "zone_has a2 = fold (spec_update (a_origin a) (a_class a)) rs (zone_has a1)"
    by (auto simp: refines_def same_frame_sel [OF one(3)])
  with one show ?case by (intro refinesI [of _ _ b' a2]) (auto intro: same_frame_trans)
qed

section \<open>The SOA record and the serial number\<close>

lemma lookup_single:
  "t \<notin> {RT_ANY, RT_AXFR, RT_SOA} \<Longrightarrow> lookup n t False algs a = zone_get a n t"
  "lookup n RT_SOA False algs a = zone_get a (a_origin a) RT_SOA"
  by (auto simp: lookup_def zone_get_def split: option.splits)

lemma get_soa_zone: "get_soa a = (case zone_get a (a_origin a) RT_SOA of [] \<Rightarrow> None | r # _ \<Rightarrow> Some r)"
  by (simp add: get_soa_def lookup_single)

lemma zone_get_props:
  assumes "zone_inv a" "r \<in> set (zone_get a n t)"
  shows "name_eq (rr_name r) n" "rr_type r = t" "rr_class r = a_class a" "t = RT_SOA \<Longrightarrow> is_soa (rr_rdata r)"
proof -
  from assms(2) obtain s where s: "bt_get rr_key_cmp (rr_key_new n t) (a_records a) = Some s" "r \<in> set (rs_records s)"
    unfolding zone_get_def by (cases "bt_get rr_key_cmp (rr_key_new n t) (a_records a)") auto
  with zone_inv_get [OF assms(1) s(1)] show "name_eq (rr_name r) n" "rr_type r = t" "rr_class r = a_class a"
      "t = RT_SOA \<Longrightarrow> is_soa (rr_rdata r)"
    by (auto simp: rr_set_inv_def list_all_iff same_owner_def name_eq_iff)
qed

lemma zone_get_soa:
  assumes "zone_inv a"
  obtains (none) "zone_get a n RT_SOA = []"
  | (one) r d where "zone_get a n RT_SOA = [r]" "rr_rdata r = RD_SOA d" "name_eq (rr_name r) n" "rr_type r = RT_SOA"
      "rr_class r = a_class a"
proof (cases "zone_get a n RT_SOA")
  case Nil
  then show thesis by (rule none)
next
  case (Cons r rs)
  then obtain s where "bt_get rr_key_cmp (rr_key_new n RT_SOA) (a_records a) = Some s" "rs_records s = r # rs"
    by (auto simp: zone_get_def split: option.splits)
  with zone_inv_get [OF assms, of n RT_SOA s] have "rs = []" by (auto simp: rr_set_inv_def)
  with Cons have "zone_get a n RT_SOA = [r]" by simp
  moreover from this zone_get_props [OF assms, of r n RT_SOA] obtain d where "rr_rdata r = RD_SOA d"
    by (cases "rr_rdata r") auto
  ultimately show thesis using zone_get_props [OF assms, of r n RT_SOA] by (intro one [of r d]) simp_all
qed

definition serial_at :: "name \<Rightarrow> zone \<Rightarrow> u32 \<Rightarrow> bool" where
  "serial_at origin z ser \<longleftrightarrow>
     (\<exists>d. z origin RT_SOA (RD_SOA d)) \<and> (\<forall>d. z origin RT_SOA (RD_SOA d) \<longrightarrow> serial d = ser)"

lemma get_serial_zone:
  assumes "zone_inv a"
  shows "\<exists>ser. (get_serial a :: (u32, 'e) outcome) = Ok ser \<and>
    (if zone_get a (a_origin a) RT_SOA = [] then ser = 0 else serial_at (a_origin a) (zone_has a) ser)"
  using assms
proof (cases rule: zone_get_soa [where n = "a_origin a"])
  case none
  then show ?thesis by (simp add: get_serial_def get_soa_zone)
next
  case (one r d)
  then have "zone_has a (a_origin a) RT_SOA rd \<longleftrightarrow> rdata_eq (RD_SOA d) rd" for rd by (simp add: zone_has_def)
  then have "serial_at (a_origin a) (zone_has a) (serial d)"
    by (auto simp: serial_at_def dest: rdata_eq_soa intro: exI [of _ d])
  with one show ?thesis by (simp add: get_serial_def get_soa_zone)
qed

lemma serial_at_unique: "serial_at org z s \<Longrightarrow> serial_at org z s' \<Longrightarrow> s = s'"
  by (auto simp: serial_at_def)

definition spec_bump :: "name \<Rightarrow> zone \<Rightarrow> zone" where
  "spec_bump origin z n t rd \<longleftrightarrow>
     (if name_eq n origin \<and> t = RT_SOA
      then \<exists>d. z n t (RD_SOA d) \<and> rdata_eq (RD_SOA (d\<lparr>serial := serial d + 1\<rparr>)) rd
      else z n t rd)"

lemma increment_serial_Ok: "serial d \<noteq> - 1 \<Longrightarrow> increment_serial d = Ok (d\<lparr>serial := serial d + 1\<rparr>)"
  by (simp add: increment_serial_def)

lemma rdata_eq_soa_serial:
  "rdata_eq (RD_SOA x) (RD_SOA y) \<Longrightarrow>
   rdata_eq (RD_SOA (x\<lparr>serial := s\<rparr>)) rd \<longleftrightarrow> rdata_eq (RD_SOA (y\<lparr>serial := s\<rparr>)) rd"
  by (rule rdata_eq_left, cases x, cases y) (simp add: rdata_eq_def)

lemma word_inc_gr:
  fixes x :: u32
  assumes "x \<noteq> - 1"
  shows "x < x + 1"
proof -
  have "1 + x \<noteq> 0" using assms by (simp add: add_eq_0_iff)
  then show ?thesis using unatSuc [of x] by (simp add: word_less_nat_alt add.commute)
qed

lemma bump_data:
  "(\<exists>x. rdata_eq (RD_SOA d) (RD_SOA x) \<and> rdata_eq (RD_SOA (x\<lparr>serial := serial x + 1\<rparr>)) rd) \<longleftrightarrow>
   rdata_eq (RD_SOA (d\<lparr>serial := serial d + 1\<rparr>)) rd"
proof
  assume "\<exists>x. rdata_eq (RD_SOA d) (RD_SOA x) \<and> rdata_eq (RD_SOA (x\<lparr>serial := serial x + 1\<rparr>)) rd"
  then obtain x where x: "rdata_eq (RD_SOA d) (RD_SOA x)" "rdata_eq (RD_SOA (x\<lparr>serial := serial x + 1\<rparr>)) rd" by blast
  moreover from rdata_eq_soa [OF x(1)] have "serial x = serial d" by simp
  ultimately show "rdata_eq (RD_SOA (d\<lparr>serial := serial d + 1\<rparr>)) rd"
    using rdata_eq_soa_serial [OF x(1), of "serial d + 1" rd] by simp
next
  assume "rdata_eq (RD_SOA (d\<lparr>serial := serial d + 1\<rparr>)) rd"
  then show "\<exists>x. rdata_eq (RD_SOA d) (RD_SOA x) \<and> rdata_eq (RD_SOA (x\<lparr>serial := serial x + 1\<rparr>)) rd"
    by (intro exI [of _ d]) simp
qed

lemma increment_effect:
  assumes "zone_inv a" "\<forall>ser. serial_at (a_origin a) (zone_has a) ser \<longrightarrow> ser \<noteq> - 1"
  obtains ser a' where "increment_soa_serial a = (Ok ser :: (u32, 'e) outcome, a')" "zone_inv a'" "same_frame a a'"
    "zone_has a' = spec_bump (a_origin a) (zone_has a)"
  using assms(1)
proof (cases rule: zone_get_soa [where n = "a_origin a"])
  case none
  have "zone_get a n RT_SOA = []" if "name_eq n (a_origin a)" for n using zone_get_cong [OF that] none by metis
  then have "zone_has a = spec_bump (a_origin a) (zone_has a)"
    by (auto simp: fun_eq_iff spec_bump_def zone_has_simps)
  with none assms(1) show thesis by (intro that [of 0 a]) (simp_all add: increment_soa_serial_def get_soa_zone)
next
  case (one soa d)
  let ?d = "d\<lparr>serial := serial d + 1\<rparr>"
  let ?r = "soa\<lparr>rr_rdata := RD_SOA ?d\<rparr>"
  have has: "zone_has a n RT_SOA = rdata_eq (RD_SOA d)" if "name_eq n (a_origin a)" for n
    using zone_get_cong [OF that, of a RT_SOA] one by (simp add: zone_has_def fun_eq_iff)
  then have "serial_at (a_origin a) (zone_has a) (serial d)"
    by (auto simp: serial_at_def dest: rdata_eq_soa intro: exI [of _ d])
  with assms(2) have max: "serial d \<noteq> - 1" by blast
  obtain b a' where up: "upsert ?r (serial ?d) a = (Ok b :: (bool, 'e) outcome, a')" "zone_inv a'" "same_frame a a'"
      "zone_has a' = spec_add ?r (zone_has a)"
    by (rule upsert_effect [OF assms(1), of ?r "serial ?d", where 'e = 'e]) (use one in simp_all)
  have older: "soa_older old (RD_SOA ?d)" if "rdata_eq (RD_SOA d) old" for old
    using rdata_eq_soa [OF that] word_inc_gr [OF max] by auto
  have key: "same_key n t ?r \<longleftrightarrow> name_eq n (a_origin a) \<and> t = RT_SOA" for n t
    using one(3,4) by (auto simp: name_eq_iff)
  have "spec_add ?r (zone_has a) n t rd \<longleftrightarrow> spec_bump (a_origin a) (zone_has a) n t rd" for n t rd
    unfolding spec_add_def spec_bump_def key
    using has [of n] older by (auto simp: bump_data)
  with up max one show thesis
    by (intro that [of "serial ?d" a'])
      (simp_all add: increment_soa_serial_def get_soa_zone increment_serial_Ok fun_eq_iff)
qed

section \<open>The update section as a whole\<close>

lemma write_ahead_frame:
  assumes "fst (write_ahead sql now ser rs a) = Ok ()"
  obtains j where "write_ahead sql now ser rs a = (Ok (), a\<lparr>a_journal := j\<rparr>)"
  using assms by (cases "write_ahead sql now ser rs a")
    (auto simp: write_ahead_def split: option.splits prod.splits intro: that [of "a_journal a"])

lemma journal_irrelevant [simp]:
  "zone_inv (a\<lparr>a_journal := j\<rparr>) = zone_inv a" "zone_has (a\<lparr>a_journal := j\<rparr>) = zone_has a"
  by (simp_all add: zone_inv_def zone_has_def zone_get_def fun_eq_iff)

text \<open>The updates proper: reading the serial and writing the journal do not touch the records.\<close>

lemma update_records_loop:
  assumes "zone_inv a" "list_all (update_ok (a_class a)) rs" "\<forall>ser. fst (write_ahead sql now ser rs a) = Ok ()"
  obtains ser j b a1 where "get_serial a = (Ok ser :: (u32, response_code) outcome)"
    "write_ahead sql now ser rs a = (Ok (), a\<lparr>a_journal := j\<rparr>)"
    "update_loop ser rs False (a\<lparr>a_journal := j\<rparr>) = (Ok b, a1)" "zone_inv a1" "same_frame (a\<lparr>a_journal := j\<rparr>) a1"
    "zone_has a1 = fold (spec_update (a_origin a) (a_class a)) rs (zone_has a)"
proof -
  obtain ser where ser: "get_serial a = (Ok ser :: (u32, response_code) outcome)"
    using get_serial_zone [OF assms(1)] by blast
  obtain j where j: "write_ahead sql now ser rs a = (Ok (), a\<lparr>a_journal := j\<rparr>)"
    using write_ahead_frame [of sql now ser rs a] assms(3) by blast
  have "refines (a\<lparr>a_journal := j\<rparr>) (update_loop ser rs False)
      (fold (spec_update (a_origin a) (a_class a)) rs (zone_has a))"
    using update_loop_refines [of "a\<lparr>a_journal := j\<rparr>" rs ser False] assms(1,2) by simp
  then show thesis using ser j that by (auto simp: refines_def)
qed

lemma update_records_effect:
  assumes "zone_inv a" "list_all (update_ok (a_class a)) rs" "\<not> is_dnssec_enabled a"
    "\<forall>ser. fst (write_ahead sql now ser rs a) = Ok ()"
    "z = fold (spec_update (a_origin a) (a_class a)) rs (zone_has a)"
    "\<forall>ser. serial_at (a_origin a) z ser \<longrightarrow> ser \<noteq> - 1"
  shows "\<exists>b a'. update_records ssl sql now rs auto a = (Ok b, a') \<and> zone_inv a' \<and>
    zone_has a' = (if b \<and> auto then spec_bump (a_origin a) z else z)"
  using assms(1,2,4)
proof (rule update_records_loop)
  fix ser j b a1
  assume up: "get_serial a = (Ok ser :: (u32, response_code) outcome)"
    "write_ahead sql now ser rs a = (Ok (), a\<lparr>a_journal := j\<rparr>)"
    "update_loop ser rs False (a\<lparr>a_journal := j\<rparr>) = (Ok b, a1)" "zone_inv a1" "same_frame (a\<lparr>a_journal := j\<rparr>) a1"
    "zone_has a1 = fold (spec_update (a_origin a) (a_class a)) rs (zone_has a)"
  note frame = same_frame_sel [OF up(5)]
  have run: "update_records ssl sql now rs auto a = (if b \<and> auto then finish_update ssl now b a1 else (Ok b, a1))"
    using up(1-3) by (simp add: update_records_def)
  show ?thesis
  proof (cases "b \<and> auto")
    case True
    have "\<forall>ser. serial_at (a_origin a1) (zone_has a1) ser \<longrightarrow> ser \<noteq> - 1"
      using assms(5,6) up(6) frame by simp
    then obtain s a2 where inc: "increment_soa_serial a1 = (Ok s :: (u32, response_code) outcome, a2)" "zone_inv a2"
        "zone_has a2 = spec_bump (a_origin a1) (zone_has a1)"
      by (rule increment_effect [OF up(4), where 'e = response_code]) blast
    have "finish_update ssl now b a1 = (Ok b, a2)"
      using assms(3) frame inc(1) by (simp add: finish_update_def)
    with run True inc frame up(6) assms(5) show ?thesis by auto
  qed (use run up assms(5) in auto)
qed


definition zone_of_records :: "name \<Rightarrow> resource list \<Rightarrow> (bytes, list_db) authority" where
  "zone_of_records origin rs =
     authority_new origin (map (\<lambda>r. (rr_key_new (rr_name r) (rr_type r), rr_set_from r)) rs) ZT_Master True False"

definition sample_soa :: resource where
  "sample_soa = from_rdata (Name [''example'']) 300 RT_SOA (RD_SOA \<lparr>mname = Name [''ns'', ''example''],
     rname = Name [''admin'', ''example''], serial = 7, refresh = 1, retry = 2, expire = 3, minimum = 60\<rparr>)"

definition sample_zone :: "(bytes, list_db) authority" where
  "sample_zone = zone_of_records (Name [''example''])
     [from_rdata (Name [''example'']) 300 RT_NS (RD_NS (Name [''ns'', ''example''])), sample_soa,
      from_rdata (Name [''ns'', ''example'']) 300 RT_A (RD_A (Ipv4 10 0 0 1))]"

definition sample_update :: "resource list" where
  "sample_update =
     [from_rdata (Name [''www'', ''EXAMPLE'']) 60 RT_A (RD_A (Ipv4 10 0 0 2)),
      (from_rdata (Name [''ns'', ''example'']) 0 RT_A (RD_A (Ipv4 10 0 0 1)))\<lparr>rr_class := CL_NONE\<rparr>]"

lemma sample_zone_props:
  "zone_inv sample_zone" "\<not> is_dnssec_enabled sample_zone" "a_journal sample_zone = None" "a_class sample_zone = CL_IN"
  "a_origin sample_zone = Name [''example'']" "list_all (update_ok (a_class sample_zone)) sample_update"
  "zone_get sample_zone (Name [''example'']) RT_SOA = [sample_soa]"
  by code_simp+

lemma sample_serial: "serial_at (Name [''example'']) (zone_has sample_zone) ser \<longleftrightarrow> ser = 7"
proof -
  have "\<exists>d. rr_rdata sample_soa = RD_SOA d \<and> serial d = 7" by (simp add: sample_soa_def from_rdata_def)
  then obtain d where d: "rr_rdata sample_soa = RD_SOA d" "serial d = 7" by blast
  then have "serial_at (Name [''example'']) (zone_has sample_zone) 7"
    by (auto simp: serial_at_def zone_has_def sample_zone_props dest: rdata_eq_soa intro: exI [of _ d])
  then show ?thesis using serial_at_unique by blast
qed


text \<open>
  C39. Deleting everything at the origin of a zone deletes its SOA and NS records as well: the filter
  in \<open>update_records\<close> spares those records at the names below the origin and not at the origin, where
  RFC 2136 and the comment beside it ask for the opposite.
\<close>
theorem delete_all_at_origin:
  assumes "zone_inv a" "a_class a \<noteq> CL_ANY" "rr_class r = CL_ANY" "rr_type r = RT_ANY" "name_eq (rr_name r) (a_origin a)"
  shows "\<exists>b a'. update_record ser r a = (Ok b, a') \<and> get_soa a' = None \<and> get_ns False sa_new a' = [] \<and>
    (\<forall>n. \<not> name_eq n (a_origin a) \<longrightarrow> lookup n RT_NS False sa_new a' = lookup n RT_NS False sa_new a)"
proof (rule delete_name_effect [OF assms(1), where m = "rr_name r" and 'e = response_code])
  fix b a'
  assume del: "delete_name (rr_name r) a = (Ok b :: (bool, response_code) outcome, a')" "same_frame a a'"
    and get: "\<And>n t. zone_get a' n t =
      (if name_eq n (rr_name r) \<and> (t \<notin> {RT_SOA, RT_NS} \<or> name_eq n (a_origin a)) then [] else zone_get a n t)"
  have "update_record ser r a = (Ok b, a')"
    using assms(2-4) del(1) by (simp add: update_record_def Let_def)
  moreover have "name_eq (a_origin a) (rr_name r)" using assms(5) by (simp add: name_eq_iff)
  then have "zone_get a' (a_origin a) t = []" for t by (simp add: get)
  moreover have "zone_get a' n t = zone_get a n t" if "\<not> name_eq n (a_origin a)" for n t
    using that assms(5) by (auto simp: get name_eq_iff)
  ultimately show ?thesis
    by (intro exI [of _ b] exI [of _ a']) (simp add: get_soa_zone get_ns_def lookup_single same_frame_sel [OF del(2)])
qed

theorem delete_all_at_origin_witness:
  "\<exists>b a'. update_record 7 \<lparr>rr_name = Name [''Example''], rr_type = RT_ANY, rr_class = CL_ANY, rr_ttl = 0, rr_rdata = null_new\<rparr>
     sample_zone = (Ok b, a') \<and> get_soa a' = None \<and> get_soa sample_zone = Some sample_soa"
proof -
  let ?r = "\<lparr>rr_name = Name [''Example''], rr_type = RT_ANY, rr_class = CL_ANY, rr_ttl = 0, rr_rdata = null_new\<rparr>"
  have "name_eq (rr_name ?r) (Name [''example''])" by code_simp
  with delete_all_at_origin [of sample_zone ?r 7] sample_zone_props show ?thesis by (auto simp: get_soa_zone)
qed

section \<open>Serial numbers\<close>

definition deletes_apex :: "name \<Rightarrow> dns_class \<Rightarrow> resource \<Rightarrow> bool" where
  "deletes_apex origin cls r \<longleftrightarrow>
     rr_class r \<noteq> cls \<and> rr_class r = CL_ANY \<and> rr_type r = RT_ANY \<and> name_eq (rr_name r) origin"

lemma serial_at_add:
  assumes "serial_at org z s" "same_key org RT_SOA r \<Longrightarrow> is_soa (rr_rdata r)"
  shows "\<exists>s' \<ge> s. serial_at org (spec_add r z) s'"
proof (cases "same_key org RT_SOA r \<and> (\<forall>old. z org RT_SOA old \<longrightarrow> soa_older old (rr_rdata r))")
  case True
  then obtain d where d: "rr_rdata r = RD_SOA d" using assms(2) by (cases "rr_rdata r") auto
  from True d have "spec_add r z org RT_SOA = rdata_eq (RD_SOA d)" by (simp add: spec_add_def fun_eq_iff)
  then have "serial_at org (spec_add r z) (serial d)"
    by (auto simp: serial_at_def dest: rdata_eq_soa intro: exI [of _ d])
  moreover obtain d0 where "z org RT_SOA (RD_SOA d0)" "serial d0 = s" using assms(1) by (auto simp: serial_at_def)
  with True d have "s < serial d" by fastforce
  ultimately show ?thesis by (auto intro: less_imp_le)
next
  case False
  then have "spec_add r z org RT_SOA = z org RT_SOA" by (auto simp: spec_add_def fun_eq_iff)
  then have "serial_at org (spec_add r z) s" using assms(1) by (simp add: serial_at_def)
  then show ?thesis by blast
qed

lemma serial_at_update:
  assumes "serial_at org z s" "update_ok cls r" "\<not> deletes_apex org cls r"
  shows "\<exists>s' \<ge> s. serial_at org (spec_update org cls r z) s'"
proof (cases "rr_class r = cls")
  case True
  with assms show ?thesis using serial_at_add [OF assms(1), of r] by (simp add: spec_update_def update_ok_def)
next
  case False
  have "spec_update org cls r z org RT_SOA = z org RT_SOA"
    using False assms(3)
    by (auto simp: spec_update_def spec_delete_name_def spec_delete_set_def spec_delete_def deletes_apex_def
      fun_eq_iff name_eq_sym [of org])
  then have "serial_at org (spec_update org cls r z) s" using assms(1) by (simp add: serial_at_def)
  then show ?thesis by blast
qed

lemma serial_at_updates:
  assumes "serial_at org z s" "list_all (update_ok cls) rs" "list_all (\<lambda>r. \<not> deletes_apex org cls r) rs"
  shows "\<exists>s' \<ge> s. serial_at org (fold (spec_update org cls) rs z) s'"
  using assms
proof (induction rs arbitrary: z s)
  case (Cons r rs)
  then obtain s1 where "s \<le> s1" "serial_at org (spec_update org cls r z) s1"
    using serial_at_update [of org z s cls r] by auto
  with Cons.IH [of "spec_update org cls r z" s1] Cons.prems show ?case by (auto intro: order_trans)
qed auto

lemma serial_at_bump: "serial_at org z s \<Longrightarrow> serial_at org (spec_bump org z) (s + 1)"
proof -
  assume s: "serial_at org z s"
  then obtain d where "z org RT_SOA (RD_SOA d)" by (auto simp: serial_at_def)
  then have "spec_bump org z org RT_SOA (RD_SOA (d\<lparr>serial := serial d + 1\<rparr>))" by (auto simp: spec_bump_def)
  moreover have "serial x = s + 1" if bump: "spec_bump org z org RT_SOA (RD_SOA x)" for x
  proof -
    obtain y where "z org RT_SOA (RD_SOA y)" "rdata_eq (RD_SOA (y\<lparr>serial := serial y + 1\<rparr>)) (RD_SOA x)"
      using bump by (auto simp: spec_bump_def)
    with s rdata_eq_soa [of "y\<lparr>serial := serial y + 1\<rparr>" "RD_SOA x"] show ?thesis by (auto simp: serial_at_def)
  qed
  ultimately show ?thesis by (auto simp: serial_at_def)
qed

lemma get_serial_at:
  assumes "zone_inv a" "serial_at (a_origin a) (zone_has a) s"
  shows "get_serial a = (Ok s :: (u32, 'e) outcome)"
proof -
  have "zone_get a (a_origin a) RT_SOA \<noteq> []" using assms(2) by (auto simp: serial_at_def zone_has_def)
  with get_serial_zone [OF assms(1), where 'e = 'e] serial_at_unique [OF assms(2)] show ?thesis by auto
qed

lemma increment_max_panics:
  assumes "zone_inv a" "serial_at (a_origin a) (zone_has a) (- 1)"
  shows "increment_soa_serial a = (Panic :: (u32, 'e) outcome, a)"
  using assms(1)
proof (cases rule: zone_get_soa [where n = "a_origin a"])
  case none
  with assms(2) show ?thesis by (simp add: serial_at_def zone_has_def)
next
  case (one r d)
  with assms(2) have "serial d = - 1" by (auto simp: serial_at_def zone_has_def)
  with one show ?thesis
    by (simp add: increment_soa_serial_def get_soa_zone increment_serial_def st_bind.simps)
qed



text \<open>
  An update section that passes the prescan can panic the server: an SOA record without data is
  accepted at a name of the zone, and the next SOA record for that name meets it and panics.
\<close>
lemma soa_without_data_panics:
  "let r = \<lparr>rr_name = Name [''x'', ''example''], rr_type = RT_SOA, rr_class = CL_IN, rr_ttl = 0, rr_rdata = null_new\<rparr> in
   zone_inv sample_zone \<and> pre_scan [r, r] sample_zone = Ok () \<and>
   fst (update_records toy_ssl list_sqlite 0 [r, r] True sample_zone) = Panic"
  by code_simp

section \<open>Prerequisites\<close>

definition prerequisite_met :: "('p, 'd) authority \<Rightarrow> resource \<Rightarrow> bool" where
  "prerequisite_met a r \<longleftrightarrow>
     rr_ttl r = 0 \<and> zone_of (a_origin a) (rr_name r) = (Ok True :: (bool, response_code) outcome) \<and>
     (let z = zone_has a (rr_name r);
          in_use = (if rr_type r = RT_ANY then \<exists>t rd. z t rd else \<exists>rd. z (rr_type r) rd)
      in if rr_class r = CL_ANY then is_null (rr_rdata r) \<and> in_use
         else if rr_class r = CL_NONE then is_null (rr_rdata r) \<and> \<not> in_use
         else rr_class r = a_class a \<and> z (rr_type r) (rr_rdata r))"

lemma zone_has_ex: "(\<exists>rd. zone_has a n t rd) \<longleftrightarrow> zone_get a n t \<noteq> []"
proof (cases "zone_get a n t")
  case (Cons r rs)
  then have "zone_has a n t (rr_rdata r)" by (simp add: zone_has_def)
  with Cons show ?thesis by auto
qed (simp add: zone_has_def)

lemma lookup_any_empty:
  assumes "zone_inv a"
  shows "lookup n RT_ANY False algs a = [] \<longleftrightarrow> (\<forall>t. zone_get a n t = [])"
proof -
  have in_map: "bt_get rr_key_cmp (rr_key_new n (rs_type s)) (a_records a) = Some s"
    if "(k, s) \<in> set (a_records a)" "name_eq (rs_name s) n" for k s
  proof -
    from assms that(1) have "entry_inv (a_class a) (k, s)" by (auto simp: zone_inv_def list_all_iff)
    with that(2) have "rr_key_cmp (rr_key_new n (rs_type s)) k = Equal"
      by (auto simp: entry_inv_def rr_key_cmp_Equal name_eq_iff)
    with that(1) assms show ?thesis by (auto simp: zone_inv_def key_ord.bt_get_mem_iff)
  qed
  have "(\<forall>t. zone_get a n t = []) \<longleftrightarrow> (\<forall>(k, s) \<in> set (a_records a). name_eq (rs_name s) n \<longrightarrow> rs_records s = [])"
  proof
    assume none: "\<forall>t. zone_get a n t = []"
    have "rs_records s = []" if "(k, s) \<in> set (a_records a)" "name_eq (rs_name s) n" for k s
      using none [rule_format, of "rs_type s"] in_map [OF that] by (simp add: zone_get_def)
    then show "\<forall>(k, s) \<in> set (a_records a). name_eq (rs_name s) n \<longrightarrow> rs_records s = []" by blast
  next
    assume all: "\<forall>(k, s) \<in> set (a_records a). name_eq (rs_name s) n \<longrightarrow> rs_records s = []"
    show "\<forall>t. zone_get a n t = []"
    proof
      fix t
      show "zone_get a n t = []"
      proof (cases "bt_get rr_key_cmp (rr_key_new n t) (a_records a)")
        case (Some s)
        with all bt_get_mem [OF Some] zone_inv_get [OF assms Some] show ?thesis
          by (auto simp: zone_get_def name_eq_sym [of n])
      qed (simp add: zone_get_def)
    qed
  qed
  then show ?thesis by (fastforce simp: lookup_def)
qed

lemma resource_eq_in_zone:
  assumes "zone_inv a" "rr_class r = a_class a"
  shows "(filter (\<lambda>q. resource_eq q r) (zone_get a (rr_name r) (rr_type r)) \<noteq> []) \<longleftrightarrow>
    zone_has a (rr_name r) (rr_type r) (rr_rdata r)"
proof -
  have "resource_eq q r \<longleftrightarrow> rdata_eq (rr_rdata q) (rr_rdata r)" if "q \<in> set (zone_get a (rr_name r) (rr_type r))" for q
    using zone_get_props [OF assms(1) that] assms(2) by (auto simp: resource_eq_def)
  then show ?thesis by (auto simp: zone_has_def holds_def list_ex_iff filter_empty_conv)
qed

lemma verify_prerequisite_met:
  assumes "zone_inv a" "rr_type r \<notin> {RT_SOA, RT_AXFR}" "rr_class r \<in> {CL_ANY, CL_NONE} \<or> rr_type r \<noteq> RT_ANY"
  shows "verify_prerequisite r a = Ok () \<longleftrightarrow> prerequisite_met a r"
proof (cases "zone_of (a_origin a) (rr_name r) :: (bool, response_code) outcome")
  case (Ok inside)
  have set: "lookup (rr_name r) (rr_type r) False sa_new a = zone_get a (rr_name r) (rr_type r)" if "rr_type r \<noteq> RT_ANY"
    using that assms(2,3) by (simp add: lookup_single)
  have use: "lookup (rr_name r) (rr_type r) False sa_new a \<noteq> [] \<longleftrightarrow>
      (if rr_type r = RT_ANY then \<exists>t rd. zone_has a (rr_name r) t rd else \<exists>rd. zone_has a (rr_name r) (rr_type r) rd)"
    using set lookup_any_empty [OF assms(1)] by (auto simp: zone_has_ex)
  have val: "filter (\<lambda>q. resource_eq q r) (lookup (rr_name r) (rr_type r) False sa_new a) \<noteq> [] \<longleftrightarrow>
      zone_has a (rr_name r) (rr_type r) (rr_rdata r)" if "rr_class r = a_class a" "rr_type r \<noteq> RT_ANY"
    unfolding set [OF that(2)] by (rule resource_eq_in_zone [OF assms(1) that(1)])
  show ?thesis
    using Ok use val assms(2,3)
    by (cases inside) (auto simp: verify_prerequisite_def prerequisite_met_def Let_def)
qed (auto simp: verify_prerequisite_def prerequisite_met_def)

text \<open>
  C28. The prerequisites of an update are accepted exactly if each of them is met by the data of the
  zone. A prerequisite of the zone's class asks only that its record is present: the record set it
  belongs to may hold more, where RFC 2136 asks for equal sets. (A lookup of type SOA or AXFR does not
  look at the name, so these types are left out.)
\<close>
theorem prerequisites_meaning:
  assumes "zone_inv a" "list_all (\<lambda>r. rr_type r \<notin> {RT_SOA, RT_AXFR} \<and> (rr_class r \<in> {CL_ANY, CL_NONE} \<or> rr_type r \<noteq> RT_ANY)) rs"
  shows "verify_prerequisites rs a = Ok () \<longleftrightarrow> list_all (prerequisite_met a) rs"
  using assms(2)
  by (induction rs) (auto simp: bind_outcome_Ok_iff verify_prerequisite_met [OF assms(1)])

theorem prerequisites_meaning_witness:
  "let r = \<lparr>rr_name = Name [''NS'', ''example''], rr_type = RT_A, rr_class = CL_ANY, rr_ttl = 0, rr_rdata = null_new\<rparr> in
   verify_prerequisites [r] sample_zone = Ok () \<and> prerequisite_met sample_zone r"
proof -
  let ?r = "\<lparr>rr_name = Name [''NS'', ''example''], rr_type = RT_A, rr_class = CL_ANY, rr_ttl = 0, rr_rdata = null_new\<rparr>"
  have "verify_prerequisites [?r] sample_zone = Ok ()" by code_simp
  with prerequisites_meaning [of sample_zone "[?r]"] sample_zone_props(1) show ?thesis by (simp add: Let_def)
qed

section \<open>Authorisation\<close>

lemma any_ok_True: "any_ok f xs = Ok True \<Longrightarrow> \<exists>x \<in> set xs. f x = Ok True"
  by (induction xs) (auto split: if_splits)

lemma any_ok_single: "f x = Ok True \<Longrightarrow> any_ok f [x] = Ok True"
  by simp

text \<open>A key of the zone verifies a signature of the message.\<close>

definition signed_by_zone_key :: "'p ssl \<Rightarrow> message \<Rightarrow> ('p, 'd) authority \<Rightarrow> bool" where
  "signed_by_zone_key ssl m a \<longleftrightarrow>
     (\<exists>s \<in> set (sigs_of (m_sig0 m)). \<exists>k \<in> set (keys_of (zone_get a (signer_name s) RT_KEY)). key_accepts ssl m s k = Ok True)"

lemma authorize_Ok:
  "authorize ssl m a = Ok () \<Longrightarrow> allow_update a \<and> signed_by_zone_key ssl m a"
  by (fastforce simp: authorize_def signed_by_zone_key_def lookup_single split: if_splits dest!: any_ok_True)

lemma update_checks:
  assumes "update ssl sql now m a = (r, a')" "a' \<noteq> a \<or> is_ok r"
  shows "allow_update a \<and> signed_by_zone_key ssl m a \<and>
    verify_prerequisites (get_pre_requisites m) a = Ok () \<and> pre_scan (get_updates m) a = Ok ()"
proof -
  have "authorize ssl m a = Ok () \<and> verify_prerequisites (get_pre_requisites m) a = Ok () \<and>
      pre_scan (get_updates m) a = Ok ()"
    using assms
    by (cases "authorize ssl m a"; cases "verify_prerequisites (get_pre_requisites m) a"; cases "pre_scan (get_updates m) a")
      (auto simp: update_def st_bind.simps)
  with authorize_Ok [of ssl m a] show ?thesis by simp
qed

text \<open>
  C6. Nothing but an authorised update touches a zone: if handling an update message changes the zone,
  its journal, or succeeds, then updates are allowed, a KEY record of the zone verifies a SIG(0)
  record of the message, the prerequisites are met and the prescan accepts every record.
\<close>
theorem update_requires_authorization:
  assumes "update ssl sql now m a = (r, a')" "a' \<noteq> a \<or> is_ok r"
  shows "allow_update a \<and> signed_by_zone_key ssl m a \<and>
    verify_prerequisites (get_pre_requisites m) a = Ok () \<and> pre_scan (get_updates m) a = Ok ()"
  by (rule update_checks [OF assms])

lemma sigs_of_append: "sigs_of (rs @ [r]) = sigs_of rs @ (case rr_rdata r of RD_SIG s \<Rightarrow> [s] | _ \<Rightarrow> [])"
  by (cases "rr_rdata r") (simp_all add: sigs_of_def List.map_filter_def)

text \<open>
  C25. A correctly signed update is authorised: signed with a key whose public half is the one KEY record
  the zone holds under the name of the signer, a message without other signatures is accepted by
  \<open>authorize\<close>. The libraries are assumed to rebuild the public key from its octets and to verify
  with it what the private key signed.
\<close>
theorem signed_update_authorized:
  assumes "allow_update a" "message_sign ssl signer now m = Ok m'" "m_sig0 m = []"
    "fits_u16 (length (m_additionals m) + 1)"
    "keys_of (zone_get a (sg_signer_name signer) RT_KEY) = [key]" "dk_algorithm key = sg_algorithm signer"
    "from_public_bytes ssl (public_key key) (sg_algorithm signer) = Ok public"
    "\<And>bs s. signer_sign ssl bs signer = Ok s \<Longrightarrow> key_verify ssl (sg_algorithm signer) bs s public = Ok ()"
  shows "authorize ssl m' a = Ok ()"
  using assms(2)
proof (rule message_sign_OkE)
  fix hash r s
  assume m': "hash_message ssl m signer = Ok hash" "signer_sign ssl hash signer = Ok (sig_bytes s)"
    "m' = m\<lparr>m_sig0 := m_sig0 m @ [r]\<rparr>" "rr_rdata r = RD_SIG s" "signer_name s = sg_signer_name signer"
  let ?v = "new_verifier (dk_algorithm key) public (signer_name s) False True"
  have alg: "sg_algorithm ?v = sg_algorithm signer" by (simp add: new_verifier_def assms(6))
  have "hash_message ssl m' ?v = hash_message ssl m' signer" unfolding hash_message_def alg by (rule refl)
  also have "\<dots> = Ok hash"
    unfolding m'(3) using assms(3,4) m'(1) by (subst hash_message_sig0) (simp_all add: fits_u16_def)
  finally have "verify_message ssl m' (sig_bytes s) ?v = Ok ()"
    using assms(8) [OF m'(2)]
    by (simp add: verify_message_def signer_verify_def new_verifier_def assms(6))
  then have "key_accepts ssl m' s key = Ok True"
    using assms(6,7) by (simp add: key_accepts_def)
  moreover have "sigs_of (m_sig0 m') = [s]" "m_sig0 m' \<noteq> []"
    using m'(3,4) assms(3) sigs_of_append [of "[]" r] by (simp_all add: sigs_of_def List.map_filter_def)
  ultimately show ?thesis
    using assms(1,5) m'(5) by (simp add: authorize_def lookup_single)
qed

definition keyed_zone :: "(bytes, list_db) authority" where
  "keyed_zone = zone_of_records (Name [''example''])
     [from_rdata (Name [''k'']) 300 RT_KEY (RD_KEY \<lparr>zone_key = False, secure_entry_point = False, revoke = False,
        dk_algorithm = RSASHA256, public_key = [3, 1, 0, 1, 9]\<rparr>)]"

theorem signed_update_authorized_witness:
  "\<exists>m'. message_sign toy_ssl (signer_new RSASHA256 (KP_RSA [9]) (Name [''k'']) 0 False True) 1000 message_new = Ok m' \<and>
     authorize toy_ssl m' keyed_zone = Ok ()"
proof -
  let ?s = "signer_new RSASHA256 (KP_RSA [9]) (Name [''k'']) 0 False True"
  let ?k = "\<lparr>zone_key = False, secure_entry_point = False, revoke = False, dk_algorithm = RSASHA256, public_key = [3, 1, 0, 1, 9]\<rparr>"
  have sel: "sg_signer_name ?s = Name [''k'']" "sg_algorithm ?s = RSASHA256" "sg_key ?s = KP_RSA [9]"
    by (simp_all add: signer_new_def)
  have "is_ok (message_sign toy_ssl ?s 1000 message_new)" by code_simp
  then obtain m' where m': "message_sign toy_ssl ?s 1000 message_new = Ok m'" by (auto simp: is_ok_iff)
  have "authorize toy_ssl m' keyed_zone = Ok ()"
  proof (rule signed_update_authorized [OF _ m', where key = ?k and public = "KP_RSA [9]"])
    show "allow_update keyed_zone" "keys_of (zone_get keyed_zone (sg_signer_name ?s) RT_KEY) = [?k]"
      "fits_u16 (length (m_additionals message_new) + 1)" "m_sig0 message_new = []" by code_simp+
    show "from_public_bytes toy_ssl (public_key ?k) (sg_algorithm ?s) = Ok (KP_RSA [9])" by code_simp
    show "key_verify toy_ssl (sg_algorithm ?s) bs sg (KP_RSA [9]) = Ok ()" if "signer_sign toy_ssl bs ?s = Ok sg" for bs sg
      using key_sign_verify [of toy_ssl RSASHA256 bs "KP_RSA [9]" sg] that
      by (simp add: signer_sign_def sel library_verifies_def toy_ssl_def)
  qed (simp add: sel)
  with m' show ?thesis by blast
qed

theorem update_requires_authorization_witness:
  "\<exists>m r a'. update toy_ssl list_sqlite 0 m keyed_zone = (r, a') \<and> is_ok r \<and> signed_by_zone_key toy_ssl m keyed_zone"
proof -
  let ?m = "message_sign toy_ssl (signer_new RSASHA256 (KP_RSA [9]) (Name [''k'']) 0 False True) 1000 message_new"
  have "case ?m of Ok m \<Rightarrow> is_ok (fst (update toy_ssl list_sqlite 0 m keyed_zone)) | _ \<Rightarrow> False" by code_simp
  then obtain m where m: "is_ok (fst (update toy_ssl list_sqlite 0 m keyed_zone))" by (cases ?m) auto
  obtain r a' where "update toy_ssl list_sqlite 0 m keyed_zone = (r, a')" by fastforce
  with m update_requires_authorization [of toy_ssl list_sqlite 0 m keyed_zone r a'] show ?thesis by auto
qed

end
