(* ===== verification/Zone_Recovery.thy ===== *)
theory Zone_Recovery
  imports Zone_Updates
begin

text \<open>
  Restarting a zone from its journal (\<open>recover_with_journal\<close> and \<open>persist_to_journal\<close> of
  \<open>authority/authority.rs\<close>): what recovery makes of the rows of a journal, and that a zone written to its
  journal and updated since is recovered from it, but for the serial number.
\<close>

section \<open>Replaying a journal\<close>

fun recover_records ::
  "'p ssl \<Rightarrow> 'd sqlite \<Rightarrow> int \<Rightarrow> resource list \<Rightarrow> (('p, 'd) authority, unit, persistence_error) step" where
  "recover_records ssl sql now [] = st_return ()"
| "recover_records ssl sql now (r # rs) =
     (if rr_type r = RT_AXFR then (\<lambda>a. recover_records ssl sql now rs (a\<lparr>a_records := []\<rparr>))
      else st_bind (st_map_err PE_RecoveryError (update_records ssl sql now [r] False)) (\<lambda>_.
           recover_records ssl sql now rs))"

lemma recover_loop_records:
  "journal_iter fuel sql j i = Ok rs \<Longrightarrow> recover_loop fuel ssl sql now j i a = recover_records ssl sql now rs a"
proof (induction fuel arbitrary: i rs a)
  case (Suc fuel)
  from Suc.prems obtain x where x: "journal_next sql j i = Ok x"
      "(case x of None \<Rightarrow> Ok [] | Some (r, i') \<Rightarrow> bind_outcome (journal_iter fuel sql j i') (\<lambda>rs. Ok (r # rs))) = Ok rs"
    by (auto simp: bind_outcome_Ok_iff)
  show ?case
  proof (cases x)
    case None
    with x show ?thesis by (simp add: st_bind.simps)
  next
    case (Some p)
    then obtain r i' rs' where "x = Some (r, i')" "rs = r # rs'" "journal_iter fuel sql j i' = Ok rs'"
      using x(2) by (cases p) (auto simp: bind_outcome_Ok_iff)
    moreover from this Suc.IH have "recover_loop fuel ssl sql now j i' = recover_records ssl sql now rs'" by (intro ext)
    ultimately show ?thesis using x(1) by simp
  qed
qed simp

definition replay_step :: "name \<Rightarrow> dns_class \<Rightarrow> resource \<Rightarrow> zone \<Rightarrow> zone" where
  "replay_step origin cls r z = (if rr_type r = RT_AXFR then (\<lambda>_ _ _. False) else spec_update origin cls r z)"

abbreviation recoverable :: "dns_class \<Rightarrow> resource \<Rightarrow> bool" where
  "recoverable cls r \<equiv> rr_type r = RT_AXFR \<or> update_ok cls r"

lemma empty_zone [simp]: "zone_inv (a\<lparr>a_records := []\<rparr>)" "zone_has (a\<lparr>a_records := []\<rparr>) = (\<lambda>_ _ _. False)"
  by (simp_all add: zone_inv_def zone_has_def zone_get_def fun_eq_iff)

lemma unjournaled_update:
  assumes "zone_inv a" "update_ok (a_class a) r" "a_journal a = None"
  obtains b a' where "update_records ssl sql now [r] False a = (Ok b, a')" "zone_inv a'" "same_frame a a'"
    "zone_has a' = spec_update (a_origin a) (a_class a) r (zone_has a)"
proof -
  have w: "write_ahead sql now ser [r] a = (Ok (), a)" for ser using assms(3) by (simp add: write_ahead_def)
  obtain ser where ser: "get_serial a = (Ok ser :: (u32, response_code) outcome)"
    using get_serial_zone [OF assms(1)] by blast
  obtain b a' where "update_loop ser [r] False a = (Ok b, a')" "zone_inv a'" "same_frame a a'"
      "zone_has a' = spec_update (a_origin a) (a_class a) r (zone_has a)"
    using update_loop_refines [of a "[r]" ser False] assms(1,2) unfolding refines_def by (auto simp del: update_loop.simps)
  with w ser show thesis by (intro that [of b a']) (simp_all add: update_records_def del: update_loop.simps)
qed

lemma recover_records_refines:
  assumes "zone_inv a" "list_all (recoverable (a_class a)) rs" "a_journal a = None"
  shows "\<exists>a'. recover_records ssl sql now rs a = (Ok (), a') \<and> zone_inv a' \<and> same_frame a a' \<and>
    zone_has a' = fold (replay_step (a_origin a) (a_class a)) rs (zone_has a)"
  using assms
proof (induction rs arbitrary: a)
  case (Cons r rs)
  show ?case
  proof (cases "rr_type r = RT_AXFR")
    case True
    from Cons.IH [of "a\<lparr>a_records := []\<rparr>"] Cons.prems True show ?thesis
      by (auto simp: replay_step_def intro: same_frame_trans [OF same_frame_records])
  next
    case False
    with Cons.prems obtain b a1 where one: "update_records ssl sql now [r] False a = (Ok b, a1)" "zone_inv a1" "same_frame a a1"
        "zone_has a1 = spec_update (a_origin a) (a_class a) r (zone_has a)"
      using unjournaled_update [of a r ssl sql now] by auto
    with Cons.IH [of a1] Cons.prems False same_frame_sel [OF one(3)] show ?thesis
      by (auto simp: replay_step_def st_bind.simps intro: same_frame_trans)
  qed
qed simp

lemma recover_replays:
  assumes "table_laws sql rows" "journal_holds rows j rs" "length rs < fuel" "a_records a = []" "a_journal a = None"
    "\<not> is_dnssec_enabled a" "list_all (recoverable (a_class a)) rs"
  shows "\<exists>xs a'. recover_with_journal fuel ssl sql now j a = (Ok (), a') \<and> zone_inv a' \<and> same_frame a a' \<and>
    zone_has a' = fold (replay_step (a_origin a) (a_class a)) xs (\<lambda>_ _ _. False) \<and> subseq xs rs \<and>
    (visits_in_order sql rows (j_conn j) \<longrightarrow> xs = rs)"
proof -
  obtain xs where xs: "journal_iter fuel sql j 0 = Ok xs" "subseq xs rs" "visits_in_order sql rows (j_conn j) \<longrightarrow> xs = rs"
    using journal_holds_iter [OF assms(1-3)] by blast
  have ok: "list_all (recoverable (a_class a)) xs"
    using assms(7) list_emb_set [OF xs(2)] unfolding list_all_iff by metis
  have "a = a\<lparr>a_records := []\<rparr>" using assms(4) by simp
  then have e: "zone_inv a" "zone_has a = (\<lambda>_ _ _. False)" using empty_zone by metis+
  obtain a' where "recover_records ssl sql now xs a = (Ok (), a')" "zone_inv a'" "same_frame a a'"
      "zone_has a' = fold (replay_step (a_origin a) (a_class a)) xs (\<lambda>_ _ _. False)"
    using recover_records_refines [OF e(1) ok assms(5)] e(2) by metis
  moreover have "recover_loop fuel ssl sql now j 0 a = recover_records ssl sql now xs a"
    by (rule recover_loop_records [OF xs(1)])
  ultimately show ?thesis using assms(4,6) same_frame_sel [of a a'] xs(2,3)
    by (intro exI [of _ xs] exI [of _ a']) (simp add: recover_with_journal_def st_bind.simps)
qed

section \<open>The rows of a zone\<close>

abbreviation alone :: "record_type \<Rightarrow> bool" where
  "alone t \<equiv> t = RT_SOA \<or> t = RT_CNAME"

definition clashes :: "resource \<Rightarrow> resource \<Rightarrow> bool" where
  "clashes r r' \<longleftrightarrow> alone (rr_type r) \<and> same_key (rr_name r') (rr_type r') r"

lemma spec_add_alone:
  "same_key n t r \<Longrightarrow> alone t \<Longrightarrow> \<forall>rd. \<not> z n t rd \<Longrightarrow> spec_add r z n t rd = rdata_eq (rr_rdata r) rd"
  by (auto simp: spec_add_def)

lemma spec_add_other:
  "\<not> (same_key n t r \<and> alone t) \<Longrightarrow>
   spec_add r z n t rd \<longleftrightarrow> z n t rd \<or> same_key n t r \<and> rdata_eq (rr_rdata r) rd"
  by (auto simp: spec_add_def)

lemma fold_spec_add_rows:
  assumes "sorted_wrt (\<lambda>r r'. \<not> clashes r r') rs"
  shows "fold spec_add rs (\<lambda>_ _ _. False) n t rd \<longleftrightarrow> (\<exists>r\<in>set rs. same_key n t r \<and> rdata_eq (rr_rdata r) rd)"
  using assms
proof (induction rs arbitrary: rd rule: rev_induct)
  case (snoc r rs)
  let ?z = "fold spec_add rs (\<lambda>_ _ _. False)"
  have z: "?z n t rd \<longleftrightarrow> (\<exists>r\<in>set rs. same_key n t r \<and> rdata_eq (rr_rdata r) rd)" for rd
    using snoc by (simp add: sorted_wrt_append)
  have none: "\<not> same_key n t r'" if "same_key n t r" "alone t" "r' \<in> set rs" for r'
    using that snoc.prems by (auto simp: sorted_wrt_append clashes_def name_eq_iff)
  show ?case
  proof (cases "same_key n t r \<and> alone t")
    case True
    then have "\<forall>rd. \<not> ?z n t rd" using z none by blast
    with True have "spec_add r ?z n t rd = rdata_eq (rr_rdata r) rd" by (intro spec_add_alone) auto
    with True none show ?thesis by auto
  next
    case False
    then show ?thesis by (auto simp: spec_add_other z)
  qed
qed simp

definition zone_rows :: "('p, 'd) authority \<Rightarrow> resource list" where
  "zone_rows a = concat (map (rs_records \<circ> snd) (a_records a))"

lemma zone_rows_key:
  assumes "zone_inv a" "(k, s) \<in> set (a_records a)" "r \<in> set (rs_records s)"
  shows "name_eq (rr_name r) (key_name k)" "rr_type r = key_type k" "rr_class r = a_class a" "rr_set_inv s"
    "key_type k = rs_type s"
  using assms by (auto simp: zone_inv_def list_all_iff entry_inv_def rr_set_inv_def same_owner_def name_eq_iff)

lemma zone_rows_class:
  assumes "zone_inv a" "r \<in> set (zone_rows a)"
  shows "rr_class r = a_class a"
  using assms(2) zone_rows_key(3) [OF assms(1)] unfolding zone_rows_def by auto

lemma filter_alike: "(\<And>x. x \<in> set xs \<Longrightarrow> P x \<longleftrightarrow> Q) \<Longrightarrow> filter P xs = (if Q then xs else [])"
  by (auto simp: filter_empty_conv)

lemma bt_get_rows:
  assumes "bt_sorted rr_key_cmp m"
  shows "concat (map (\<lambda>(k, s). if rr_key_cmp key k = Equal then rs_records s else []) m) =
    (case bt_get rr_key_cmp key m of Some s \<Rightarrow> rs_records s | None \<Rightarrow> [])"
  using assms
proof (induction m)
  case (Cons e m)
  obtain k s where e: "e = (k, s)" by (cases e)
  show ?case
  proof (cases "rr_key_cmp key k = Equal")
    case True
    have "rr_key_cmp key k' \<noteq> Equal" if "(k', s') \<in> set m" for k' s'
    proof
      assume "rr_key_cmp key k' = Equal"
      with True have "rr_key_cmp k k' = Equal" by (simp add: rr_key_cmp_Equal name_eq_iff)
      moreover have "rr_key_cmp k k' = Less" using Cons.prems e that by fastforce
      ultimately show False by simp
    qed
    with True e show ?thesis by fastforce
  qed (use Cons e in \<open>auto split: ordering.split\<close>)
qed simp

text \<open>The records under a name and a type are those rows of the zone, in their order.\<close>

lemma zone_get_rows:
  assumes "zone_inv a"
  shows "zone_get a n t = filter (same_key n t) (zone_rows a)"
proof -
  have "filter (same_key n t) (rs_records s) = (if rr_key_cmp (rr_key_new n t) k = Equal then rs_records s else [])"
    if "(k, s) \<in> set (a_records a)" for k s
    using zone_rows_key(1,2) [OF assms that] by (intro filter_alike) (auto simp: rr_key_cmp_Equal name_eq_iff)
  then have "filter (same_key n t) (zone_rows a) =
      concat (map (\<lambda>(k, s). if rr_key_cmp (rr_key_new n t) k = Equal then rs_records s else []) (a_records a))"
    unfolding zone_rows_def filter_concat map_map by (intro arg_cong [of _ _ concat] map_cong) auto
  moreover have "bt_sorted rr_key_cmp (a_records a)" using assms by (simp add: zone_inv_def)
  ultimately show ?thesis unfolding zone_get_def by (simp only: bt_get_rows)
qed

lemma zone_has_rows:
  assumes "zone_inv a"
  shows "zone_has a n t rd \<longleftrightarrow> (\<exists>r\<in>set (zone_rows a). same_key n t r \<and> rdata_eq (rr_rdata r) rd)"
  by (auto simp: zone_has_def holds_def list_ex_iff zone_get_rows [OF assms])

lemma sorted_wrt_concat:
  "sorted_wrt P (concat xss) \<longleftrightarrow> list_all (sorted_wrt P) xss \<and> sorted_wrt (\<lambda>xs ys. \<forall>x\<in>set xs. \<forall>y\<in>set ys. P x y) xss"
  by (induction xss) (auto simp: sorted_wrt_append)

lemma zone_rows_clash:
  assumes "zone_inv a"
  shows "sorted_wrt (\<lambda>r r'. \<not> clashes r r') (zone_rows a)"
proof -
  have "sorted_wrt (\<lambda>r r'. \<not> clashes r r') (rs_records s)" if "(k, s) \<in> set (a_records a)" for k s
  proof (cases "alone (rs_type s)")
    case True
    with that assms have "length (rs_records s) \<le> 1"
      by (auto simp: zone_inv_def list_all_iff entry_inv_def rr_set_inv_def)
    then show ?thesis by (cases "rs_records s") auto
  next
    case False
    then have "\<not> clashes r r'" if "r \<in> set (rs_records s)" for r r'
      using zone_rows_key [OF assms \<open>(k, s) \<in> set (a_records a)\<close> that] by (simp add: clashes_def)
    then show ?thesis by (simp add: sorted_wrt_iff_nth_less)
  qed
  moreover have "sorted_wrt (\<lambda>x y. \<forall>r\<in>set (rs_records (snd x)). \<forall>r'\<in>set (rs_records (snd y)). \<not> clashes r r') (a_records a)"
  proof (rule sorted_wrt_mono_rel)
    show "sorted_wrt (\<lambda>x y. rr_key_cmp (fst x) (fst y) = Less) (a_records a)"
      using assms by (simp add: zone_inv_def bt_sorted_def sorted_wrt_map)
    fix x y assume xy: "x \<in> set (a_records a)" "y \<in> set (a_records a)" "rr_key_cmp (fst x) (fst y) = Less"
    then have "rr_key_cmp (fst x) (fst y) \<noteq> Equal" by simp
    moreover have "rr_key_cmp (fst x) (fst y) = Equal"
      if "r \<in> set (rs_records (snd x))" "r' \<in> set (rs_records (snd y))" "clashes r r'" for r r'
      using zone_rows_key(1,2) [OF assms, of "fst x" "snd x" r] zone_rows_key(1,2) [OF assms, of "fst y" "snd y" r'] xy(1,2) that
      by (simp add: clashes_def rr_key_cmp_Equal name_eq_iff)
    ultimately show "\<forall>r\<in>set (rs_records (snd x)). \<forall>r'\<in>set (rs_records (snd y)). \<not> clashes r r'" by blast
  qed
  ultimately show ?thesis by (auto simp: zone_rows_def sorted_wrt_concat list_all_iff sorted_wrt_map)
qed

lemma zone_rows_replay:
  assumes "zone_inv a"
  shows "fold (spec_update (a_origin a) (a_class a)) (zone_rows a) (\<lambda>_ _ _. False) = zone_has a"
proof -
  have "fold (spec_update (a_origin a) (a_class a)) (zone_rows a) z = fold spec_add (zone_rows a) z" for z
    by (rule fold_cong [OF refl refl]) (simp add: spec_update_def zone_rows_class [OF assms] fun_eq_iff)
  then show ?thesis
    using fold_spec_add_rows [OF zone_rows_clash [OF assms]] zone_has_rows [OF assms] by (simp add: fun_eq_iff)
qed

section \<open>Data but for the serial number\<close>

text \<open>A zone with the serial number of the SOA record at its origin set to 0.\<close>

definition unserial :: "name \<Rightarrow> zone \<Rightarrow> zone" where
  "unserial origin z n t rd \<longleftrightarrow>
     (if name_eq n origin \<and> t = RT_SOA then \<exists>d. z n t (RD_SOA d) \<and> rdata_eq (RD_SOA (d\<lparr>serial := 0\<rparr>)) rd else z n t rd)"

lemma unserial_other: "\<not> (name_eq n origin \<and> t = RT_SOA) \<Longrightarrow> unserial origin z n t = z n t"
  unfolding unserial_def by (intro ext) (simp only: if_False)

text \<open>What adds no SOA record at the origin acts the same on a zone and on the zone without its serial.\<close>

definition keeps_serial :: "name \<Rightarrow> dns_class \<Rightarrow> resource \<Rightarrow> bool" where
  "keeps_serial origin cls r \<longleftrightarrow> \<not> (rr_class r = cls \<and> rr_type r = RT_SOA \<and> name_eq (rr_name r) origin)"

lemma update_soa_data:
  assumes "keeps_serial origin cls r" "name_eq n origin"
  shows "spec_update origin cls r z n RT_SOA rd \<longleftrightarrow> z n RT_SOA rd \<and> \<not> deletes_apex origin cls r"
  using assms
  by (auto simp: spec_update_def spec_add_def spec_delete_name_def spec_delete_set_def spec_delete_def keeps_serial_def
    deletes_apex_def name_eq_iff)

lemma update_other_data: "z n t = z' n t \<Longrightarrow> spec_update origin cls r z n t = spec_update origin cls r z' n t"
  by (intro ext, cases "rr_class r = cls"; cases "rr_class r = CL_ANY"; cases "rr_type r = RT_ANY")
    (simp_all only: spec_update_def spec_add_def spec_delete_name_def spec_delete_set_def spec_delete_def if_True if_False simp_thms)

lemma unserial_update:
  assumes "keeps_serial origin cls r"
  shows "unserial origin (spec_update origin cls r z) = spec_update origin cls r (unserial origin z)"
proof (intro ext)
  fix n t rd
  show "unserial origin (spec_update origin cls r z) n t rd = spec_update origin cls r (unserial origin z) n t rd"
  proof (cases "name_eq n origin \<and> t = RT_SOA")
    case True
    with update_soa_data [OF assms, of n] show ?thesis by (auto simp: unserial_def)
  next
    case False
    with update_other_data [of "unserial origin z" n t z origin cls r] show ?thesis by (simp add: unserial_other)
  qed
qed

lemma unserial_updates:
  "list_all (keeps_serial origin cls) rs \<Longrightarrow>
   unserial origin (fold (spec_update origin cls) rs z) = fold (spec_update origin cls) rs (unserial origin z)"
  by (induction rs arbitrary: z) (simp_all add: unserial_update)

lemma unserial_bump: "unserial origin (spec_bump origin z) = unserial origin z"
proof (intro ext)
  fix n t rd
  have e: "rdata_eq (RD_SOA (x\<lparr>serial := 0\<rparr>)) rd \<longleftrightarrow> rdata_eq (RD_SOA (d\<lparr>serial := 0\<rparr>)) rd"
    if "rdata_eq (RD_SOA (d\<lparr>serial := serial d + 1\<rparr>)) (RD_SOA x)" for d x
    using rdata_eq_soa_serial [OF that, of 0 rd] by simp
  show "unserial origin (spec_bump origin z) n t rd = unserial origin z n t rd"
  proof (cases "name_eq n origin \<and> t = RT_SOA")
    case True
    have "(\<exists>x. (\<exists>d. z n t (RD_SOA d) \<and> rdata_eq (RD_SOA (d\<lparr>serial := serial d + 1\<rparr>)) (RD_SOA x)) \<and>
        rdata_eq (RD_SOA (x\<lparr>serial := 0\<rparr>)) rd) \<longleftrightarrow> (\<exists>d. z n t (RD_SOA d) \<and> rdata_eq (RD_SOA (d\<lparr>serial := 0\<rparr>)) rd)"
      using e rdata_eq_refl by blast
    with True show ?thesis by (simp add: unserial_def spec_bump_def)
  next
    case False
    then have "spec_bump origin z n t rd = z n t rd" unfolding spec_bump_def by (simp only: if_False)
    with unserial_other [OF False] show ?thesis by simp
  qed
qed

lemma updates_keep_serial:
  assumes "list_all (keeps_serial origin cls) rs" "serial_at origin (fold (spec_update origin cls) rs z) s"
  shows "serial_at origin z s"
  using assms
proof (induction rs arbitrary: z)
  case (Cons r rs)
  then have "serial_at origin (spec_update origin cls r z) s" by simp
  with Cons.prems(1) update_soa_data [of origin cls r origin z] show ?case by (simp add: serial_at_def)
qed simp

section \<open>Serving and restarting\<close>

text \<open>
  The records of updates that are followed: they can be stored, add no SOA record at the origin, and an SOA
  record elsewhere has SOA data. An update that is refused leaves the zone as it is.
\<close>

definition journaled :: "name \<Rightarrow> dns_class \<Rightarrow> resource \<Rightarrow> bool" where
  "journaled origin cls r \<longleftrightarrow>
     storable r \<and> keeps_serial origin cls r \<and> (rr_class r = cls \<and> rr_type r = RT_SOA \<longrightarrow> is_soa (rr_rdata r))"

inductive serves :: "'p ssl \<Rightarrow> 'd sqlite \<Rightarrow> ('p, 'd) authority \<Rightarrow> ('p, 'd) authority \<Rightarrow> bool" for ssl sql a where
  start: "serves ssl sql a a"
| accepted: "serves ssl sql a b \<Longrightarrow> list_all (journaled (a_origin b) (a_class b)) (get_updates m) \<Longrightarrow>
    update ssl sql now m b = (Ok changed, c) \<Longrightarrow> serves ssl sql a c"

lemma pre_scan_update_ok:
  assumes "pre_scan rs a = Ok ()" "list_all (journaled org (a_class a)) rs"
  shows "list_all (\<lambda>r. update_ok (a_class a) r \<and> rr_type r \<noteq> RT_AXFR) rs"
  using assms
proof (induction rs)
  case (Cons r rs)
  then have "pre_scan_record r a = Ok ()" "list_all (\<lambda>r. update_ok (a_class a) r \<and> rr_type r \<noteq> RT_AXFR) rs"
    by (auto simp: bind_outcome_Ok_iff)
  moreover from this(1) Cons.prems(2) have "update_ok (a_class a) r \<and> rr_type r \<noteq> RT_AXFR"
    by (auto simp: pre_scan_record_def bind_outcome_Ok_iff update_ok_def journaled_def split: if_splits)
  ultimately show ?case by simp
qed simp

lemma finish_update_effect:
  assumes "finish_update ssl now u a = (Ok b, c)" "zone_inv a" "\<not> is_dnssec_enabled a"
  shows "zone_inv c \<and> same_frame a c \<and> zone_has c = spec_bump (a_origin a) (zone_has a)"
proof -
  obtain n where inc: "increment_soa_serial a = (Ok n :: (u32, response_code) outcome, c)"
    using assms(1,3) by (auto simp: finish_update_def st_bind_Ok_iff)
  then have "\<not> serial_at (a_origin a) (zone_has a) (- 1)"
    using increment_max_panics [OF assms(2), where 'e = response_code] by auto
  then have "\<forall>ser. serial_at (a_origin a) (zone_has a) ser \<longrightarrow> ser \<noteq> - 1" by blast
  then show ?thesis by (rule increment_effect [OF assms(2), where 'e = response_code]) (use inc in simp)
qed

lemma update_records_journal:
  assumes "update_records ssl sql now us True a = (Ok b, c)" "a_journal a = Some j" "zone_inv a" "\<not> is_dnssec_enabled a"
    "list_all (update_ok (a_class a)) us"
  obtains ser j' where "insert_records sql now ser us j = (Ok (), j')" "zone_inv c" "same_frame (a\<lparr>a_journal := Some j'\<rparr>) c"
    "unserial (a_origin a) (zone_has c) =
       unserial (a_origin a) (fold (spec_update (a_origin a) (a_class a)) us (zone_has a))"
proof -
  obtain ser a1 u a2 where up: "write_ahead sql now ser us a = (Ok (), a1)" "update_loop ser us False a1 = (Ok u, a2)"
      "(if u then finish_update ssl now u else st_return u) a2 = (Ok b, c)"
    using assms(1) unfolding update_records_def st_bind_Ok_iff by auto
  obtain j' where j: "insert_records sql now ser us j = (Ok (), j')" "a1 = a\<lparr>a_journal := Some j'\<rparr>"
    using up(1) assms(2)
    by (cases "insert_records sql now ser us j"; cases "fst (insert_records sql now ser us j)") (auto simp: write_ahead_def)
  have a2: "zone_inv a2" "same_frame a1 a2" "zone_has a2 = fold (spec_update (a_origin a) (a_class a)) us (zone_has a)"
    using update_loop_refines [of a1 us ser False] assms(3,5) up(2) j(2) unfolding refines_def by auto
  show thesis
  proof (cases u)
    case True
    with up(3) finish_update_effect [of ssl now u a2 b c] a2 same_frame_sel [OF a2(2)] assms(4) j(2) show thesis
      by (intro that [OF j(1)]) (auto simp: unserial_bump intro: same_frame_trans)
  next
    case False
    with up(3) a2 j show thesis by (intro that [OF j(1)]) auto
  qed
qed

definition followed :: "('p, 'd) authority \<Rightarrow> resource \<Rightarrow> bool" where
  "followed a r \<longleftrightarrow> update_ok (a_class a) r \<and> rr_type r \<noteq> RT_AXFR \<and> keeps_serial (a_origin a) (a_class a) r"

lemma insert_record_length:
  assumes "table_laws sql rows" "insert_record sql now ser r j = (Ok (), j')"
  shows "length (rows (j_conn j')) = Suc (length (rows (j_conn j)))"
proof -
  obtain row n d' where "sql_insert sql row (j_conn j) = (Inr n, d')" "j' = j\<lparr>j_conn := d'\<rparr>"
    using assms(2)
    by (auto simp: insert_record_def execute_def st_bind.simps split: sum.splits prod.splits outcome.splits if_splits)
  moreover from this obtain i where "rows d' = rows (j_conn j) @ [(i, row)]" using assms(1) unfolding table_laws_def by blast
  ultimately show ?thesis by simp
qed

lemma insert_records_length:
  "table_laws sql rows \<Longrightarrow> insert_records sql now ser rs j = (Ok (), j') \<Longrightarrow>
   length (rows (j_conn j')) = length (rows (j_conn j)) + length rs"
  by (induction rs arbitrary: j) (auto simp: st_bind_Ok_iff dest: insert_record_length)

lemma serves_journal:
  assumes "serves ssl sql a c" "table_laws sql rows" "zone_inv a" "\<not> is_dnssec_enabled a" "a_journal a = Some j"
    "length (rows (j_conn j)) = length old" "int (length old) \<le> max_rowid \<longrightarrow> journal_holds rows j old"
  shows "\<exists>j' us. a_journal c = Some j' \<and> length (rows (j_conn j')) = length (old @ us) \<and>
    (int (length (old @ us)) \<le> max_rowid \<longrightarrow> journal_holds rows j' (old @ us)) \<and> zone_inv c \<and> \<not> is_dnssec_enabled c \<and>
    a_origin c = a_origin a \<and> a_class c = a_class a \<and> list_all (followed a) us \<and>
    unserial (a_origin a) (zone_has c) = unserial (a_origin a) (fold (spec_update (a_origin a) (a_class a)) us (zone_has a))"
  using assms(1)
proof induction
  case start
  with assms(3-7) show ?case by (intro exI [of _ j] exI [of _ "[]"]) simp
next
  case (accepted b m now changed c)
  let ?org = "a_origin a" and ?cls = "a_class a" and ?ms = "get_updates m"
  from accepted.IH obtain j1 us where b: "a_journal b = Some j1"
      "int (length (old @ us)) \<le> max_rowid \<longrightarrow> journal_holds rows j1 (old @ us)" "zone_inv b"
      "\<not> is_dnssec_enabled b" "a_origin b = ?org" "a_class b = ?cls" "list_all (followed a) us"
      "unserial ?org (zone_has b) = unserial ?org (fold (spec_update ?org ?cls) us (zone_has a))"
      "length (rows (j_conn j1)) = length (old @ us)" by blast
  have "pre_scan ?ms b = Ok ()" using update_checks [OF accepted.hyps(3)] by simp
  then have ok: "list_all (\<lambda>r. update_ok ?cls r \<and> rr_type r \<noteq> RT_AXFR) ?ms"
    using pre_scan_update_ok [OF _ accepted.hyps(2)] b(6) by simp
  have keep: "list_all (keeps_serial ?org ?cls) us" "list_all (keeps_serial ?org ?cls) ?ms"
    using b(5-7) accepted.hyps(2) by (auto simp: list_all_iff followed_def journaled_def)
  have upd: "update_records ssl sql now ?ms True b = (Ok changed, c)" and oks: "list_all (update_ok (a_class b)) ?ms"
    using accepted.hyps(3) ok b(6) by (auto simp: update_def st_bind_Ok_iff list_all_iff)
  obtain ser j' where up: "insert_records sql now ser ?ms j1 = (Ok (), j')" "zone_inv c"
      "same_frame (b\<lparr>a_journal := Some j'\<rparr>) c"
      "unserial ?org (zone_has c) = unserial ?org (fold (spec_update ?org ?cls) ?ms (zone_has b))"
    by (rule update_records_journal [OF upd b(1,3,4) oks]) (simp only: b(5,6))
  have "list_all storable ?ms" using accepted.hyps(2) by (auto simp: list_all_iff journaled_def)
  then have "int (length (old @ us @ ?ms)) \<le> max_rowid \<longrightarrow> journal_holds rows j' (old @ us @ ?ms)"
    using insert_records_holds [OF assms(2) _ _ up(1), of "old @ us"] b(2) by simp
  moreover have "length (rows (j_conn j')) = length (old @ us @ ?ms)"
    using insert_records_length [OF assms(2) up(1)] b(9) by simp
  moreover have "list_all (followed a) (us @ ?ms)" using b(7) ok keep by (auto simp: list_all_iff followed_def)
  moreover have "unserial ?org (zone_has c) = unserial ?org (fold (spec_update ?org ?cls) (us @ ?ms) (zone_has a))"
    using up(4) b(8) keep by (simp add: unserial_updates)
  ultimately show ?case using up(2) same_frame_sel [OF up(3)] b(4-6) by (intro exI [of _ j'] exI [of _ "us @ ?ms"]) simp
qed

lemma replay_updates: "list_all (\<lambda>r. rr_type r \<noteq> RT_AXFR) us \<Longrightarrow> fold (replay_step org cls) us z = fold (spec_update org cls) us z"
  by (induction us arbitrary: z) (simp_all add: replay_step_def)

abbreviation axfr_mark :: resource where
  "axfr_mark \<equiv> resource_new\<lparr>rr_type := RT_AXFR\<rparr>"

lemma axfr_mark_storable: "storable axfr_mark"
  by code_simp

lemma persist_holds:
  assumes "table_laws sql rows" "persist_to_journal sql now a = (Ok (), b)" "a_journal a = Some j" "journal_holds rows j old"
    "list_all storable (zone_rows a)"
  obtains j' where "b = a\<lparr>a_journal := Some j'\<rparr>" "length (rows (j_conn j')) = length (old @ axfr_mark # zone_rows a)"
    "int (length (old @ axfr_mark # zone_rows a)) \<le> max_rowid \<longrightarrow> journal_holds rows j' (old @ axfr_mark # zone_rows a)"
proof -
  obtain ser j' where "insert_records sql now ser (axfr_mark # zone_rows a) j = (Ok (), j')" "b = a\<lparr>a_journal := Some j'\<rparr>"
    using assms(2,3) by (auto simp: persist_to_journal_def zone_rows_def split: outcome.splits prod.splits)
  moreover from insert_records_length [OF assms(1) this(1)] have "length (rows (j_conn j')) = length (rows (j_conn j)) + Suc (length (zone_rows a))"
    by simp
  moreover have "length (rows (j_conn j)) = length old" using assms(4) list_all2_lengthD by (auto simp: journal_holds_def)
  ultimately show thesis
    using insert_records_holds [OF assms(1,4), of "axfr_mark # zone_rows a"] assms(5) axfr_mark_storable
    by (intro that) auto
qed

lemma zone_rows_update_ok:
  assumes "zone_inv a" "r \<in> set (zone_rows a)"
  shows "update_ok (a_class a) r"
proof -
  obtain k s where s: "(k, s) \<in> set (a_records a)" "r \<in> set (rs_records s)" using assms(2) by (auto simp: zone_rows_def)
  with zone_rows_key [OF assms(1) s] show ?thesis by (simp add: update_ok_def rr_set_inv_def list_all_iff)
qed

text \<open>What a restart makes of a journal: the marker clears what precedes it, and the rest is the zone and its updates.\<close>

lemma replay_journal:
  assumes "zone_inv a" "list_all (\<lambda>r. rr_type r \<noteq> RT_AXFR) (zone_rows a)" "list_all (followed a) us"
  shows "fold (replay_step (a_origin a) (a_class a)) (old @ axfr_mark # zone_rows a @ us) z =
    fold (spec_update (a_origin a) (a_class a)) us (zone_has a)"
proof -
  have "list_all (\<lambda>r. rr_type r \<noteq> RT_AXFR) (zone_rows a @ us)"
    using assms(2,3) by (auto simp: list_all_iff followed_def)
  from replay_updates [OF this] have "fold (replay_step (a_origin a) (a_class a)) (zone_rows a @ us) (\<lambda>_ _ _. False) =
      fold (spec_update (a_origin a) (a_class a)) us (zone_has a)"
    by (simp add: zone_rows_replay [OF assms(1)])
  then show ?thesis by (simp add: replay_step_def)
qed

text \<open>The journal of a zone that was written to it and served updates: a marker, the zone, and the updates.\<close>

lemma served_journal:
  assumes "table_laws sql rows" "zone_inv a" "\<not> is_dnssec_enabled a" "a_journal a = Some j" "journal_holds rows j []"
    "list_all storable (zone_rows a)" "persist_to_journal sql now a = (Ok (), b)" "serves ssl sql b c"
    "a_journal c = Some jc" "int (length (rows (j_conn jc))) \<le> max_rowid"
  obtains us where "journal_holds rows jc (axfr_mark # zone_rows a @ us)" "list_all (followed a) us"
    "unserial (a_origin a) (zone_has c) = unserial (a_origin a) (fold (spec_update (a_origin a) (a_class a)) us (zone_has a))"
proof -
  obtain j1 where j1: "b = a\<lparr>a_journal := Some j1\<rparr>" "length (rows (j_conn j1)) = length (axfr_mark # zone_rows a)"
      "int (length (axfr_mark # zone_rows a)) \<le> max_rowid \<longrightarrow> journal_holds rows j1 (axfr_mark # zone_rows a)"
    using persist_holds [OF assms(1,7,4,5,6)] by (metis append_Nil)
  have "zone_inv b" "\<not> is_dnssec_enabled b" "a_journal b = Some j1" using assms(2,3) j1 by simp_all
  from serves_journal [OF assms(8,1) this j1(2,3)] obtain us where "journal_holds rows jc (axfr_mark # zone_rows a @ us)"
      "list_all (followed b) us" "unserial (a_origin a) (zone_has c) = unserial (a_origin a) (fold (spec_update (a_origin a) (a_class a)) us (zone_has a))"
    using assms(9,10) j1 by auto
  with j1 show thesis by (intro that) (auto simp: list_all_iff followed_def)
qed

text \<open>
  C9. A zone survives a restart. A zone is written to its new journal, serves any number of accepted updates,
  and an empty zone with its origin is recovered from a journal with the same rows: recovery always succeeds
  and gives a zone in its invariant, and where SQLite reads the table without an error and in the order of
  the row ids (the SELECT has no ORDER BY and does not ask for it), the data is that of the zone that was
  running, but for the serial number. That is the one the zone had when it was written to the journal: the
  increments made by the updates are lost. (The zone is not signed; no update adds an SOA record at the
  origin; updates refused after a part of them was written to the journal are not followed.)
\<close>
theorem restart_recovers_zone:
  assumes "table_laws sql rows" "zone_inv a" "\<not> is_dnssec_enabled a" "a_journal a = Some j" "journal_holds rows j []"
    "list_all (\<lambda>r. storable r \<and> rr_type r \<noteq> RT_AXFR) (zone_rows a)"
    "persist_to_journal sql now a = (Ok (), b)" "serves ssl sql b c" "a_journal c = Some jc"
    "rows (j_conn jr) = rows (j_conn jc)" "j_version jr = current_version" "length (rows (j_conn jr)) < fuel"
    "int (length (rows (j_conn jc))) \<le> max_rowid"
    "e = authority_new (a_origin a) [] zt allow False" "a_class a = CL_IN"
  shows "\<exists>e'. recover_with_journal fuel ssl sql now' jr e = (Ok (), e') \<and> zone_inv e' \<and>
    (visits_in_order sql rows (j_conn jr) \<longrightarrow>
      unserial (a_origin a) (zone_has e') = unserial (a_origin a) (zone_has c) \<and>
      (\<forall>s. serial_at (a_origin a) (zone_has e') s \<longrightarrow> serial_at (a_origin a) (zone_has a) s))"
proof -
  let ?org = "a_origin a" and ?cls = "a_class a"
  have rows: "list_all storable (zone_rows a)" "list_all (\<lambda>r. rr_type r \<noteq> RT_AXFR) (zone_rows a)"
    using assms(6) by (simp_all add: list_all_iff)
  obtain us where c: "journal_holds rows jc (axfr_mark # zone_rows a @ us)" "list_all (followed a) us"
      "unserial ?org (zone_has c) = unserial ?org (fold (spec_update ?org ?cls) us (zone_has a))"
    using served_journal [OF assms(1-5) rows(1) assms(7-9,13)] by blast
  let ?rs = "axfr_mark # zone_rows a @ us"
  have jr: "journal_holds rows jr ?rs" using c(1) assms(10,11) by (simp add: journal_holds_def)
  have e: "a_records e = []" "a_journal e = None" "\<not> is_dnssec_enabled e" "a_origin e = ?org" "a_class e = ?cls"
    using assms(14,15) by (simp_all add: authority_new_def)
  have "list_all (recoverable (a_class e)) ?rs"
    using c(2) zone_rows_update_ok [OF assms(2)] e(5) by (auto simp: list_all_iff followed_def)
  moreover have "length ?rs < fuel"
    using jr assms(12) list_all2_lengthD unfolding journal_holds_def by fastforce
  ultimately obtain xs e' where e': "recover_with_journal fuel ssl sql now' jr e = (Ok (), e')" "zone_inv e'"
      "zone_has e' = fold (replay_step ?org ?cls) xs (\<lambda>_ _ _. False)" "visits_in_order sql rows (j_conn jr) \<longrightarrow> xs = ?rs"
    using recover_replays [OF assms(1) jr _ e(1-3), of fuel ssl now'] e(4,5) by auto
  have "list_all (keeps_serial ?org ?cls) us" using c(2) by (simp add: list_all_iff followed_def)
  with e' c(3) updates_keep_serial replay_journal [OF assms(2) rows(2) c(2), of "[]"] show ?thesis by auto
qed

definition restart_zone :: "(bytes, list_db) authority" where
  "restart_zone = (zone_of_records (Name [''example''])
     [from_rdata (Name [''example'']) 300 RT_NS (RD_NS (Name [''ns'', ''example''])), sample_soa,
      from_rdata (Name [''k'']) 300 RT_KEY (RD_KEY \<lparr>zone_key = False, secure_entry_point = False, revoke = False,
        dk_algorithm = RSASHA256, public_key = [3, 1, 0, 1, 9]\<rparr>)])\<lparr>a_journal := Some \<lparr>j_conn = ([], Some 1), j_version = 1\<rparr>\<rparr>"

definition restart_message :: "(message, dnssec_error) outcome" where
  "restart_message = message_sign toy_ssl (signer_new RSASHA256 (KP_RSA [9]) (Name [''k'']) 0 False True) 1000
     (message_new\<lparr>m_name_servers := [from_rdata (Name [''www'', ''example'']) 60 RT_A (RD_A (Ipv4 10 0 0 2))]\<rparr>)"

definition restart_run :: "message \<Rightarrow> (bool, response_code) outcome \<times> (bytes, list_db) authority" where
  "restart_run m = update toy_ssl list_sqlite 0 m (snd (persist_to_journal list_sqlite 0 restart_zone))"

lemma restart_run_ok:
  "case restart_message of
     Ok m \<Rightarrow>
       (case restart_run m of
          (Ok changed, c) \<Rightarrow>
            changed \<and> list_all (journaled (a_origin restart_zone) (a_class restart_zone)) (get_updates m) \<and>
            (case a_journal c of Some j \<Rightarrow> j_version j = current_version \<and> length (fst (j_conn j)) < 10 | None \<Rightarrow> False)
        | _ \<Rightarrow> False)
   | _ \<Rightarrow> False"
  by code_simp

lemma restart_zone_ok:
  "zone_inv restart_zone" "list_all (\<lambda>r. storable r \<and> rr_type r \<noteq> RT_AXFR) (zone_rows restart_zone)"
  "fst (persist_to_journal list_sqlite 0 restart_zone) = Ok ()"
  by code_simp+

theorem restart_recovers_zone_witness:
  "\<exists>m c jc e'. restart_message = Ok m \<and> restart_run m = (Ok True, c) \<and> a_journal c = Some jc \<and>
     recover_with_journal 10 toy_ssl list_sqlite 0 jc (authority_new (a_origin restart_zone) [] ZT_Master True False) = (Ok (), e') \<and>
     unserial (a_origin restart_zone) (zone_has e') = unserial (a_origin restart_zone) (zone_has c)"
proof -
  let ?b = "snd (persist_to_journal list_sqlite 0 restart_zone)"
  let ?e = "authority_new (a_origin restart_zone) [] ZT_Master True False :: (bytes, list_db) authority"
  obtain m where m: "restart_message = Ok m" using restart_run_ok by (auto split: outcome.split_asm)
  obtain r c where rc: "restart_run m = (r, c)" by fastforce
  obtain jc where run: "restart_message = Ok m" "restart_run m = (Ok True, c)" "a_journal c = Some jc"
      "list_all (journaled (a_origin restart_zone) (a_class restart_zone)) (get_updates m)"
      "j_version jc = current_version" "length (fst (j_conn jc)) < 10"
    using restart_run_ok [unfolded m outcome.case] m rc by (cases r; cases "a_journal c") simp_all
  have persist: "persist_to_journal list_sqlite 0 restart_zone = (Ok (), ?b)"
    using restart_zone_ok(3) by (simp add: prod_eq_iff)
  have zone: "\<not> is_dnssec_enabled restart_zone" "a_class restart_zone = CL_IN"
      "a_journal restart_zone = Some \<lparr>j_conn = ([], Some 1), j_version = 1\<rparr>"
    by (simp_all add: restart_zone_def zone_of_records_def authority_new_def)
  have "a_origin ?b = a_origin restart_zone" "a_class ?b = a_class restart_zone"
    by (simp_all add: persist_to_journal_def split: option.splits outcome.splits prod.splits)
  with run(2,4) have "serves toy_ssl list_sqlite ?b c"
    by (intro serves.accepted [OF serves.start, where m = m and now = 0 and changed = True]) (simp_all add: restart_run_def)
  moreover have "journal_holds fst \<lparr>j_conn = ([], Some 1) :: list_db, j_version = 1\<rparr> []"
    by (simp add: journal_holds_def current_version_def rows_numbered_def)
  moreover have "int (length (fst (j_conn jc))) \<le> max_rowid" using run(6) by (simp add: max_rowid_def)
  ultimately obtain e' where "recover_with_journal 10 toy_ssl list_sqlite 0 jc ?e = (Ok (), e')"
      "unserial (a_origin restart_zone) (zone_has e') = unserial (a_origin restart_zone) (zone_has c)"
    using restart_recovers_zone [OF list_sqlite_laws restart_zone_ok(1) zone(1,3) _ restart_zone_ok(2) persist _ run(3) refl run(5,6) _ refl zone(2),
        where now' = 0 and zt = ZT_Master and allow = True and ssl = toy_ssl] list_sqlite_in_order by blast
  with run(1-3) show ?thesis by blast
qed

end
