(* ===== verification/Catalog.thy ===== *)
theory Catalog
  imports Zone_Recovery
begin

text \<open>
  The catalog of a server (\<open>authority/catalog.rs\<close>): its zones under their names, the search for the
  zone of a name, and the handling of queries and updates. A zone sits behind a lock that a panic
  while it is held for writing leaves poisoned; the map of zones is a list with names equal up to
  case as keys.
\<close>

section \<open>State\<close>

record 'a rw_lock =
  poisoned :: bool
  guarded :: 'a

definition lock_new :: "'a \<Rightarrow> 'a rw_lock" where
  "lock_new x = \<lparr>poisoned = False, guarded = x\<rparr>"

record ('p, 'd) catalog =
  authorities :: "(name \<times> ('p, 'd) authority rw_lock) list"

fun hm_get :: "name \<Rightarrow> (name \<times> 'v) list \<Rightarrow> 'v option" where
  "hm_get n [] = None"
| "hm_get n ((k, v) # m) = (if name_eq n k then Some v else hm_get n m)"

fun hm_put :: "name \<Rightarrow> 'v \<Rightarrow> (name \<times> 'v) list \<Rightarrow> (name \<times> 'v) list" where
  "hm_put n v [] = [(n, v)]"
| "hm_put n v ((k, w) # m) = (if name_eq n k then (k, v) # m else (k, w) # hm_put n v m)"

definition catalog_new :: "('p, 'd) catalog" where
  "catalog_new = \<lparr>authorities = []\<rparr>"

definition catalog_upsert :: "name \<Rightarrow> ('p, 'd) authority \<Rightarrow> ('p, 'd) catalog \<Rightarrow> ('p, 'd) catalog" where
  "catalog_upsert name a c = c\<lparr>authorities := hm_put name (lock_new a) (authorities c)\<rparr>"

lemma base_name_less: "\<not> is_root (base_name n) \<Longrightarrow> length (labels (base_name n)) < length (labels n)"
  by (auto simp: base_name_def is_root_def trim_to_def name_root_def name_new_def Let_def split: if_splits)

text \<open>The search gives the name it stopped at and what is stored there.\<close>

function find_auth_recurse :: "name \<Rightarrow> ('p, 'd) catalog \<Rightarrow> (name \<times> ('p, 'd) authority rw_lock) option" where
  "find_auth_recurse name c =
     (case hm_get name (authorities c) of
        Some l \<Rightarrow> Some (name, l)
      | None \<Rightarrow>
          let name' = base_name name in
          if \<not> is_root name' then find_auth_recurse name' c else None)"
  by pat_completeness auto

termination
  by (relation "measure (\<lambda>(n, _). length (labels n))") (auto simp: base_name_less)

declare find_auth_recurse.simps [simp del]

section \<open>Updates\<close>

definition update_response :: "message \<Rightarrow> message" where
  "update_response request =
     message_new\<lparr>m_header := header_new\<lparr>h_id := h_id (m_header request), h_op_code := OP_Update,
       h_message_type := MT_Response\<rparr>\<rparr>"

definition catalog_update :: "'p ssl \<Rightarrow> 'd sqlite \<Rightarrow> int \<Rightarrow> message \<Rightarrow> (('p, 'd) catalog, message, unit) step" where
  "catalog_update ssl sql now request c =
     (let response = update_response request;
          zones = get_zones request;
          reply = (\<lambda>rc. Ok (message_response_code rc response))
      in if length zones \<noteq> 1 \<or> q_type (zones ! 0) \<noteq> RT_SOA then (reply FormErr, c)
         else
           (case find_auth_recurse (q_name (zones ! 0)) c of
              None \<Rightarrow> (reply NXDomain, c)
            | Some (name, l) \<Rightarrow>
                if poisoned l then (Panic, c)
                else
                  (case a_zone_type (guarded l) of
                     ZT_Slave \<Rightarrow> (reply NotImp, c)
                   | ZT_Master \<Rightarrow>
                       (case update ssl sql now request (guarded l) of
                          (r, a') \<Rightarrow>
                            let put = (\<lambda>p. c\<lparr>authorities := hm_put name \<lparr>poisoned = p, guarded = a'\<rparr> (authorities c)\<rparr>)
                            in (case r of
                                  Ok _ \<Rightarrow> (reply NoError, put False)
                                | Err rc \<Rightarrow> (reply rc, put False)
                                | Panic \<Rightarrow> (Panic, put True)
                                | Overrun \<Rightarrow> (Overrun, put True)))
                   | _ \<Rightarrow> (reply NotAuth, c))))"

section \<open>Queries\<close>

definition dnssec_wanted :: "message \<Rightarrow> bool \<times> supported_algorithms" where
  "dnssec_wanted request =
     (case m_edns request of
        None \<Rightarrow> (False, sa_new)
      | Some e \<Rightarrow>
          (dnssec_ok e,
           case opt_get (edns_options e) EC_DAU of Some (EO_DAU algs) \<Rightarrow> algs | _ \<Rightarrow> sa_default))"

definition answer_query :: "bool \<Rightarrow> supported_algorithms \<Rightarrow> query \<Rightarrow> ('p, 'd) authority \<Rightarrow> message \<Rightarrow> message" where
  "answer_query is_dnssec algs q a response =
     (let records = search q is_dnssec algs a in
      if records \<noteq> [] then
        let response = message_response_code NoError response;
            response = response\<lparr>m_header := (m_header response)\<lparr>authoritative := True\<rparr>\<rparr>;
            response = add_answers records response;
            ns = get_ns is_dnssec algs a
        in if ns = [] then response else add_name_servers ns response
      else
        let response = (if is_dnssec then add_name_servers (get_nsec_records (q_name q) is_dnssec algs a) response
                        else response);
            response = message_response_code NXDomain response;
            soa = get_soa_secure is_dnssec algs a
        in if soa = [] then response else add_name_servers soa response)"

fun lookup_queries :: "bool \<Rightarrow> supported_algorithms \<Rightarrow> query list \<Rightarrow> ('p, 'd) catalog \<Rightarrow> message \<Rightarrow> (message, unit) outcome" where
  "lookup_queries is_dnssec algs [] c response = Ok response"
| "lookup_queries is_dnssec algs (q # qs) c response =
     (case find_auth_recurse (q_name q) c of
        Some (_, l) \<Rightarrow>
          if poisoned l then Panic
          else lookup_queries is_dnssec algs qs c (answer_query is_dnssec algs q (guarded l) response)
      | None \<Rightarrow> lookup_queries is_dnssec algs qs c (message_response_code NXDomain response))"

definition lookup_response :: "message \<Rightarrow> message" where
  "lookup_response request =
     add_queries (m_queries request)
       (message_new\<lparr>m_header := header_new\<lparr>h_id := h_id (m_header request), h_op_code := OP_Query,
          h_message_type := MT_Response\<rparr>\<rparr>)"

definition catalog_lookup :: "message \<Rightarrow> ('p, 'd) catalog \<Rightarrow> (message, unit) outcome" where
  "catalog_lookup request c =
     (let (is_dnssec, algs) = dnssec_wanted request in
      lookup_queries is_dnssec algs (m_queries request) c (lookup_response request))"

section \<open>Requests\<close>

definition our_algorithms :: supported_algorithms where
  "our_algorithms = sa_set ED25519 (sa_set ECDSAP384SHA384 (sa_set ECDSAP256SHA256 (sa_set RSASHA256 sa_new)))"

definition response_edns :: "edns \<Rightarrow> edns" where
  "response_edns req =
     edns_new\<lparr>dnssec_ok := True, max_payload := (if max_payload req < 512 then 512 else max_payload req), edns_version := 0\<rparr>"

definition finish_edns :: "edns \<Rightarrow> edns" where
  "finish_edns e = set_option (EO_DHU our_algorithms) (set_option (EO_DAU our_algorithms) e)"

definition dispatch :: "'p ssl \<Rightarrow> 'd sqlite \<Rightarrow> int \<Rightarrow> message \<Rightarrow> message \<Rightarrow> (('p, 'd) catalog, message, unit) step" where
  "dispatch ssl sql now request not_imp c =
     (case h_message_type (m_header request) of
        MT_Query \<Rightarrow>
          (case h_op_code (m_header request) of
             OP_Query \<Rightarrow> (catalog_lookup request c, c)
           | OP_Update \<Rightarrow> catalog_update ssl sql now request c
           | _ \<Rightarrow> (Ok not_imp, c))
      | MT_Response \<Rightarrow> (Ok not_imp, c))"

definition handle_request :: "'p ssl \<Rightarrow> 'd sqlite \<Rightarrow> int \<Rightarrow> message \<Rightarrow> (('p, 'd) catalog, message, unit) step" where
  "handle_request ssl sql now request c =
     (let h = m_header request;
          not_imp = error_msg (h_id h) (h_op_code h) NotImp
      in case m_edns request of
           Some req_edns \<Rightarrow>
             let resp_edns = response_edns req_edns in
             if edns_version req_edns > 0
             then (Ok (set_edns resp_edns (message_response_code BADVERS
                     (message_new\<lparr>m_header := header_new\<lparr>h_id := h_id h\<rparr>\<rparr>))), c)
             else st_bind (dispatch ssl sql now request not_imp) (\<lambda>response.
                  st_return (set_edns (finish_edns resp_edns) response)) c
         | None \<Rightarrow> dispatch ssl sql now request not_imp c)"

section \<open>Finding the zone of a name\<close>

text \<open>Reference: the names from the full name down to its last label, nearest first.\<close>

definition enclosing :: "name \<Rightarrow> name list" where
  "enclosing n = n # map (\<lambda>k. Name (drop k (labels n))) [1..<length (labels n)]"

lemma base_name_labels: "labels (base_name n) = tl (labels n)"
  by (simp add: base_name_def trim_to_def name_root_def name_new_def Let_def drop_Suc [symmetric] tl_drop)
    (cases "labels n"; simp)

lemma enclosing_step:
  "enclosing n = n # (if is_root (base_name n) then [] else enclosing (base_name n))"
proof (cases "labels n")
  case Nil
  then show ?thesis by (simp add: enclosing_def is_root_def base_name_labels)
next
  case (Cons l ls)
  have base: "base_name n = Name ls" using base_name_labels [of n] Cons by (cases "base_name n") simp
  have "map (\<lambda>k. Name (drop k (l # ls))) [1..<Suc (length ls)] = map (\<lambda>k. Name (drop k ls)) [0..<length ls]"
    by (simp add: map_Suc_upt [symmetric] o_def del: upt_Suc)
  then show ?thesis
    using Cons by (cases ls) (simp_all add: enclosing_def is_root_def base upt_conv_Cons del: upt_Suc)
qed

text \<open>
  C21. The search through the catalog finds the closest enclosing zone: it is the first of the name and
  its ancestors that the catalog holds, up to case. The root is no ancestor here: a zone for the root
  answers only for the root itself.
\<close>
theorem find_auth_recurse_closest:
  "find_auth_recurse name c =
     (case find (\<lambda>n. hm_get n (authorities c) \<noteq> None) (enclosing name) of
        None \<Rightarrow> None
      | Some n \<Rightarrow> Some (n, the (hm_get n (authorities c))))"
proof (induction name c rule: find_auth_recurse.induct)
  case (1 name c)
  show ?case
  proof (cases "hm_get name (authorities c)")
    case None
    with 1 show ?thesis
      by (subst find_auth_recurse.simps, subst enclosing_step) (simp add: Let_def)
  next
    case (Some l)
    then show ?thesis by (subst find_auth_recurse.simps, subst enclosing_step) simp
  qed
qed

section \<open>What a request changes\<close>

lemma hm_get_put: "hm_get n (hm_put m v xs) = (if name_eq n m then Some v else hm_get n xs)"
proof (induction xs)
  case (Cons x xs)
  obtain k w where x: "x = (k, w)" by (cases x)
  show ?case using Cons x by (auto simp: name_eq_iff)
qed auto

lemma find_auth_recurse_get: "find_auth_recurse name c = Some (n, l) \<Longrightarrow> hm_get n (authorities c) = Some l"
proof (induction name c rule: find_auth_recurse.induct)
  case (1 name c)
  then show ?case
    by (subst (asm) (2) find_auth_recurse.simps) (auto simp: Let_def split: option.splits if_splits)
qed

lemma catalog_update_change:
  assumes "catalog_update ssl sql now request c = (r, c')" "c' \<noteq> c"
  obtains name l a' where "find_auth_recurse (q_name (hd (m_queries request))) c = Some (name, l)" "\<not> poisoned l"
    "a_zone_type (guarded l) = ZT_Master" "snd (update ssl sql now request (guarded l)) = a'"
    "c' = c\<lparr>authorities := hm_put name \<lparr>poisoned = (\<not> is_ok r), guarded = a'\<rparr> (authorities c)\<rparr>"
  using assms
  by (cases "update ssl sql now request (guarded (snd (the (find_auth_recurse (q_name (m_queries request ! 0)) c))))")
    (auto simp: catalog_update_def Let_def get_zones_def hd_conv_nth length_Suc_conv
      split: if_splits option.splits zone_type.splits outcome.splits)

lemma handle_request_change:
  assumes "handle_request ssl sql now request c = (r, c')" "c' \<noteq> c"
  obtains r' where "h_message_type (m_header request) = MT_Query" "h_op_code (m_header request) = OP_Update"
    "catalog_update ssl sql now request c = (r', c')" "is_ok r' = is_ok r"
proof -
  obtain r' where d: "dispatch ssl sql now request (error_msg (h_id (m_header request)) (h_op_code (m_header request)) NotImp) c
      = (r', c')" "is_ok r' = is_ok r"
    using assms
    by (auto simp: handle_request_def Let_def st_bind.simps split: option.splits if_splits outcome.splits prod.splits)
  with assms(2) show thesis
    by (intro that [of r']) (auto simp: dispatch_def split: message_type.splits op_code.splits)
qed

text \<open>
  C19. Handling a request changes at most one zone: the closest enclosing zone of an update request, a
  master zone. That zone changes only through an authorised update, every other zone stays as it is,
  and the lock of the zone is left poisoned exactly if the request panicked.
\<close>
theorem handle_request_confined:
  assumes "handle_request ssl sql now request c = (r, c')" "c' \<noteq> c"
  shows "\<exists>name l a'. find_auth_recurse (q_name (hd (m_queries request))) c = Some (name, l) \<and>
    h_op_code (m_header request) = OP_Update \<and> a_zone_type (guarded l) = ZT_Master \<and>
    hm_get name (authorities c') = Some \<lparr>poisoned = (\<not> is_ok r), guarded = a'\<rparr> \<and>
    (\<forall>n. \<not> name_eq n name \<longrightarrow> hm_get n (authorities c') = hm_get n (authorities c)) \<and>
    (a' \<noteq> guarded l \<longrightarrow> allow_update (guarded l) \<and> signed_by_zone_key ssl request (guarded l))"
proof (rule handle_request_change [OF assms])
  fix r'
  assume up: "h_op_code (m_header request) = OP_Update" "catalog_update ssl sql now request c = (r', c')" "is_ok r' = is_ok r"
  show ?thesis
  proof (rule catalog_update_change [OF up(2) assms(2)])
    fix name l a'
    assume c': "find_auth_recurse (q_name (hd (m_queries request))) c = Some (name, l)"
      "a_zone_type (guarded l) = ZT_Master" "snd (update ssl sql now request (guarded l)) = a'"
      "c' = c\<lparr>authorities := hm_put name \<lparr>poisoned = (\<not> is_ok r'), guarded = a'\<rparr> (authorities c)\<rparr>"
    have "a' \<noteq> guarded l \<Longrightarrow> allow_update (guarded l) \<and> signed_by_zone_key ssl request (guarded l)"
      using update_checks [of ssl sql now request "guarded l" "fst (update ssl sql now request (guarded l))" a'] c'(3)
      by (auto simp: prod_eq_iff)
    with c' up show ?thesis by (intro exI [of _ name] exI [of _ l] exI [of _ a']) (auto simp: hm_get_put)
  qed
qed

section \<open>Answers\<close>

lemma fold_add [simp]:
  "add_answers rs m = m\<lparr>m_answers := m_answers m @ rs\<rparr>"
  "add_name_servers rs m = m\<lparr>m_name_servers := m_name_servers m @ rs\<rparr>"
  "add_queries qs m = m\<lparr>m_queries := m_queries m @ qs\<rparr>"
proof -
  show "add_answers rs m = m\<lparr>m_answers := m_answers m @ rs\<rparr>"
    unfolding add_answers_def by (induction rs arbitrary: m) (simp_all add: add_answer_def)
  show "add_name_servers rs m = m\<lparr>m_name_servers := m_name_servers m @ rs\<rparr>"
    unfolding add_name_servers_def by (induction rs arbitrary: m) (simp_all add: add_name_server_def)
  show "add_queries qs m = m\<lparr>m_queries := m_queries m @ qs\<rparr>"
    unfolding add_queries_def by (induction qs arbitrary: m) (simp_all add: add_query_def)
qed

text \<open>
  Reference for the answers, over the rows of a zone: a transfer is every row but the SOA records between two
  copies of the SOA record of the origin, and is given by a master or slave zone only; ANY is every
  row of the name; SOA is the SOA record of the origin, whatever the name; any other type is the rows
  of the name with that type.
\<close>

definition apex_rows :: "record_type \<Rightarrow> ('p, 'd) authority \<Rightarrow> resource list" where
  "apex_rows t a = filter (same_key (a_origin a) t) (zone_rows a)"

definition zone_answer :: "query \<Rightarrow> ('p, 'd) authority \<Rightarrow> resource list" where
  "zone_answer q a =
     (case q_type q of
        RT_AXFR \<Rightarrow>
          if a_zone_type a \<in> {ZT_Master, ZT_Slave}
          then concat (map (\<lambda>soa. soa # filter (\<lambda>r. rr_type r \<noteq> RT_SOA) (zone_rows a) @ [soa]) (apex_rows RT_SOA a))
          else []
      | RT_ANY \<Rightarrow> filter (\<lambda>r. name_eq (q_name q) (rr_name r)) (zone_rows a)
      | RT_SOA \<Rightarrow> apex_rows RT_SOA a
      | t \<Rightarrow> filter (same_key (q_name q) t) (zone_rows a))"

lemma lookup_all_rows:
  assumes "zone_inv a"
  shows "lookup n RT_ANY False algs a = filter (\<lambda>r. name_eq n (rr_name r)) (zone_rows a)"
    "lookup n RT_AXFR False algs a = filter (\<lambda>r. rr_type r \<noteq> RT_SOA) (zone_rows a)"
proof -
  have cat: "concat (map rs_records (filter Q (map snd (a_records a)))) = filter P (zone_rows a)"
    if "\<And>k s r. (k, s) \<in> set (a_records a) \<Longrightarrow> r \<in> set (rs_records s) \<Longrightarrow> P r \<longleftrightarrow> Q s" for P Q
  proof -
    have "filter P (rs_records s) = (if Q s then rs_records s else [])" if "(k, s) \<in> set (a_records a)" for k s
      using \<open>\<And>k s r. (k, s) \<in> set (a_records a) \<Longrightarrow> r \<in> set (rs_records s) \<Longrightarrow> P r \<longleftrightarrow> Q s\<close> [OF that]
      by (intro filter_alike)
    then have "map (filter P) (map (rs_records \<circ> snd) (a_records a)) = map (\<lambda>s. if Q s then rs_records s else []) (map snd (a_records a))"
      by auto
    then have "concat (map (filter P) (map (rs_records \<circ> snd) (a_records a))) =
        concat (map (\<lambda>s. if Q s then rs_records s else []) (map snd (a_records a)))" by (simp only:)
    moreover have "concat (map rs_records (filter Q ss)) = concat (map (\<lambda>s. if Q s then rs_records s else []) ss)" for ss
      by (induction ss) auto
    ultimately show ?thesis unfolding zone_rows_def filter_concat by (simp only:)
  qed
  have owner: "name_eq (rr_name r) (rs_name s)" "rr_type r = rs_type s"
    if "(k, s) \<in> set (a_records a)" "r \<in> set (rs_records s)" for k s r
    using zone_rows_key(4) [OF assms that] that(2) by (auto simp: rr_set_inv_def list_all_iff same_owner_def name_eq_iff)
  have plain: "get_records False algs = rs_records" by (simp add: fun_eq_iff)
  have "concat (map rs_records (filter (\<lambda>s. name_eq (rs_name s) n) (map snd (a_records a)))) =
      filter (\<lambda>r. name_eq n (rr_name r)) (zone_rows a)"
    by (rule cat) (use owner(1) in \<open>auto simp: name_eq_iff\<close>)
  then show "lookup n RT_ANY False algs a = filter (\<lambda>r. name_eq n (rr_name r)) (zone_rows a)" by (simp add: lookup_def plain)
  have "concat (map rs_records (filter (\<lambda>s. rs_type s \<noteq> RT_SOA) (map snd (a_records a)))) =
      filter (\<lambda>r. rr_type r \<noteq> RT_SOA) (zone_rows a)"
    by (rule cat) (use owner(2) in auto)
  then show "lookup n RT_AXFR False algs a = filter (\<lambda>r. rr_type r \<noteq> RT_SOA) (zone_rows a)" by (simp add: lookup_def plain)
qed

lemma apex_soa: "zone_inv a \<Longrightarrow> apex_rows RT_SOA a = (case get_soa a of None \<Rightarrow> [] | Some soa \<Rightarrow> [soa])"
  by (cases rule: zone_get_soa [where n = "a_origin a"]) (auto simp: get_soa_zone apex_rows_def zone_get_rows [symmetric])

lemma search_rows:
  assumes "zone_inv a"
  shows "search q False algs a = zone_answer q a"
proof -
  note rows = lookup_all_rows [OF assms] lookup_single
  have "zone_get a n t = filter (same_key n t) (zone_rows a)" for n t by (rule zone_get_rows [OF assms])
  then have soa: "zone_get a (a_origin a) RT_SOA = apex_rows RT_SOA a" by (simp add: apex_rows_def)
  show ?thesis
  proof (cases "q_type q \<in> {RT_ANY, RT_AXFR, RT_SOA}")
    case True
    then show ?thesis
      by (auto simp: search_def zone_answer_def rows soa apex_soa [OF assms] split: option.splits)
  next
    case False
    then show ?thesis
      by (cases "q_type q") (simp_all add: search_def zone_answer_def rows zone_get_rows [OF assms])
  qed
qed

text \<open>
  C20. A query for one name is answered from its closest enclosing zone: the answer section is the rows of
  the zone the question asks for, with the NS records of the zone as authority; the answer is
  authoritative. If there are none the response is NXDOMAIN with the SOA record of the zone, also where
  the name exists with other types, and without any record where no zone encloses the name. The
  response repeats the question and the id, and no zone changes. (The request has one question and
  does not ask for DNSSEC records; its EDNS record, if any, has version 0.)
\<close>
theorem query_answered:
  assumes "h_message_type (m_header request) = MT_Query" "h_op_code (m_header request) = OP_Query"
    "\<forall>e. m_edns request = Some e \<longrightarrow> edns_version e = 0 \<and> \<not> dnssec_ok e" "m_queries request = [q]"
    "\<forall>n l. find_auth_recurse (q_name q) c = Some (n, l) \<longrightarrow> \<not> poisoned l \<and> zone_inv (guarded l)"
  shows "\<exists>m. handle_request ssl sql now request c = (Ok m, c) \<and> m_queries m = [q] \<and>
    h_id (m_header m) = h_id (m_header request) \<and> h_message_type (m_header m) = MT_Response \<and> m_additionals m = [] \<and>
    (case find_auth_recurse (q_name q) c of
       None \<Rightarrow> m_answers m = [] \<and> m_name_servers m = [] \<and> h_response_code (m_header m) = 3
     | Some (n, l) \<Rightarrow> m_answers m = zone_answer q (guarded l) \<and>
        (if m_answers m = []
         then h_response_code (m_header m) = 3 \<and> m_name_servers m = apex_rows RT_SOA (guarded l)
         else h_response_code (m_header m) = 0 \<and> authoritative (m_header m) \<and> m_name_servers m = apex_rows RT_NS (guarded l)))"
proof -
  have apex: "get_soa_secure False algs a = apex_rows RT_SOA a" "get_ns False algs a = apex_rows RT_NS a"
    if "zone_inv a" for algs and a :: "('a, 'b) authority"
    by (simp_all add: get_soa_secure_def get_ns_def lookup_single apex_rows_def zone_get_rows [OF that])
  obtain algs where "dnssec_wanted request = (False, algs)"
    using assms(3) by (cases "m_edns request") (auto simp: dnssec_wanted_def)
  moreover have "rcode_low NXDomain = 3" "rcode_low NoError = 0" by code_simp+
  ultimately obtain m where m: "catalog_lookup request c = Ok m" "m_queries m = [q]"
    "h_id (m_header m) = h_id (m_header request)" "h_message_type (m_header m) = MT_Response" "m_additionals m = []"
    "case find_auth_recurse (q_name q) c of
       None \<Rightarrow> m_answers m = [] \<and> m_name_servers m = [] \<and> h_response_code (m_header m) = 3
     | Some (n, l) \<Rightarrow> m_answers m = zone_answer q (guarded l) \<and>
        (if m_answers m = []
         then h_response_code (m_header m) = 3 \<and> m_name_servers m = apex_rows RT_SOA (guarded l)
         else h_response_code (m_header m) = 0 \<and> authoritative (m_header m) \<and> m_name_servers m = apex_rows RT_NS (guarded l))"
    using assms(4,5)
    by (cases "find_auth_recurse (q_name q) c") (auto simp: catalog_lookup_def lookup_response_def answer_query_def Let_def search_rows apex
      message_response_code_def header_response_code_def message_new_def header_new_def)
  have "handle_request ssl sql now request c = (Ok m, c) \<or> (\<exists>e. handle_request ssl sql now request c = (Ok (m\<lparr>m_edns := e\<rparr>), c))"
    using assms(1-3) m(1) by (cases "m_edns request") (auto simp: handle_request_def dispatch_def Let_def st_bind.simps set_edns_def)
  then show ?thesis
  proof (elim disjE exE)
    fix e assume "handle_request ssl sql now request c = (Ok (m\<lparr>m_edns := e\<rparr>), c)"
    with m show ?thesis by (intro exI [of _ "m\<lparr>m_edns := e\<rparr>"]) (auto split: option.splits)
  qed (use m in \<open>intro exI [of _ m] conjI\<close>)
qed

definition keyed_catalog :: "(bytes, list_db) catalog" where
  "keyed_catalog = catalog_upsert (Name [''example''])
     (zone_of_records (Name [''example''])
       [sample_soa, from_rdata (Name [''ns'', ''example'']) 300 RT_A (RD_A (Ipv4 10 0 0 1)),
        from_rdata (Name [''k'']) 300 RT_KEY (RD_KEY \<lparr>zone_key = False, secure_entry_point = False, revoke = False,
          dk_algorithm = RSASHA256, public_key = [3, 1, 0, 1, 9]\<rparr>)]) catalog_new"

definition update_request :: message where
  "update_request =
     message_new\<lparr>m_header := header_new\<lparr>h_op_code := OP_Update\<rparr>,
       m_queries := [query_new\<lparr>q_name := Name [''EXAMPLE''], q_type := RT_SOA\<rparr>],
       m_name_servers := [from_rdata (Name [''w'', ''example'']) 60 RT_A (RD_A (Ipv4 10 0 0 2))]\<rparr>"

lemma keyed_catalog_update:
  "\<exists>m r c'. handle_request toy_ssl list_sqlite 0 m keyed_catalog = (r, c') \<and> is_ok r \<and> c' \<noteq> keyed_catalog"
proof -
  let ?m = "message_sign toy_ssl (signer_new RSASHA256 (KP_RSA [9]) (Name [''k'']) 0 False True) 1000 update_request"
  let ?len = "\<lambda>c. map (\<lambda>e. length (a_records (guarded (snd e)))) (authorities c)"
  have "case ?m of Ok m \<Rightarrow> (case handle_request toy_ssl list_sqlite 0 m keyed_catalog of (r, c') \<Rightarrow>
      is_ok r \<and> ?len c' \<noteq> ?len keyed_catalog) | _ \<Rightarrow> False"
    by code_simp
  then show ?thesis by (auto split: outcome.splits prod.splits)
qed

theorem handle_request_confined_witness:
  "\<exists>m r c'. handle_request toy_ssl list_sqlite 0 m keyed_catalog = (r, c') \<and> c' \<noteq> keyed_catalog \<and>
     h_op_code (m_header m) = OP_Update"
  using keyed_catalog_update handle_request_confined [of toy_ssl list_sqlite 0 _ keyed_catalog] by blast

definition name_query :: "name \<Rightarrow> record_type \<Rightarrow> message" where
  "name_query n t = message_new\<lparr>m_queries := [query_new\<lparr>q_name := n, q_type := t\<rparr>]\<rparr>"

theorem query_answered_witness:
  "\<exists>m. handle_request toy_ssl list_sqlite 0 (name_query (Name [''ns'', ''example'']) RT_AAAA) keyed_catalog
     = (Ok m, keyed_catalog) \<and> m_answers m = [] \<and> m_name_servers m = [sample_soa] \<and>
     (\<exists>m'. handle_request toy_ssl list_sqlite 0 (name_query (Name [''NS'', ''example'']) RT_A) keyed_catalog
       = (Ok m', keyed_catalog) \<and> m_answers m' = [from_rdata (Name [''ns'', ''example'']) 300 RT_A (RD_A (Ipv4 10 0 0 1))])"
proof -
  let ?q = "\<lambda>n t. query_new\<lparr>q_name := Name [n, ''example''], q_type := t\<rparr>"
  let ?ok = "\<lambda>q. case find_auth_recurse (q_name q) keyed_catalog of Some (_, l) \<Rightarrow> \<not> poisoned l \<and> zone_inv (guarded l) | None \<Rightarrow> False"
  have "?ok (?q ''ns'' RT_AAAA)" "?ok (?q ''NS'' RT_A)" by code_simp+
  then obtain k l k' l' where l: "find_auth_recurse (Name [''ns'', ''example'']) keyed_catalog = Some (k, l)" "\<not> poisoned l" "zone_inv (guarded l)"
      and l': "find_auth_recurse (Name [''NS'', ''example'']) keyed_catalog = Some (k', l')" "\<not> poisoned l'" "zone_inv (guarded l')"
    by (auto split: option.splits)
  have "case find_auth_recurse (Name [''ns'', ''example'']) keyed_catalog of Some (_, l) \<Rightarrow>
      zone_answer (?q ''ns'' RT_AAAA) (guarded l) = [] \<and> apex_rows RT_SOA (guarded l) = [sample_soa] | None \<Rightarrow> False"
    and "case find_auth_recurse (Name [''NS'', ''example'']) keyed_catalog of Some (_, l) \<Rightarrow>
      zone_answer (?q ''NS'' RT_A) (guarded l) = [from_rdata (Name [''ns'', ''example'']) 300 RT_A (RD_A (Ipv4 10 0 0 1))] | None \<Rightarrow> False"
    by code_simp+
  with l l' query_answered [of "name_query (Name [''ns'', ''example'']) RT_AAAA" "?q ''ns'' RT_AAAA" keyed_catalog toy_ssl list_sqlite 0]
    query_answered [of "name_query (Name [''NS'', ''example'']) RT_A" "?q ''NS'' RT_A" keyed_catalog toy_ssl list_sqlite 0]
  show ?thesis by (fastforce simp: name_query_def message_new_def header_new_def)
qed

section \<open>Replies\<close>

definition replies_to :: "message \<Rightarrow> message \<Rightarrow> bool" where
  "replies_to request m \<longleftrightarrow> h_id (m_header m) = h_id (m_header request) \<and> m_edns m = None"

lemma replies_to_answer:
  "replies_to request (message_response_code rc m) = replies_to request m"
  "replies_to request (answer_query is_dnssec algs q a m) = replies_to request m"
  by (simp_all add: replies_to_def message_response_code_def header_response_code_def answer_query_def Let_def)

lemma lookup_queries_replies:
  "lookup_queries is_dnssec algs qs c m = Ok m' \<Longrightarrow> replies_to request m \<Longrightarrow> replies_to request m'"
  by (induction qs arbitrary: m) (auto simp: replies_to_answer split: option.splits if_splits)

lemma dispatch_replies:
  assumes "dispatch ssl sql now request (error_msg (h_id (m_header request)) (h_op_code (m_header request)) NotImp) c = (Ok m, c')"
  shows "replies_to request m"
proof -
  have fresh: "replies_to request (error_msg (h_id (m_header request)) (h_op_code (m_header request)) NotImp)"
      "replies_to request (update_response request)" "replies_to request (lookup_response request)"
    by (simp_all add: replies_to_def error_msg_def update_response_def lookup_response_def message_new_def header_response_code_def)
  have "replies_to request m" if "catalog_update ssl sql now request c = (Ok m, c')"
    using that fresh(2)
    by (auto simp: catalog_update_def Let_def replies_to_answer
      split: if_splits option.splits zone_type.splits outcome.splits prod.splits)
  moreover have "replies_to request m" if "catalog_lookup request c = Ok m"
    using that lookup_queries_replies [OF _ fresh(3)] by (auto simp: catalog_lookup_def split: prod.splits)
  ultimately show ?thesis
    using assms fresh(1) by (auto simp: dispatch_def split: message_type.splits op_code.splits)
qed

text \<open>
  C38. Whatever a request holds, the reply carries its id; it has an EDNS record exactly if the request
  has one, with version 0 and a payload size of at least 512. A request of a later EDNS version is
  refused without touching a zone, but the reply is marked as a query and its header says NOERROR,
  since the high bits of BADVERS are never stored in the EDNS record.
\<close>
theorem reply_edns:
  assumes "handle_request ssl sql now request c = (Ok m, c')"
  shows "h_id (m_header m) = h_id (m_header request) \<and>
    (case m_edns request of
       None \<Rightarrow> m_edns m = None
     | Some e \<Rightarrow> \<exists>e'. m_edns m = Some e' \<and> edns_version e' = 0 \<and> max_payload e' = max 512 (max_payload e) \<and>
         (edns_version e > 0 \<longrightarrow> c' = c \<and> h_message_type (m_header m) = MT_Query \<and> get_response_code m = Ok NoError))"
proof -
  have "rcode_from 0 (rcode_low BADVERS) = Ok NoError" by code_simp
  with assms show ?thesis
    by (auto simp: handle_request_def get_response_code_def Let_def set_edns_def response_edns_def finish_edns_def set_option_def edns_new_def max_def
        message_response_code_def header_response_code_def header_new_def message_new_def replies_to_def st_return_def st_bind_Ok_iff
      dest!: dispatch_replies split: option.splits if_splits)
qed

theorem reply_edns_witness:
  "\<exists>m c'. handle_request toy_ssl list_sqlite 0 (set_edns (edns_new\<lparr>edns_version := 1, max_payload := 9\<rparr>) message_new) keyed_catalog
     = (Ok m, c') \<and> get_response_code m = Ok NoError"
proof -
  let ?r = "set_edns (edns_new\<lparr>edns_version := 1, max_payload := 9\<rparr>) message_new"
  have "is_ok (fst (handle_request toy_ssl list_sqlite 0 ?r keyed_catalog))" by code_simp
  then obtain m c' where "handle_request toy_ssl list_sqlite 0 ?r keyed_catalog = (Ok m, c')"
    by (cases "handle_request toy_ssl list_sqlite 0 ?r keyed_catalog") (auto simp: is_ok_iff)
  with reply_edns [OF this] show ?thesis by (auto simp: set_edns_def edns_new_def message_new_def)
qed

end
