(* ===== verification/Rdata_Text.thy ===== *)
theory Rdata_Text
  imports Rdata
begin

text \<open>
  Record data in master files: \<open>RData::parse\<close> of \<open>rr/record_data.rs\<close> and the \<open>parse\<close> functions of
  \<open>rr/rdata\<close>, with the parsers of the standard library they use for integers and addresses.
\<close>

section \<open>Integers\<close>

text \<open>\<open>from_str\<close> of the integer types: a sign where the type has one, decimal digits, no overflow.\<close>

fun parse_digits :: "int \<Rightarrow> string \<Rightarrow> int option" where
  "parse_digits acc [] = Some acc"
| "parse_digits acc (c # cs) =
     (case to_digit c of None \<Rightarrow> None | Some d \<Rightarrow> parse_digits (10 * acc + uint d) cs)"

definition parse_magnitude :: "string \<Rightarrow> int option" where
  "parse_magnitude s = (if s = [] then None else parse_digits 0 s)"

definition parse_unsigned :: "int \<Rightarrow> string \<Rightarrow> int option" where
  "parse_unsigned limit s =
     (let digits = (case s of c # cs \<Rightarrow> if c = CHR ''+'' then cs else s | [] \<Rightarrow> [])
      in case parse_magnitude digits of Some n \<Rightarrow> if n < limit then Some n else None | None \<Rightarrow> None)"

definition parse_signed :: "int \<Rightarrow> string \<Rightarrow> int option" where
  "parse_signed limit s =
     (case s of
        c # cs \<Rightarrow>
          if c = CHR ''-'' then
            (case parse_magnitude cs of Some n \<Rightarrow> if n \<le> limit then Some (- n) else None | None \<Rightarrow> None)
          else parse_unsigned limit s
      | [] \<Rightarrow> None)"

definition int_result :: "int option \<Rightarrow> (int, parse_error) outcome" where
  "int_result r = (case r of Some n \<Rightarrow> Ok n | None \<Rightarrow> Err PE_ParseInt)"

definition parse_u16 :: "string \<Rightarrow> (u16, parse_error) outcome" where
  "parse_u16 s = bind_outcome (int_result (parse_unsigned 65536 s)) (\<lambda>n. Ok (of_int n))"

definition parse_u32 :: "string \<Rightarrow> (u32, parse_error) outcome" where
  "parse_u32 s = bind_outcome (int_result (parse_unsigned 4294967296 s)) (\<lambda>n. Ok (of_int n))"

definition parse_i32 :: "string \<Rightarrow> (i32, parse_error) outcome" where
  "parse_i32 s = bind_outcome (int_result (parse_signed 2147483648 s)) (\<lambda>n. Ok (of_int n))"

section \<open>Addresses\<close>

text \<open>\<open>from_str\<close> of the address types: a number of at most so many digits below a limit, then the rest.\<close>

definition hex_digit :: "char \<Rightarrow> int option" where
  "hex_digit c =
     (let n = of_char c :: int in
      if 48 \<le> n \<and> n \<le> 57 then Some (n - 48)
      else if 97 \<le> n \<and> n \<le> 102 then Some (n - 87)
      else if 65 \<le> n \<and> n \<le> 70 then Some (n - 55)
      else None)"

definition radix_digit :: "int \<Rightarrow> char \<Rightarrow> int option" where
  "radix_digit radix c = (case hex_digit c of Some d \<Rightarrow> if d < radix then Some d else None | None \<Rightarrow> None)"

fun read_number :: "int \<Rightarrow> int \<Rightarrow> int \<Rightarrow> int \<Rightarrow> int \<Rightarrow> string \<Rightarrow> (int \<times> string) option" where
  "read_number radix max_digits limit r count [] = (if count = 0 then None else Some (r, []))"
| "read_number radix max_digits limit r count (c # cs) =
     (case radix_digit radix c of
        None \<Rightarrow> if count = 0 then None else Some (r, c # cs)
      | Some d \<Rightarrow>
          let r' = r * radix + d in
          if count + 1 > max_digits \<or> r' \<ge> limit then None
          else read_number radix max_digits limit r' (count + 1) cs)"

definition read_given_char :: "char \<Rightarrow> string \<Rightarrow> string option" where
  "read_given_char c s = (case s of [] \<Rightarrow> None | c' # cs \<Rightarrow> if c' = c then Some cs else None)"

definition read_octet :: "bool \<Rightarrow> string \<Rightarrow> (int \<times> string) option" where
  "read_octet first s =
     (case if first then Some s else read_given_char CHR ''.'' s of
        None \<Rightarrow> None
      | Some s \<Rightarrow> read_number 10 3 256 0 0 s)"

definition read_ipv4_addr :: "string \<Rightarrow> (ipv4_addr \<times> string) option" where
  "read_ipv4_addr s =
     (case read_octet True s of None \<Rightarrow> None | Some (a, s) \<Rightarrow>
     (case read_octet False s of None \<Rightarrow> None | Some (b, s) \<Rightarrow>
     (case read_octet False s of None \<Rightarrow> None | Some (c, s) \<Rightarrow>
     (case read_octet False s of None \<Rightarrow> None | Some (d, s) \<Rightarrow>
        Some (Ipv4 (of_int a) (of_int b) (of_int c) (of_int d), s)))))"

definition ipv4_from_str :: "string \<Rightarrow> ipv4_addr option" where
  "ipv4_from_str s = (case read_ipv4_addr s of Some (a, []) \<Rightarrow> Some a | _ \<Rightarrow> None)"

fun ipv4_groups :: "ipv4_addr \<Rightarrow> u16 list" where
  "ipv4_groups (Ipv4 a b c d) = [push_bit 8 (ucast a) OR ucast b, push_bit 8 (ucast c) OR ucast d]"

definition group_start :: "bool \<Rightarrow> string \<Rightarrow> string option" where
  "group_start first s = (if first then Some s else read_given_char CHR '':'' s)"

text \<open>At most so many groups; the last two may be written as an IPv4 address, which ends them.\<close>

fun read_groups :: "nat \<Rightarrow> bool \<Rightarrow> string \<Rightarrow> u16 list \<times> bool \<times> string" where
  "read_groups 0 first s = ([], False, s)"
| "read_groups (Suc n) first s =
     (case if n > 0 then (case group_start first s of None \<Rightarrow> None | Some s' \<Rightarrow> read_ipv4_addr s') else None of
        Some (v4, s') \<Rightarrow> (ipv4_groups v4, True, s')
      | None \<Rightarrow>
          (case (case group_start first s of None \<Rightarrow> None | Some s' \<Rightarrow> read_number 16 4 65536 0 0 s') of
             None \<Rightarrow> ([], False, s)
           | Some (g, s') \<Rightarrow> (case read_groups n False s' of (gs, v4, s'') \<Rightarrow> (of_int g # gs, v4, s''))))"

fun ipv6_of_groups :: "u16 list \<Rightarrow> ipv6_addr option" where
  "ipv6_of_groups [a, b, c, d, e, f, g, h] = Some (Ipv6 a b c d e f g h)"
| "ipv6_of_groups _ = None"

definition read_ipv6_addr :: "string \<Rightarrow> (u16 list \<times> string) option" where
  "read_ipv6_addr s =
     (case read_groups 8 True s of (head, head_ipv4, s) \<Rightarrow>
        if length head = 8 then Some (head, s)
        else if head_ipv4 then None
        else
          (case read_given_char CHR '':'' s of None \<Rightarrow> None | Some s \<Rightarrow>
          (case read_given_char CHR '':'' s of None \<Rightarrow> None | Some s \<Rightarrow>
          (case read_groups (8 - length head) True s of (tail, _, s) \<Rightarrow>
             Some (head @ replicate (8 - length head - length tail) 0 @ tail, s)))))"

definition ipv6_from_str :: "string \<Rightarrow> ipv6_addr option" where
  "ipv6_from_str s = (case read_ipv6_addr s of Some (gs, []) \<Rightarrow> ipv6_of_groups gs | _ \<Rightarrow> None)"

section \<open>Tokens\<close>

text \<open>The next token, which must be character data, and the rest.\<close>

definition next_data :: "string \<Rightarrow> token list \<Rightarrow> (string \<Rightarrow> ('a, parse_error) outcome) \<Rightarrow> ('a \<times> token list, parse_error) outcome" where
  "next_data what tokens f =
     (case tokens of
        [] \<Rightarrow> Err (PE_MissingToken what)
      | Tok_CharData s # rest \<Rightarrow> bind_outcome (f s) (\<lambda>x. Ok (x, rest))
      | t # _ \<Rightarrow> Err (PE_UnexpectedToken t))"

definition next_item :: "string \<Rightarrow> string list \<Rightarrow> (string \<Rightarrow> ('a, parse_error) outcome) \<Rightarrow> ('a \<times> string list, parse_error) outcome" where
  "next_item what items f =
     (case items of [] \<Rightarrow> Err (PE_MissingToken what) | s # rest \<Rightarrow> bind_outcome (f s) (\<lambda>x. Ok (x, rest)))"

definition a_parse :: "token list \<Rightarrow> (ipv4_addr, parse_error) outcome" where
  "a_parse tokens =
     bind_outcome (next_data ''ipv4 address'' tokens
       (\<lambda>s. case ipv4_from_str s of Some a \<Rightarrow> Ok a | None \<Rightarrow> Err PE_AddrParse)) (\<lambda>(address, _). Ok address)"

definition aaaa_parse :: "token list \<Rightarrow> (ipv6_addr, parse_error) outcome" where
  "aaaa_parse tokens =
     bind_outcome (next_data ''ipv6 address'' tokens
       (\<lambda>s. case ipv6_from_str s of Some a \<Rightarrow> Ok a | None \<Rightarrow> Err PE_AddrParse)) (\<lambda>(address, _). Ok address)"

definition name_rdata_parse :: "token list \<Rightarrow> name option \<Rightarrow> (name, parse_error) outcome" where
  "name_rdata_parse tokens origin =
     bind_outcome (next_data ''name'' tokens (\<lambda>s. name_parse s origin)) (\<lambda>(name, _). Ok name)"

definition mx_parse :: "token list \<Rightarrow> name option \<Rightarrow> (mx, parse_error) outcome" where
  "mx_parse tokens origin =
     bind_outcome (next_data ''preference'' tokens parse_u16) (\<lambda>(preference, tokens).
     bind_outcome (next_data ''exchange'' tokens (\<lambda>s. name_parse s origin)) (\<lambda>(exchange, _).
     Ok \<lparr>mx_preference = preference, mx_exchange = exchange\<rparr>))"

definition srv_parse :: "token list \<Rightarrow> name option \<Rightarrow> (srv, parse_error) outcome" where
  "srv_parse tokens origin =
     bind_outcome (next_data ''priority'' tokens parse_u16) (\<lambda>(priority, tokens).
     bind_outcome (next_data ''weight'' tokens parse_u16) (\<lambda>(weight, tokens).
     bind_outcome (next_data ''port'' tokens parse_u16) (\<lambda>(port, tokens).
     bind_outcome (next_data ''target'' tokens (\<lambda>s. name_parse s origin)) (\<lambda>(target, _).
     Ok \<lparr>srv_priority = priority, srv_weight = weight, srv_port = port, srv_target = target\<rparr>))))"

definition soa_list :: "token list \<Rightarrow> (string list, parse_error) outcome" where
  "soa_list tokens =
     (case tokens of
        [] \<Rightarrow> Err (PE_MissingToken ''List'')
      | Tok_List v # _ \<Rightarrow> Ok v
      | t # _ \<Rightarrow> Err (PE_UnexpectedToken t))"

definition soa_parse :: "token list \<Rightarrow> name option \<Rightarrow> (soa, parse_error) outcome" where
  "soa_parse tokens origin =
     bind_outcome (next_data ''mname'' tokens (\<lambda>s. name_parse s origin)) (\<lambda>(mn, tokens).
     bind_outcome (next_data ''rname'' tokens (\<lambda>s. name_parse s origin)) (\<lambda>(rn, tokens).
     bind_outcome (soa_list tokens) (\<lambda>list.
     bind_outcome (next_item ''serial'' list parse_u32) (\<lambda>(ser, list).
     bind_outcome (next_item ''refresh'' list parse_i32) (\<lambda>(ref, list).
     bind_outcome (next_item ''retry'' list parse_i32) (\<lambda>(ret, list).
     bind_outcome (next_item ''expire'' list parse_i32) (\<lambda>(exp, list).
     bind_outcome (next_item ''minimum'' list parse_u32) (\<lambda>(mini, _).
     Ok \<lparr>mname = mn, rname = rn, serial = ser, refresh = ref, retry = ret, expire = exp, minimum = mini\<rparr>))))))))"

fun txt_parse_loop :: "token list \<Rightarrow> string list \<Rightarrow> (txt_rdata, parse_error) outcome" where
  "txt_parse_loop [] data = Ok \<lparr>txt_data = data\<rparr>"
| "txt_parse_loop (Tok_CharData s # tokens) data = txt_parse_loop tokens (data @ [s])"
| "txt_parse_loop (t # tokens) data = Err (PE_UnexpectedToken t)"

definition txt_parse :: "token list \<Rightarrow> (txt_rdata, parse_error) outcome" where
  "txt_parse tokens = txt_parse_loop tokens []"

text \<open>The body is \<open>unimplemented!()\<close>.\<close>

definition null_parse :: "token list \<Rightarrow> (null_rdata, parse_error) outcome" where
  "null_parse tokens = Panic"

definition map_ok :: "('a \<Rightarrow> 'b) \<Rightarrow> ('a, 'e) outcome \<Rightarrow> ('b, 'e) outcome" where
  "map_ok f r = bind_outcome r (\<lambda>x. Ok (f x))"

fun rdata_parse :: "record_type \<Rightarrow> token list \<Rightarrow> name option \<Rightarrow> (rdata, parse_error) outcome" where
  "rdata_parse RT_A tokens origin = map_ok RD_A (a_parse tokens)"
| "rdata_parse RT_AAAA tokens origin = map_ok RD_AAAA (aaaa_parse tokens)"
| "rdata_parse RT_CNAME tokens origin = map_ok RD_CNAME (name_rdata_parse tokens origin)"
| "rdata_parse RT_MX tokens origin = map_ok RD_MX (mx_parse tokens origin)"
| "rdata_parse RT_NULL tokens origin = map_ok RD_NULL (null_parse tokens)"
| "rdata_parse RT_NS tokens origin = map_ok RD_NS (name_rdata_parse tokens origin)"
| "rdata_parse RT_PTR tokens origin = map_ok RD_PTR (name_rdata_parse tokens origin)"
| "rdata_parse RT_SOA tokens origin = map_ok RD_SOA (soa_parse tokens origin)"
| "rdata_parse RT_SRV tokens origin = map_ok RD_SRV (srv_parse tokens origin)"
| "rdata_parse RT_TXT tokens origin = map_ok RD_TXT (txt_parse tokens)"
| "rdata_parse _ tokens origin = Panic"

section \<open>Decimal notation\<close>

text \<open>Reference: the decimal digits of a number, as it is printed.\<close>

definition digit_char :: "int \<Rightarrow> char" where
  "digit_char d = char_of (48 + nat d)"

function decimal :: "int \<Rightarrow> string" where
  "decimal n = (if n < 10 then [digit_char n] else decimal (n div 10) @ [digit_char (n mod 10)])"
  by auto

termination
  by (relation "measure nat") auto

declare decimal.simps [simp del]

lemma digit_char_code: "0 \<le> d \<Longrightarrow> d < 10 \<Longrightarrow> (of_char (digit_char d) :: nat) = 48 + nat d"
  by (simp add: digit_char_def of_char_of)

lemma to_digit_char [simp]: "0 \<le> d \<Longrightarrow> d < 10 \<Longrightarrow> to_digit (digit_char d) = Some (of_int d)"
  by (simp add: to_digit_def char_is_numeric_def digit_char_code)

lemma hex_digit_char [simp]: "0 \<le> d \<Longrightarrow> d < 10 \<Longrightarrow> hex_digit (digit_char d) = Some d"
  using digit_char_code [of d] of_nat_of_char [of "digit_char d", where 'a = int, symmetric]
  by (simp add: hex_digit_def Let_def)

lemma decimal_induct [consumes 1, case_names digit more]:
  assumes "0 \<le> n" "\<And>n. 0 \<le> n \<Longrightarrow> n < 10 \<Longrightarrow> decimal n = [digit_char n] \<Longrightarrow> P n"
    "\<And>n. 10 \<le> n \<Longrightarrow> decimal n = decimal (n div 10) @ [digit_char (n mod 10)] \<Longrightarrow> P (n div 10) \<Longrightarrow> P n"
  shows "P n"
  using assms(1)
proof (induction n rule: decimal.induct)
  case (1 n)
  then show ?case using assms(2,3) [of n] decimal.simps [of n] by (cases "n < 10") auto
qed

lemma decimal_not_empty [simp]: "decimal n \<noteq> []"
  by (subst decimal.simps) simp

lemma list_all_decimal: "0 \<le> n \<Longrightarrow> (\<And>d. 0 \<le> d \<Longrightarrow> d < 10 \<Longrightarrow> P (digit_char d)) \<Longrightarrow> list_all P (decimal n)"
  by (induction n rule: decimal_induct) simp_all

lemma parse_digits_append:
  "parse_digits acc (xs @ ys) = (case parse_digits acc xs of None \<Rightarrow> None | Some acc' \<Rightarrow> parse_digits acc' ys)"
  by (induction acc xs rule: parse_digits.induct) (auto split: option.splits)

lemma uint_digit [simp]: "0 \<le> d \<Longrightarrow> d < 10 \<Longrightarrow> uint (of_int d :: u32) = d"
  by (simp add: unsigned_of_int take_bit_int_eq_self)

lemma parse_digits_decimal: "0 \<le> n \<Longrightarrow> parse_digits 0 (decimal n) = Some n"
  by (induction n rule: decimal_induct) (simp_all add: parse_digits_append)

lemma decimal_no_sign: "0 \<le> n \<Longrightarrow> hd (decimal n) \<notin> {CHR ''+'', CHR ''-''}"
proof -
  assume "0 \<le> n"
  then have "list_all (\<lambda>c. c \<noteq> CHR ''+'' \<and> c \<noteq> CHR ''-'') (decimal n)"
    by (rule list_all_decimal) (use digit_char_code in \<open>force+\<close>)
  then show ?thesis by (cases "decimal n") auto
qed

lemma parse_unsigned_decimal:
  assumes "0 \<le> n" "n < limit"
  shows "parse_unsigned limit (decimal n) = Some n"
proof -
  have "parse_magnitude (decimal n) = Some n" using assms(1) by (simp add: parse_magnitude_def parse_digits_decimal)
  with assms decimal_no_sign [of n] show ?thesis by (cases "decimal n") (simp_all add: parse_unsigned_def)
qed

section \<open>Addresses in dotted notation\<close>

fun dotted :: "ipv4_addr \<Rightarrow> string" where
  "dotted (Ipv4 a b c d) =
     decimal (uint a) @ ''.'' @ decimal (uint b) @ ''.'' @ decimal (uint c) @ ''.'' @ decimal (uint d)"

lemma decimal_octet:
  assumes "0 \<le> n" "n < 256"
  shows "n < 10 \<and> decimal n = [digit_char n] \<or>
    10 \<le> n \<and> n < 100 \<and> decimal n = [digit_char (n div 10), digit_char (n mod 10)] \<or>
    100 \<le> n \<and> decimal n = [digit_char (n div 100), digit_char (n div 10 mod 10), digit_char (n mod 10)]"
  using assms decimal.simps [of n] decimal.simps [of "n div 10"] decimal.simps [of "n div 10 div 10"]
  by (auto simp: zdiv_zmult2_eq [symmetric])

lemma read_octet_decimal:
  assumes "0 \<le> n" "n < 256" "rest = [] \<or> hd rest = CHR ''.''"
  shows "read_number 10 3 256 0 0 (decimal n @ rest) = Some (n, rest)"
proof -
  have stop: "read_number 10 3 256 r count rest = Some (r, rest)" if "count > 0" for r count
    using assms(3) that by (cases rest) (auto simp: radix_digit_def hex_digit_def)
  consider "n < 10" "decimal n = [digit_char n]" |
    "10 \<le> n" "n < 100" "decimal n = [digit_char (n div 10), digit_char (n mod 10)]" |
    "100 \<le> n" "decimal n = [digit_char (n div 100), digit_char (n div 10 mod 10), digit_char (n mod 10)]"
    using decimal_octet [OF assms(1,2)] by blast
  then show ?thesis
  proof cases
    case 3
    define a b c where abc: "a = n div 100" "b = n div 10 mod 10" "c = n mod 10"
    have a: "a = n div 10 div 10" unfolding abc by (simp add: zdiv_zmult2_eq [symmetric])
    have n: "n = (a * 10 + b) * 10 + c" unfolding a abc(2,3) by simp
    have "0 \<le> a" "0 \<le> b" "b < 10" "0 \<le> c" "c < 10" using assms(1) unfolding abc by (simp_all add: pos_imp_zdiv_nonneg_iff)
    moreover from this n assms(2) have "a < 10" by (simp add: algebra_simps)
    moreover have "decimal n = [digit_char a, digit_char b, digit_char c]" using 3 abc by simp
    ultimately show ?thesis using assms(1,2) stop n by (simp add: radix_digit_def Let_def)
  qed (use assms stop in \<open>simp_all add: radix_digit_def Let_def\<close>)
qed

lemma dotted_roundtrip: "ipv4_from_str (dotted a) = Some a"
proof (cases a)
  case (Ipv4 w x y z)
  have "uint v < 256" for v :: u8 using uint_lt2p [of v] by simp
  with Ipv4 read_octet_decimal [of "uint z" "[]"] show ?thesis
    by (simp add: ipv4_from_str_def read_ipv4_addr_def read_octet_def read_given_char_def read_octet_decimal)
qed

section \<open>Signed numbers\<close>

definition signed_decimal :: "int \<Rightarrow> string" where
  "signed_decimal n = (if n < 0 then CHR ''-'' # decimal (- n) else decimal n)"

lemma parse_signed_decimal:
  assumes "- limit \<le> n" "n < limit"
  shows "parse_signed limit (signed_decimal n) = Some n"
proof (cases "n < 0")
  case True
  then have "parse_magnitude (decimal (- n)) = Some (- n)" by (simp add: parse_magnitude_def parse_digits_decimal)
  with True assms show ?thesis by (simp add: parse_signed_def signed_decimal_def)
next
  case False
  with assms decimal_no_sign [of n] parse_unsigned_decimal [of n limit] show ?thesis
    by (cases "decimal n") (simp_all add: parse_signed_def signed_decimal_def)
qed

lemma parse_i32_decimal: "parse_i32 (signed_decimal (sint x)) = Ok x"
proof -
  have "- 2147483648 \<le> sint x" "sint x < 2147483648" using sint_range_size [of x] by (simp_all add: word_size)
  then show ?thesis by (simp add: parse_i32_def parse_signed_decimal int_result_def)
qed

lemma parse_u32_decimal: "parse_u32 (decimal (uint x)) = Ok x"
proof -
  have "uint x < 4294967296" using uint_lt2p [of x] by simp
  then show ?thesis by (simp add: parse_u32_def parse_unsigned_decimal int_result_def)
qed

section \<open>Addresses in groups of hexadecimal digits\<close>

definition hex_char :: "int \<Rightarrow> char" where
  "hex_char d = ''0123456789abcdef'' ! nat d"

definition hex_group :: "u16 \<Rightarrow> string" where
  "hex_group g = map hex_char [uint g div 4096, uint g div 256 mod 16, uint g div 16 mod 16, uint g mod 16]"

definition colons :: "u16 list \<Rightarrow> string" where
  "colons gs = concat (map (\<lambda>g. CHR '':'' # hex_group g) gs)"

fun ipv6_groups :: "ipv6_addr \<Rightarrow> u16 list" where
  "ipv6_groups (Ipv6 a b c d e f g h) = [a, b, c, d, e, f, g, h]"

definition ipv6_text :: "ipv6_addr \<Rightarrow> string" where
  "ipv6_text a = tl (colons (ipv6_groups a))"

lemma hex_char_digit:
  assumes "0 \<le> d" "d < 16"
  shows "hex_digit (hex_char d) = Some d" "hex_char d \<noteq> CHR ''.''"
proof -
  have "d \<in> {0, 1, 2, 3, 4, 5, 6, 7, 8, 9, 10, 11, 12, 13, 14, 15}" using assms unfolding insert_iff empty_iff by presburger
  then show "hex_digit (hex_char d) = Some d" "hex_char d \<noteq> CHR ''.''"
    by (auto simp: hex_char_def hex_digit_def)
qed

lemma hex_group_digits:
  obtains a b c d where "hex_group g = map hex_char [a, b, c, d]" "uint g = ((a * 16 + b) * 16 + c) * 16 + d"
    "{a, b, c, d} \<subseteq> {0..<16}"
proof (rule that [OF hex_group_def])
  have g: "0 \<le> uint g" "uint g < 65536" using uint_lt2p [of g] by simp_all
  have "uint g div 256 = uint g div 16 div 16" "uint g div 4096 = uint g div 16 div 16 div 16"
    by (simp_all add: zdiv_zmult2_eq [symmetric])
  then show "uint g = ((uint g div 4096 * 16 + uint g div 256 mod 16) * 16 + uint g div 16 mod 16) * 16 + uint g mod 16"
    by simp
  show "{uint g div 4096, uint g div 256 mod 16, uint g div 16 mod 16, uint g mod 16} \<subseteq> {0..<16}"
    using g by (auto simp: pos_imp_zdiv_nonneg_iff)
qed

lemma read_hex_group:
  assumes "rest = [] \<or> hd rest = CHR '':''"
  shows "read_number 16 4 65536 0 0 (hex_group g @ rest) = Some (uint g, rest)"
proof -
  have stop: "read_number 16 4 65536 r 4 rest = Some (r, rest)" for r
    using assms by (cases rest) (auto simp: radix_digit_def hex_digit_def)
  obtain a b c d where g: "hex_group g = map hex_char [a, b, c, d]" "uint g = ((a * 16 + b) * 16 + c) * 16 + d"
      "{a, b, c, d} \<subseteq> {0..<16}"
    by (rule hex_group_digits)
  moreover have "uint g < 65536" using uint_lt2p [of g] by simp
  ultimately show ?thesis using stop by (simp add: radix_digit_def hex_char_digit Let_def)
qed

lemma read_number_suffix: "read_number radix k limit r n s = Some (x, s') \<Longrightarrow> set s' \<subseteq> set s"
  by (induction radix k limit r n s rule: read_number.induct) (auto simp: Let_def split: option.splits if_splits)

lemma no_dot_no_ipv4: "CHR ''.'' \<notin> set s \<Longrightarrow> read_ipv4_addr s = None"
  by (auto simp: read_ipv4_addr_def read_octet_def read_given_char_def
    dest!: read_number_suffix split: option.splits list.splits if_splits)

lemma hex_group_no_dot: "CHR ''.'' \<notin> set (hex_group g)"
  using hex_char_digit(2) [symmetric] by (auto intro: hex_group_digits [of g])

lemma colons_no_dot: "CHR ''.'' \<notin> set (colons gs)"
  using hex_group_no_dot by (auto simp: colons_def)

lemma colons_Cons: "colons [] = []" "colons (g # gs) = CHR '':'' # hex_group g @ colons gs"
  by (simp_all add: colons_def)

lemma group_no_ipv4: "read_ipv4_addr (hex_group g @ colons gs) = None"
  using hex_group_no_dot colons_no_dot by (intro no_dot_no_ipv4) simp

lemma read_colon_group: "read_number 16 4 65536 0 0 (hex_group g @ colons gs) = Some (uint g, colons gs)"
  by (rule read_hex_group) (cases gs; simp add: colons_def)

lemma read_groups_step:
  assumes "group_start first s = Some (hex_group g @ colons gs)"
  shows "read_groups (Suc n) first s = (case read_groups n False (colons gs) of (gs', v4, s') \<Rightarrow> (g # gs', v4, s'))"
  by (simp add: assms group_no_ipv4 read_colon_group)

lemma read_groups_colons: "read_groups (length gs) False (colons gs) = (gs, False, [])"
proof (induction gs)
  case (Cons g gs)
  have "group_start False (colons (g # gs)) = Some (hex_group g @ colons gs)"
    by (simp add: colons_Cons group_start_def read_given_char_def)
  from read_groups_step [OF this, of "length gs"] Cons show ?case by simp
qed (simp add: colons_def)

lemma ipv6_text_roundtrip: "ipv6_from_str (ipv6_text a) = Some a"
proof (cases a)
  case (Ipv6 g b c d e f k h)
  let ?gs = "[b, c, d, e, f, k, h]"
  have printed: "ipv6_text a = hex_group g @ colons ?gs" using Ipv6 by (simp add: ipv6_text_def colons_Cons)
  have "read_groups 8 True (hex_group g @ colons ?gs) = (g # ?gs, False, [])"
  proof -
    have len: "length ?gs = 7" by simp
    show ?thesis
      using read_groups_step [of True "hex_group g @ colons ?gs" g ?gs 7] read_groups_colons [of ?gs, unfolded len]
      by (simp add: group_start_def)
  qed
  with printed Ipv6 show ?thesis by (simp add: ipv6_from_str_def read_ipv6_addr_def)
qed

end
