(* ===== verification/Master_Lex.thy ===== *)
theory Master_Lex
  imports Domain
begin

text \<open>
  The lexer of master files (\<open>client/src/serialize/txt/master_lex.rs\<close>). The text is its UTF-8
  octets; characters are classified as in \<open>Domain\<close>, exactly for ASCII. \<open>lex_step\<close> is one round of
  the loop of \<open>next_token\<close>, which asserts that it makes fewer than 4096 rounds.
\<close>

section \<open>State\<close>

datatype lex_state =
    LS_StartLine
  | LS_RestOfLine
  | LS_Blank
  | LS_List
  | LS_CharData bool
  | LS_Comment bool
  | LS_At
  | LS_Quote
  | LS_Dollar
  | LS_EOL
  | LS_EOF

record lexer =
  lx_txt :: string
  lx_state :: lex_state

definition lexer_new :: "string \<Rightarrow> lexer" where
  "lexer_new txt = \<lparr>lx_txt = txt, lx_state = LS_StartLine\<rparr>"

definition lx_peek :: "lexer \<Rightarrow> char option" where
  "lx_peek lx = (case lx_txt lx of [] \<Rightarrow> None | c # _ \<Rightarrow> Some c)"

definition lx_next :: "lexer \<Rightarrow> lexer" where
  "lx_next lx = lx\<lparr>lx_txt := tl (lx_txt lx)\<rparr>"

definition lx_goto :: "lex_state \<Rightarrow> lexer \<Rightarrow> lexer" where
  "lx_goto s lx = lx\<lparr>lx_state := s\<rparr>"

section \<open>Escapes\<close>

definition push_to_str :: "string option \<Rightarrow> string \<Rightarrow> (string option, lexer_error) outcome" where
  "push_to_str collect ch =
     (case collect of None \<Rightarrow> Err (LE_IllegalState ''collect is None'') | Some s \<Rightarrow> Ok (Some (s @ ch)))"

definition escape_digit :: "lexer \<Rightarrow> (u32 \<times> lexer, lexer_error) outcome" where
  "escape_digit lx =
     (case lx_peek lx of
        None \<Rightarrow> Err LE_EOF
      | Some c \<Rightarrow> (case to_digit c of None \<Rightarrow> Err (LE_IllegalCharacter c) | Some d \<Rightarrow> Ok (d, lx_next lx)))"

text \<open>The decoded character, as its UTF-8 octets, and the lexer behind it.\<close>

definition escape_seq :: "lexer \<Rightarrow> (string \<times> lexer, lexer_error) outcome" where
  "escape_seq lx =
     (let lx = lx_next lx in
      case lx_peek lx of
        None \<Rightarrow> Err LE_EOF
      | Some ch \<Rightarrow>
          if char_is_control ch then Err (LE_IllegalCharacter ch)
          else if char_is_numeric ch then
            bind_outcome (escape_digit lx) (\<lambda>(d1, lx).
            bind_outcome (escape_digit lx) (\<lambda>(d2, lx).
            bind_outcome (escape_digit lx) (\<lambda>(d3, lx).
            let val = push_bit 16 d1 + push_bit 8 d2 + d3 in
            (case char_from_u32 val of
               None \<Rightarrow> Err (LE_UnrecognizedOctet val)
             | Some v \<Rightarrow> Ok (utf8_encode v, lx)))))
          else Ok ([ch], lx_next lx))"

section \<open>The loop\<close>

text \<open>
  A round goes on with the lexer, the list and the characters collected so far, or it returns. An
  error leaves the lexer where it is; its callers never use it again.
\<close>

datatype lex_round =
    Lex_Next lexer "string list option" "string option"
  | Lex_Return "(token option \<times> lexer, lexer_error) outcome"

definition lex_fail :: "lexer_error \<Rightarrow> lex_round" where
  "lex_fail e = Lex_Return (Err e)"

definition lex_token :: "token \<Rightarrow> lexer \<Rightarrow> lex_round" where
  "lex_token t lx = Lex_Return (Ok (Some t, lx))"

text \<open>\<open>char_data.take()\<close> where the data must be there.\<close>

definition lex_take :: "string option \<Rightarrow> (string \<Rightarrow> lex_round) \<Rightarrow> lex_round" where
  "lex_take data f =
     (case data of None \<Rightarrow> lex_fail (LE_IllegalState ''char_data is None'') | Some s \<Rightarrow> f s)"

definition lex_push :: "lexer \<Rightarrow> string list option \<Rightarrow> string option \<Rightarrow> string \<Rightarrow> lex_round" where
  "lex_push lx vec data ch =
     (case push_to_str data ch of Ok data' \<Rightarrow> Lex_Next lx vec data' | Err e \<Rightarrow> lex_fail e
      | Panic \<Rightarrow> Lex_Return Panic | Overrun \<Rightarrow> Lex_Return Overrun)"

definition is_eol :: "char \<Rightarrow> bool" where
  "is_eol c \<longleftrightarrow> c = CHR 0x0D \<or> c = CHR 0x0A"

definition is_word :: "char \<Rightarrow> bool" where
  "is_word c \<longleftrightarrow> \<not> char_is_control c \<and> \<not> char_is_whitespace c"

definition step_start :: "lexer \<Rightarrow> string list option \<Rightarrow> string option \<Rightarrow> lex_round" where
  "step_start lx vec data =
     (case lx_peek lx of
        None \<Rightarrow> Lex_Next (lx_goto LS_EOF lx) vec data
      | Some ch \<Rightarrow>
          if is_eol ch then Lex_Next (lx_goto LS_EOL lx) vec data
          else if char_is_whitespace ch then Lex_Next (lx_goto LS_Blank lx) vec data
          else Lex_Next (lx_goto LS_RestOfLine lx) vec data)"

definition step_rest :: "lexer \<Rightarrow> string list option \<Rightarrow> string option \<Rightarrow> lex_round" where
  "step_rest lx vec data =
     (case lx_peek lx of
        None \<Rightarrow> Lex_Next (lx_goto LS_EOF lx) vec data
      | Some ch \<Rightarrow>
          if ch = CHR ''@'' then Lex_Next (lx_goto LS_At lx) vec data
          else if ch = CHR ''('' then Lex_Next (lx_goto LS_List (lx_next lx)) (Some []) data
          else if ch = CHR '')'' then lex_fail (LE_IllegalCharacter ch)
          else if ch = CHR ''$'' then Lex_Next (lx_goto LS_Dollar (lx_next lx)) vec (Some [])
          else if is_eol ch then Lex_Next (lx_goto LS_EOL lx) vec data
          else if ch = CHR 0x22 then Lex_Next (lx_goto LS_Quote (lx_next lx)) vec (Some [])
          else if ch = CHR '';'' then Lex_Next (lx_goto (LS_Comment False) lx) vec data
          else if char_is_whitespace ch then Lex_Next (lx_next lx) vec data
          else if is_word ch then Lex_Next (lx_goto (LS_CharData False) lx) vec (Some [])
          else lex_fail (LE_UnrecognizedChar ch))"

definition step_comment :: "bool \<Rightarrow> lexer \<Rightarrow> string list option \<Rightarrow> string option \<Rightarrow> lex_round" where
  "step_comment is_list lx vec data =
     (case lx_peek lx of
        None \<Rightarrow> Lex_Next (lx_goto LS_EOF lx) vec data
      | Some ch \<Rightarrow>
          if is_eol ch then Lex_Next (lx_goto (if is_list then LS_List else LS_EOL) lx) vec data
          else Lex_Next (lx_next lx) vec data)"

definition step_quote :: "lexer \<Rightarrow> string list option \<Rightarrow> string option \<Rightarrow> lex_round" where
  "step_quote lx vec data =
     (case lx_peek lx of
        None \<Rightarrow> lex_fail LE_UnclosedQuotedString
      | Some ch \<Rightarrow>
          if ch = CHR 0x22 then
            lex_token (Tok_CharData (case data of Some s \<Rightarrow> s | None \<Rightarrow> [])) (lx_next (lx_goto LS_RestOfLine lx))
          else if ch = CHR 0x5C then
            (case escape_seq lx of
               Ok (s, lx') \<Rightarrow> lex_push lx' vec data s
             | Err e \<Rightarrow> lex_fail e
             | Panic \<Rightarrow> Lex_Return Panic
             | Overrun \<Rightarrow> Lex_Return Overrun)
          else lex_push (lx_next lx) vec data [ch])"

definition is_upper :: "char \<Rightarrow> bool" where
  "is_upper c = (let n = of_char c :: nat in 65 \<le> n \<and> n \<le> 90)"

text \<open>An unknown directive is reported after its characters were taken, hence always as empty.\<close>

definition finish_dollar :: "lexer \<Rightarrow> string option \<Rightarrow> lex_round" where
  "finish_dollar lx data =
     lex_take data (\<lambda>dollar.
     let lx = lx_goto LS_RestOfLine lx in
     if dollar = ''INCLUDE'' then lex_token Tok_Include lx
     else if dollar = ''ORIGIN'' then lex_token Tok_Origin lx
     else if dollar = ''TTL'' then lex_token Tok_Ttl lx
     else lex_fail (LE_UnrecognizedDollar []))"

definition step_dollar :: "lexer \<Rightarrow> string list option \<Rightarrow> string option \<Rightarrow> lex_round" where
  "step_dollar lx vec data =
     (case lx_peek lx of
        Some ch \<Rightarrow> if is_upper ch then lex_push (lx_next lx) vec data [ch] else finish_dollar lx data
      | None \<Rightarrow> finish_dollar lx data)"

definition step_list :: "lexer \<Rightarrow> string list option \<Rightarrow> string option \<Rightarrow> lex_round" where
  "step_list lx vec data =
     (case lx_peek lx of
        None \<Rightarrow> lex_fail LE_UnclosedList
      | Some ch \<Rightarrow>
          if ch = CHR '';'' then Lex_Next (lx_goto (LS_Comment True) (lx_next lx)) vec data
          else if ch = CHR '')'' then
            (case vec of
               None \<Rightarrow> lex_fail (LE_IllegalState ''char_data_vec is None'')
             | Some v \<Rightarrow> lex_token (Tok_List v) (lx_goto LS_RestOfLine (lx_next lx)))
          else if char_is_whitespace ch then Lex_Next (lx_next lx) vec data
          else if is_word ch then Lex_Next (lx_goto (LS_CharData True) lx) vec (Some [])
          else lex_fail (LE_UnrecognizedChar ch))"

definition step_char_data :: "bool \<Rightarrow> lexer \<Rightarrow> string list option \<Rightarrow> string option \<Rightarrow> lex_round" where
  "step_char_data is_list lx vec data =
     (case lx_peek lx of
        None \<Rightarrow> lex_take data (\<lambda>s. lex_token (Tok_CharData s) (lx_goto LS_EOF lx))
      | Some ch \<Rightarrow>
          if ch = CHR '')'' \<and> \<not> is_list then lex_fail (LE_IllegalCharacter ch)
          else if char_is_whitespace ch \<or> ch = CHR '')'' \<or> ch = CHR '';'' then
            if is_list then
              (case vec of
                 None \<Rightarrow> lex_fail (LE_IllegalState ''char_data_vec is None'')
               | Some v \<Rightarrow> lex_take data (\<lambda>s. Lex_Next (lx_goto LS_List lx) (Some (v @ [s])) None))
            else lex_take data (\<lambda>s. lex_token (Tok_CharData s) (lx_goto LS_RestOfLine lx))
          else if is_word ch then lex_push (lx_next lx) vec data [ch]
          else lex_fail (LE_UnrecognizedChar ch))"

definition step_eol :: "lexer \<Rightarrow> string list option \<Rightarrow> string option \<Rightarrow> lex_round" where
  "step_eol lx vec data =
     (case lx_peek lx of
        None \<Rightarrow> lex_fail LE_EOF
      | Some ch \<Rightarrow>
          if ch = CHR 0x0D then Lex_Next (lx_next lx) vec data
          else if ch = CHR 0x0A then lex_token Tok_EOL (lx_goto LS_StartLine (lx_next lx))
          else lex_fail (LE_IllegalCharacter ch))"

definition lex_step :: "lexer \<Rightarrow> string list option \<Rightarrow> string option \<Rightarrow> lex_round" where
  "lex_step lx vec data =
     (case lx_state lx of
        LS_StartLine \<Rightarrow> step_start lx vec data
      | LS_RestOfLine \<Rightarrow> step_rest lx vec data
      | LS_Blank \<Rightarrow> lex_token Tok_Blank (lx_goto LS_RestOfLine (lx_next lx))
      | LS_Comment is_list \<Rightarrow> step_comment is_list lx vec data
      | LS_Quote \<Rightarrow> step_quote lx vec data
      | LS_Dollar \<Rightarrow> step_dollar lx vec data
      | LS_List \<Rightarrow> step_list lx vec data
      | LS_CharData is_list \<Rightarrow> step_char_data is_list lx vec data
      | LS_At \<Rightarrow> lex_token Tok_At (lx_goto LS_RestOfLine (lx_next lx))
      | LS_EOL \<Rightarrow> step_eol lx vec data
      | LS_EOF \<Rightarrow> Lex_Return (Ok (None, lx_next lx)))"

text \<open>The rounds left before the assertion on the loop counter fails.\<close>

fun lex_loop :: "nat \<Rightarrow> lexer \<Rightarrow> string list option \<Rightarrow> string option \<Rightarrow> (token option \<times> lexer, lexer_error) outcome" where
  "lex_loop 0 lx vec data = Panic"
| "lex_loop (Suc rounds) lx vec data =
     (case lex_step lx vec data of
        Lex_Return r \<Rightarrow> r
      | Lex_Next lx' vec' data' \<Rightarrow> lex_loop rounds lx' vec' data')"

definition next_token :: "lexer \<Rightarrow> (token option \<times> lexer, lexer_error) outcome" where
  "next_token lx = lex_loop 4095 lx None None"

section \<open>Progress\<close>

lemmas lex_defs = lex_step_def step_start_def step_rest_def step_comment_def step_quote_def step_dollar_def
  finish_dollar_def step_list_def step_char_data_def step_eol_def lex_push_def push_to_str_def lex_take_def
  lex_fail_def lex_token_def lx_peek_def lx_next_def lx_goto_def

definition at_word :: "string \<Rightarrow> bool" where
  "at_word txt \<longleftrightarrow> (case txt of [] \<Rightarrow> False | c # _ \<Rightarrow> is_word c \<and> c \<noteq> CHR '')'' \<and> c \<noteq> CHR '';'')"

text \<open>How far the lexer is from the end: every round decreases it, whether it goes on or returns a token.\<close>

definition lex_rank :: "lexer \<Rightarrow> nat" where
  "lex_rank lx =
     (case lx_state lx of
        LS_EOF \<Rightarrow> 0
      | LS_EOL \<Rightarrow> 0
      | LS_Quote \<Rightarrow> 0
      | LS_CharData _ \<Rightarrow> if at_word (lx_txt lx) then 0 else 4
      | LS_Blank \<Rightarrow> if lx_txt lx = [] then 4 else 0
      | LS_At \<Rightarrow> if lx_txt lx = [] then 4 else 0
      | LS_List \<Rightarrow> 1
      | LS_Comment _ \<Rightarrow> 2
      | LS_RestOfLine \<Rightarrow> 3
      | _ \<Rightarrow> 4)"

definition lex_measure :: "lexer \<Rightarrow> nat" where
  "lex_measure lx = 5 * length (lx_txt lx) + lex_rank lx"

lemma lex_rank_le: "lex_rank lx \<le> 4"
  by (simp add: lex_rank_def split: lex_state.split)

lemma is_word_not: "is_word c \<Longrightarrow> \<not> char_is_whitespace c" "is_word c \<Longrightarrow> \<not> is_eol c"
  by (auto simp: is_word_def is_eol_def char_is_control_def)

lemma escape_digit_shorter:
  "escape_digit lx = Ok (d, lx') \<Longrightarrow> lx_state lx' = lx_state lx \<and> length (lx_txt lx') < length (lx_txt lx)"
  by (auto simp: escape_digit_def lx_peek_def lx_next_def split: list.splits option.splits)

lemma escape_seq_shorter:
  assumes "escape_seq lx = Ok (s, lx')" "lx_txt lx \<noteq> []"
  shows "lx_state lx' = lx_state lx \<and> length (lx_txt lx') < length (lx_txt lx)"
proof -
  have n: "length (lx_txt (lx_next lx)) < length (lx_txt lx)" "lx_state (lx_next lx) = lx_state lx"
    using assms(2) by (simp_all add: lx_next_def)
  have "lx_state lx' = lx_state (lx_next lx) \<and> length (lx_txt lx') < length (lx_txt (lx_next lx))"
    using assms(1)
    by (auto simp: escape_seq_def Let_def bind_outcome_Ok_iff lx_peek_def
      split: option.splits if_splits list.splits dest!: escape_digit_shorter) (simp_all add: lx_next_def)
  with n show ?thesis by simp
qed

lemma lex_measure_shorter:
  "length (lx_txt lx') < length (lx_txt lx) \<Longrightarrow> lex_measure lx' < lex_measure lx"
  using lex_rank_le [of lx'] by (simp add: lex_measure_def)

lemma step_quote_progress:
  "step_quote lx vec data = Lex_Next lx' vec' data' \<Longrightarrow> lex_measure lx' < lex_measure lx"
  "step_quote lx vec data = Lex_Return (Ok (Some t, lx')) \<Longrightarrow> lex_measure lx' < lex_measure lx"
  by (auto simp: step_quote_def lx_peek_def lx_next_def lx_goto_def lex_push_def push_to_str_def lex_token_def lex_fail_def
      split: list.splits if_splits outcome.splits option.splits prod.splits
      intro!: lex_measure_shorter dest: escape_seq_shorter)

lemma lex_step_progress:
  assumes "lex_step lx vec data = Lex_Next lx' vec' data' \<or> lex_step lx vec data = Lex_Return (Ok (Some t, lx'))"
  shows "lex_measure lx' < lex_measure lx"
proof (cases "lx_state lx = LS_Quote")
  case True
  with assms show ?thesis by (auto simp: lex_step_def dest: step_quote_progress)
next
  case False
  show ?thesis
    using assms False
    by (cases "lx_txt lx"; cases "lx_state lx")
      (auto simp: lex_step_def step_start_def step_rest_def step_comment_def step_dollar_def
        finish_dollar_def step_list_def step_char_data_def step_eol_def lex_push_def push_to_str_def lex_take_def
        lex_fail_def lex_token_def lx_peek_def lx_next_def lx_goto_def Let_def
        lex_measure_def lex_rank_def at_word_def is_word_def
        split: if_splits option.splits)
qed

lemma lex_loop_progress: "lex_loop n lx vec data = Ok (Some t, lx') \<Longrightarrow> lex_measure lx' < lex_measure lx"
proof (induction n arbitrary: lx vec data)
  case (Suc n)
  show ?case
  proof (cases "lex_step lx vec data")
    case (Lex_Next l v d)
    with Suc have "lex_measure lx' < lex_measure l" by simp
    also have "lex_measure l < lex_measure lx" using Lex_Next lex_step_progress by blast
    finally show ?thesis .
  next
    case (Lex_Return r)
    with Suc.prems show ?thesis using lex_step_progress [of lx vec data] by auto
  qed
qed simp

lemma next_token_progress: "next_token lx = Ok (Some t, lx') \<Longrightarrow> lex_measure lx' < lex_measure lx"
  unfolding next_token_def by (rule lex_loop_progress)

lemma escape_no_panic: "escape_digit lx \<noteq> Panic" "escape_digit lx \<noteq> Overrun" "escape_seq lx \<noteq> Panic" "escape_seq lx \<noteq> Overrun"
  by (auto simp: escape_digit_def escape_seq_def Let_def bind_outcome.simps split: option.splits outcome.splits prod.splits if_splits
      elim!: bind_outcome.elims)

lemma lex_step_return: "lex_step lx vec data = Lex_Return r \<Longrightarrow> r \<noteq> Panic \<and> r \<noteq> Overrun"
  by (auto simp: lex_defs Let_def escape_no_panic split: lex_state.splits option.splits if_splits outcome.splits prod.splits)

lemma lex_loop_rounds: "lex_measure lx < n \<Longrightarrow> lex_loop n lx vec data \<noteq> Panic \<and> lex_loop n lx vec data \<noteq> Overrun"
proof (induction n arbitrary: lx vec data)
  case (Suc n)
  show ?case
  proof (cases "lex_step lx vec data")
    case (Lex_Next l v d)
    then have "lex_measure l < lex_measure lx" using lex_step_progress by blast
    with Suc Lex_Next show ?thesis by simp
  qed (simp add: lex_step_return)
qed simp

lemma lex_loop_comment:
  "list_all (\<lambda>c. \<not> is_eol c) (take n cs) \<Longrightarrow> n \<le> length cs \<Longrightarrow>
     lex_loop n \<lparr>lx_txt = cs, lx_state = LS_Comment b\<rparr> vec data = Panic"
proof (induction n arbitrary: cs)
  case (Suc n)
  then obtain c cs' where "cs = c # cs'" by (cases cs) auto
  with Suc show ?case by (simp add: lex_defs)
qed simp

text \<open>
  C31. The lexer always returns: for a text of at most 818 octets every call gives a token, the end
  of the text or an error, and a token leaves it closer to the end. The loop counter is a real limit
  though: a comment of 4092 octets or more panics. (Octets are the characters of an ASCII text, of which
  the lexer takes one in a round.)
\<close>
theorem next_token_bounds:
  "(length (lx_txt lx) \<le> 818 \<longrightarrow>
      (\<exists>e. next_token lx = Err e) \<or> (\<exists>lx'. next_token lx = Ok (None, lx')) \<or>
      (\<exists>t lx'. next_token lx = Ok (Some t, lx') \<and> lex_measure lx' < lex_measure lx)) \<and>
   (length comment \<ge> 4092 \<and> list_all (\<lambda>c. \<not> is_eol c) (take 4092 comment) \<longrightarrow>
      next_token (lexer_new (CHR '';'' # comment)) = Panic)"
proof (intro conjI impI)
  assume "length (lx_txt lx) \<le> 818"
  with lex_rank_le [of lx] have "lex_measure lx < 4095" by (simp add: lex_measure_def)
  then have "next_token lx \<noteq> Panic \<and> next_token lx \<noteq> Overrun" unfolding next_token_def by (rule lex_loop_rounds)
  then show "(\<exists>e. next_token lx = Err e) \<or> (\<exists>lx'. next_token lx = Ok (None, lx')) \<or>
      (\<exists>t lx'. next_token lx = Ok (Some t, lx') \<and> lex_measure lx' < lex_measure lx)"
    using next_token_progress [of lx] by (cases "next_token lx") (auto, metis option.exhaust)
next
  assume "length comment \<ge> 4092 \<and> list_all (\<lambda>c. \<not> is_eol c) (take 4092 comment)"
  then have "lex_loop 4093 \<lparr>lx_txt = CHR '';'' # comment, lx_state = LS_Comment False\<rparr> None None = Panic"
    by (intro lex_loop_comment) (simp_all add: is_eol_def)
  with lex_loop.simps(2) [of 4094] lex_loop.simps(2) [of 4093]
  show "next_token (lexer_new (CHR '';'' # comment)) = Panic"
    by (simp add: next_token_def lexer_new_def lex_defs is_eol_def char_is_whitespace_def)
qed

theorem next_token_bounds_witness:
  "next_token (lexer_new (CHR '';'' # replicate 5000 CHR ''-'')) = Panic \<and>
   (\<exists>t lx'. next_token (lexer_new ''ns IN A'') = Ok (Some t, lx') \<and> lex_measure lx' < lex_measure (lexer_new ''ns IN A''))"
proof -
  have "\<exists>x. next_token (lexer_new ''ns IN A'') = Ok (Some x, \<lparr>lx_txt = '' IN A'', lx_state = LS_RestOfLine\<rparr>)"
    by (intro exI [of _ "Tok_CharData ''ns''"]) code_simp
  with next_token_bounds [of "lexer_new ''ns IN A''" "replicate 5000 CHR ''-''"] show ?thesis
    by (auto simp: list_all_iff is_eol_def lexer_new_def)
qed

section \<open>Words\<close>

text \<open>A word that needs no quotes, on a line outside parentheses.\<close>

definition plain_word :: "string \<Rightarrow> bool" where
  "plain_word w \<longleftrightarrow> w \<noteq> [] \<and> hd w \<notin> {CHR ''@'', CHR ''('', CHR ''$'', CHR 0x22} \<and>
     list_all (\<lambda>c. is_word c \<and> c \<noteq> CHR '')'' \<and> c \<noteq> CHR '';'') w"

definition ends_word :: "string \<Rightarrow> bool" where
  "ends_word txt \<longleftrightarrow> (case txt of [] \<Rightarrow> True | c # _ \<Rightarrow> char_is_whitespace c \<or> c = CHR '';'')"

text \<open>The lexer behind a word: at the end of the text it is in its last state.\<close>

definition after_word :: "string \<Rightarrow> lexer" where
  "after_word rest = \<lparr>lx_txt = rest, lx_state = (if rest = [] then LS_EOF else LS_RestOfLine)\<rparr>"

lemma after_word_Cons [simp]: "after_word (c # rest) = \<lparr>lx_txt = c # rest, lx_state = LS_RestOfLine\<rparr>"
  by (simp add: after_word_def)

lemma lex_loop_chars:
  assumes "list_all (\<lambda>c. is_word c \<and> c \<noteq> CHR '')'' \<and> c \<noteq> CHR '';'') w" "length w \<le> n"
  shows "lex_loop n \<lparr>lx_txt = w @ rest, lx_state = LS_CharData b\<rparr> vec (Some s) =
    lex_loop (n - length w) \<lparr>lx_txt = rest, lx_state = LS_CharData b\<rparr> vec (Some (s @ w))"
  using assms
proof (induction w arbitrary: n s)
  case (Cons c w)
  then obtain m where "n = Suc m" by (cases n) auto
  with Cons show ?case by (simp add: lex_defs is_word_not)
qed simp

lemma lex_loop_blanks:
  "k \<le> n \<Longrightarrow> lex_loop n \<lparr>lx_txt = replicate k CHR '' '' @ rest, lx_state = LS_RestOfLine\<rparr> vec data =
     lex_loop (n - k) \<lparr>lx_txt = rest, lx_state = LS_RestOfLine\<rparr> vec data"
proof (induction k arbitrary: n)
  case (Suc k)
  then obtain m where "n = Suc m" by (cases n) auto
  with Suc show ?case by (simp add: lex_defs is_eol_def char_is_whitespace_def)
qed simp

lemma rest_word:
  assumes "plain_word w" "ends_word rest" "length w + 2 \<le> n"
  shows "lex_loop n \<lparr>lx_txt = w @ rest, lx_state = LS_RestOfLine\<rparr> vec data =
    Ok (Some (Tok_CharData w), after_word rest)"
proof -
  obtain m where n: "n = Suc m" "length w < m" using assms(3) by (cases n) auto
  obtain c w' where w: "w = c # w'" using assms(1) by (cases w) (auto simp: plain_word_def)
  have "lex_loop n \<lparr>lx_txt = w @ rest, lx_state = LS_RestOfLine\<rparr> vec data =
      lex_loop m \<lparr>lx_txt = w @ rest, lx_state = LS_CharData False\<rparr> vec (Some [])"
    using assms(1) by (simp add: n w lex_defs plain_word_def is_word_not)
  also have "\<dots> = lex_loop (m - length w) \<lparr>lx_txt = rest, lx_state = LS_CharData False\<rparr> vec (Some w)"
    using assms(1) n(2) by (subst lex_loop_chars) (simp_all add: plain_word_def)
  also have "\<dots> = Ok (Some (Tok_CharData w), after_word rest)"
    using assms(2) n(2) by (cases "m - length w"; cases rest) (auto simp: ends_word_def lex_defs char_is_whitespace_def after_word_def)
  finally show ?thesis .
qed

lemma next_token_word:
  assumes "plain_word w" "ends_word rest" "k + length w \<le> 4092"
  shows "next_token \<lparr>lx_txt = replicate k CHR '' '' @ w @ rest, lx_state = LS_RestOfLine\<rparr> =
    Ok (Some (Tok_CharData w), after_word rest)"
  unfolding next_token_def using assms by (subst lex_loop_blanks) (auto intro: rest_word)

lemma next_token_first_word:
  assumes "plain_word w" "ends_word rest" "length w \<le> 4092"
  shows "next_token \<lparr>lx_txt = w @ rest, lx_state = LS_StartLine\<rparr> =
    Ok (Some (Tok_CharData w), after_word rest)"
proof -
  obtain c w' where w: "w = c # w'" using assms(1) by (cases w) (auto simp: plain_word_def)
  have "next_token \<lparr>lx_txt = w @ rest, lx_state = LS_StartLine\<rparr> =
      lex_loop 4094 \<lparr>lx_txt = w @ rest, lx_state = LS_RestOfLine\<rparr> None None"
    using assms(1) lex_loop.simps(2) [of 4094]
    by (simp add: next_token_def w lex_step_def step_start_def lx_peek_def lx_goto_def plain_word_def is_word_not)
  with rest_word [OF assms(1,2), of 4094] assms(3) show ?thesis by simp
qed

lemma next_token_eol:
  "next_token \<lparr>lx_txt = CHR 0x0A # rest, lx_state = LS_RestOfLine\<rparr> = Ok (Some Tok_EOL, \<lparr>lx_txt = rest, lx_state = LS_StartLine\<rparr>)"
  using lex_loop.simps(2) [of 4094] lex_loop.simps(2) [of 4093]
  by (simp add: next_token_def lex_defs is_eol_def)

lemma next_token_after_end: "next_token (after_word []) = Ok (None, \<lparr>lx_txt = [], lx_state = LS_EOF\<rparr>)"
  using lex_loop.simps(2) [of 4094] by (simp add: next_token_def after_word_def lex_defs)

lemma next_token_end: "next_token \<lparr>lx_txt = [], lx_state = LS_StartLine\<rparr> = Ok (None, \<lparr>lx_txt = [], lx_state = LS_EOF\<rparr>)"
  using lex_loop.simps(2) [of 4094] lex_loop.simps(2) [of 4093] by (simp add: next_token_def lex_defs)

end
