(* ===== verification/Master_Parser.thy ===== *)
theory Master_Parser
  imports Zone_Updates Rdata_Text Master_Lex
begin

text \<open>
  The parser of master files (\<open>client/src/serialize/txt/master.rs\<close>): the times of TTL fields, the
  state machine over the tokens of the lexer, and the records it collects. The loop ends because
  every token leaves the lexer closer to the end of the text.
\<close>

section \<open>Times\<close>

definition mul_u32 :: "u32 \<Rightarrow> u32 \<Rightarrow> (u32, parse_error) outcome" where
  "mul_u32 a b = (if uint a * uint b < 4294967296 then Ok (a * b) else Panic)"

definition add_u32 :: "u32 \<Rightarrow> u32 \<Rightarrow> (u32, parse_error) outcome" where
  "add_u32 a b = (if uint a + uint b < 4294967296 then Ok (a + b) else Panic)"

definition time_unit :: "char \<Rightarrow> u32 option" where
  "time_unit c =
     (if c = CHR ''S'' \<or> c = CHR ''s'' then Some 1
      else if c = CHR ''M'' \<or> c = CHR ''m'' then Some 60
      else if c = CHR ''H'' \<or> c = CHR ''h'' then Some 3600
      else if c = CHR ''D'' \<or> c = CHR ''d'' then Some 86400
      else if c = CHR ''W'' \<or> c = CHR ''w'' then Some 604800
      else None)"

fun parse_time_loop :: "string \<Rightarrow> string \<Rightarrow> u32 \<Rightarrow> u32 \<Rightarrow> (u32, parse_error) outcome" where
  "parse_time_loop ttl_str [] value collect = add_u32 value collect"
| "parse_time_loop ttl_str (c # cs) value collect =
     (case to_digit c of
        Some d \<Rightarrow>
          bind_outcome (mul_u32 collect 10) (\<lambda>collect.
          bind_outcome (add_u32 collect d) (\<lambda>collect.
          parse_time_loop ttl_str cs value collect))
      | None \<Rightarrow>
          (case time_unit c of
             Some u \<Rightarrow>
               bind_outcome (mul_u32 collect u) (\<lambda>t.
               bind_outcome (add_u32 value t) (\<lambda>value.
               parse_time_loop ttl_str cs value 0))
           | None \<Rightarrow> Err (PE_ParseTimeError ttl_str)))"

definition parse_time :: "string \<Rightarrow> (u32, parse_error) outcome" where
  "parse_time ttl_str = parse_time_loop ttl_str ttl_str 0 0"

section \<open>State\<close>

datatype parser_state = MS_StartLine | MS_TtlClassType | MS_Ttl | MS_Record | MS_Include | MS_Origin

record parser =
  p_records :: "(rr_key, rr_set) btree"
  p_origin :: "name option"
  p_name :: "name option"
  p_rtype :: "record_type option"
  p_ttl :: "u32 option"
  p_class :: "dns_class option"
  p_state :: parser_state
  p_tokens :: "token list"

definition parser_init :: "name option \<Rightarrow> parser" where
  "parser_init origin =
     \<lparr>p_records = [], p_origin = origin, p_name = None, p_rtype = None, p_ttl = None, p_class = None,
      p_state = MS_StartLine, p_tokens = []\<rparr>"

definition ok_or :: "'a option \<Rightarrow> string \<Rightarrow> ('a, parse_error) outcome" where
  "ok_or r msg = (case r of Some x \<Rightarrow> Ok x | None \<Rightarrow> Err (PE_Message msg))"

section \<open>Records\<close>

text \<open>
  The TTL of the record, and the default TTL from then on. The TTL of an SOA record is its expire
  field, and its minimum field is the default TTL if there is none yet.
\<close>

definition record_ttl :: "record_type \<Rightarrow> rdata \<Rightarrow> u32 option \<Rightarrow> (u32 \<times> u32 option, parse_error) outcome" where
  "record_ttl rtype rdata ttl =
     (if rtype = RT_SOA then
        (case rdata of
           RD_SOA soa \<Rightarrow> Ok (expire soa, case ttl of None \<Rightarrow> Some (minimum soa) | Some t \<Rightarrow> Some t)
         | _ \<Rightarrow> Panic)
      else bind_outcome (ok_or ttl ''record ttl not specified'') (\<lambda>t. Ok (t, ttl)))"

definition add_record :: "resource \<Rightarrow> (rr_key, rr_set) btree \<Rightarrow> ((rr_key, rr_set) btree, parse_error) outcome" where
  "add_record r records =
     (let key = rr_key_new (rr_name r) (rr_type r) in
      if rr_type r = RT_SOA then
        (case bt_get rr_key_cmp key records of
           Some _ \<Rightarrow> Err (PE_Message ''SOA is already specified'')
         | None \<Rightarrow> Ok (bt_insert rr_key_cmp key (rr_set_from r) records))
      else
        let s = (case bt_get rr_key_cmp key records of Some s \<Rightarrow> s | None \<Rightarrow> rr_set_new (rr_name r) (rr_type r) 0)
        in bind_outcome (infallible (rr_set_insert r 0 s)) (\<lambda>(_, s'). Ok (bt_insert rr_key_cmp key s' records)))"

definition finish_record :: "parser \<Rightarrow> (parser, parse_error) outcome" where
  "finish_record p =
     bind_outcome (ok_or (p_rtype p) ''record type not specified'') (\<lambda>rtype.
     bind_outcome (rdata_parse rtype (p_tokens p) (p_origin p)) (\<lambda>rdata.
     bind_outcome (ok_or (p_name p) ''record name not specified'') (\<lambda>name.
     bind_outcome (ok_or (p_class p) ''record class not specified'') (\<lambda>cls.
     bind_outcome (record_ttl rtype rdata (p_ttl p)) (\<lambda>(ttl, default_ttl).
     bind_outcome (add_record \<lparr>rr_name = name, rr_type = rtype, rr_class = cls, rr_ttl = ttl, rr_rdata = rdata\<rparr> (p_records p))
       (\<lambda>records. Ok (p\<lparr>p_records := records, p_ttl := default_ttl, p_state := MS_StartLine\<rparr>)))))))"

section \<open>The state machine\<close>

definition start_line :: "token \<Rightarrow> parser \<Rightarrow> (parser, parse_error) outcome" where
  "start_line t p =
     (let p = p\<lparr>p_rtype := None, p_tokens := []\<rparr> in
      case t of
        Tok_Include \<Rightarrow> Panic
      | Tok_Origin \<Rightarrow> Ok (p\<lparr>p_state := MS_Origin\<rparr>)
      | Tok_Ttl \<Rightarrow> Ok (p\<lparr>p_state := MS_Ttl\<rparr>)
      | Tok_CharData data \<Rightarrow>
          bind_outcome (name_parse data (p_origin p)) (\<lambda>name.
          Ok (p\<lparr>p_name := Some name, p_state := MS_TtlClassType\<rparr>))
      | Tok_At \<Rightarrow> Ok (p\<lparr>p_name := p_origin p, p_state := MS_TtlClassType\<rparr>)
      | Tok_Blank \<Rightarrow> Ok (p\<lparr>p_state := MS_TtlClassType\<rparr>)
      | Tok_EOL \<Rightarrow> Ok (p\<lparr>p_state := MS_StartLine\<rparr>)
      | _ \<Rightarrow> Err (PE_UnexpectedToken t))"

text \<open>A word is a TTL if it reads as a time, else a class, else it must be a type.\<close>

definition ttl_class_type :: "token \<Rightarrow> parser \<Rightarrow> (parser, parse_error) outcome" where
  "ttl_class_type t p =
     (case t of
        Tok_CharData data \<Rightarrow>
          (case parse_time data of
             Ok ttl \<Rightarrow> Ok (p\<lparr>p_ttl := Some ttl\<rparr>)
           | Err _ \<Rightarrow>
               (case class_from_str data of
                  Ok cls \<Rightarrow> Ok (p\<lparr>p_class := Some cls\<rparr>)
                | Err _ \<Rightarrow>
                    (case rt_from_str data of
                       Ok rtype \<Rightarrow> Ok (p\<lparr>p_rtype := Some rtype, p_state := MS_Record\<rparr>)
                     | Err e \<Rightarrow> Err (parse_error.PE_Decode e)
                     | Panic \<Rightarrow> Panic
                     | Overrun \<Rightarrow> Overrun)
                | Panic \<Rightarrow> Panic
                | Overrun \<Rightarrow> Overrun)
           | Panic \<Rightarrow> Panic
           | Overrun \<Rightarrow> Overrun)
      | Tok_EOL \<Rightarrow> Ok (p\<lparr>p_state := MS_StartLine\<rparr>)
      | _ \<Rightarrow> Err (PE_UnexpectedToken t))"

definition master_step :: "token \<Rightarrow> parser \<Rightarrow> (parser, parse_error) outcome" where
  "master_step t p =
     (case p_state p of
        MS_StartLine \<Rightarrow> start_line t p
      | MS_Ttl \<Rightarrow>
          (case t of
             Tok_CharData data \<Rightarrow>
               bind_outcome (parse_time data) (\<lambda>ttl. Ok (p\<lparr>p_ttl := Some ttl, p_state := MS_StartLine\<rparr>))
           | _ \<Rightarrow> Err (PE_UnexpectedToken t))
      | MS_Origin \<Rightarrow>
          (case t of
             Tok_CharData data \<Rightarrow>
               bind_outcome (name_parse data None) (\<lambda>name. Ok (p\<lparr>p_origin := Some name, p_state := MS_StartLine\<rparr>))
           | _ \<Rightarrow> Err (PE_UnexpectedToken t))
      | MS_Include \<Rightarrow> Panic
      | MS_TtlClassType \<Rightarrow> ttl_class_type t p
      | MS_Record \<Rightarrow>
          (case t of
             Tok_EOL \<Rightarrow> finish_record p
           | _ \<Rightarrow> Ok (p\<lparr>p_tokens := p_tokens p @ [t]\<rparr>)))"

function master_loop :: "lexer \<Rightarrow> parser \<Rightarrow> (parser, parse_error) outcome" where
  "master_loop lx p =
     (case next_token lx of
        Ok (Some t, lx') \<Rightarrow> bind_outcome (master_step t p) (\<lambda>p'. master_loop lx' p')
      | Ok (None, _) \<Rightarrow> Ok p
      | Err e \<Rightarrow> Err (PE_Lexer e)
      | Panic \<Rightarrow> Panic
      | Overrun \<Rightarrow> Overrun)"
  by pat_completeness auto

termination
  by (relation "measure (\<lambda>(lx, _). lex_measure lx)") (auto dest: next_token_progress)

declare master_loop.simps [simp del]

definition master_parse :: "lexer \<Rightarrow> name option \<Rightarrow> (name \<times> (rr_key, rr_set) btree, parse_error) outcome" where
  "master_parse lexer origin =
     bind_outcome (master_loop lexer (parser_init origin)) (\<lambda>p.
     bind_outcome (ok_or (p_origin p) ''$ORIGIN was not specified'') (\<lambda>origin.
     Ok (origin, p_records p)))"

section \<open>Lemmas on times\<close>

lemma uint_of_int_u32: "0 \<le> n \<Longrightarrow> n < 4294967296 \<Longrightarrow> uint (of_int n :: u32) = n"
  by (simp add: unsigned_of_int take_bit_int_eq_self)

lemma mul_u32_of_int: "0 \<le> a \<Longrightarrow> 0 \<le> b \<Longrightarrow> a < 4294967296 \<Longrightarrow> b < 4294967296 \<Longrightarrow> a * b < 4294967296 \<Longrightarrow>
    mul_u32 (of_int a) (of_int b) = Ok (of_int (a * b))"
  by (simp add: mul_u32_def uint_of_int_u32)

lemma add_u32_of_int: "0 \<le> a \<Longrightarrow> 0 \<le> b \<Longrightarrow> a + b < 4294967296 \<Longrightarrow> add_u32 (of_int a) (of_int b) = Ok (of_int (a + b))"
  by (simp add: add_u32_def uint_of_int_u32)

lemma parse_time_decimal:
  "0 \<le> n \<Longrightarrow> n < 4294967296 \<Longrightarrow>
     parse_time_loop str (decimal n @ rest) v 0 = parse_time_loop str rest v (of_int n)"
proof (induction n arbitrary: rest rule: decimal_induct)
  case (digit n)
  then show ?case using mul_u32_of_int [of 0 10] add_u32_of_int [of 0 n] by simp
next
  case (more n)
  have small: "0 \<le> n div 10" "0 \<le> n mod 10" "n mod 10 < 10" "n div 10 * 10 + n mod 10 = n" "n div 10 < 4294967296"
    using more(1,4) by simp_all
  have "n div 10 * 10 < 4294967296" using small more(4) by linarith
  then show ?case
    using more(2-4) small mul_u32_of_int [of "n div 10" 10] add_u32_of_int [of "n div 10 * 10" "n mod 10"] by simp
qed

text \<open>A time as it is written: numbers with their units, then a number of seconds.\<close>

definition time_text :: "(int \<times> char) list \<Rightarrow> int \<Rightarrow> string" where
  "time_text parts k = concat (map (\<lambda>(n, u). decimal n @ [u]) parts) @ decimal k"

definition unit_seconds :: "char \<Rightarrow> int" where
  "unit_seconds u = (case time_unit u of Some m \<Rightarrow> uint m | None \<Rightarrow> 0)"

definition seconds :: "(int \<times> char) list \<Rightarrow> int" where
  "seconds parts = sum_list (map (\<lambda>(n, u). n * unit_seconds u) parts)"

definition time_parts :: "(int \<times> char) list \<Rightarrow> bool" where
  "time_parts parts \<longleftrightarrow> list_all (\<lambda>(n, u). 0 \<le> n \<and> time_unit u \<noteq> None) parts"

lemma time_unit_cases:
  assumes "time_unit u = Some m"
  shows "m = of_int (unit_seconds u) \<and> 1 \<le> unit_seconds u \<and> unit_seconds u < 4294967296 \<and> to_digit u = None"
proof -
  have "u \<in> set ''SsMmHhDdWw''" using assms by (auto simp: time_unit_def split: if_splits)
  moreover have "list_all (\<lambda>u. (case time_unit u of Some m \<Rightarrow> m = of_int (unit_seconds u) | None \<Rightarrow> False) \<and>
      1 \<le> unit_seconds u \<and> unit_seconds u < 4294967296 \<and> to_digit u = None) ''SsMmHhDdWw''"
    by code_simp
  ultimately show ?thesis using assms unfolding list_all_iff by fastforce
qed

lemma seconds_nonneg: "time_parts parts \<Longrightarrow> 0 \<le> seconds parts"
  by (induction parts) (auto simp: seconds_def time_parts_def dest!: time_unit_cases)

lemma parse_time_parts:
  assumes "time_parts parts" "0 \<le> v" "v + seconds parts < 4294967296"
  shows "parse_time_loop str (concat (map (\<lambda>(n, u). decimal n @ [u]) parts) @ rest) (of_int v) 0 =
    parse_time_loop str rest (of_int (v + seconds parts)) 0"
  using assms
proof (induction parts arbitrary: v)
  case (Cons p parts)
  obtain n u m where p: "p = (n, u)" "0 \<le> n" "time_unit u = Some m" "time_parts parts"
    using Cons.prems(1) by (cases p) (auto simp: time_parts_def)
  note u = time_unit_cases [OF p(3)]
  let ?t = "n * unit_seconds u"
  have sum: "seconds (p # parts) = ?t + seconds parts" "0 \<le> seconds parts" "0 \<le> ?t" "n \<le> ?t"
    using p(1,2) u seconds_nonneg [OF p(4)] by (auto simp: seconds_def mult_le_cancel_left1)
  have "parse_time_loop str (decimal n @ u # rest') (of_int v) 0 = parse_time_loop str rest' (of_int (v + ?t)) 0" for rest'
    using p(2,3) u sum Cons.prems(2,3) mul_u32_of_int [of n "unit_seconds u"] add_u32_of_int [of v ?t]
    by (subst parse_time_decimal) simp_all
  with Cons.IH [OF p(4), of "v + ?t"] sum p(1) Cons.prems(2,3) show ?case by (simp add: add.assoc)
qed (simp add: seconds_def)

text \<open>
  A TTL is read as it is meant: numbers with the units of seconds, minutes, hours, days and weeks
  add up, with a number of seconds at the end, as long as the sum fits 32 bits.
\<close>
lemma parse_time_meaning:
  assumes "time_parts parts" "0 \<le> k" "seconds parts + k < 4294967296"
  shows "\<exists>t. parse_time (time_text parts k) = Ok t \<and> uint t = seconds parts + k"
proof -
  have "parse_time (time_text parts k) = Ok (of_int (seconds parts + k))"
    using assms seconds_nonneg [OF assms(1)] parse_time_parts [OF assms(1), of 0 _ "decimal k"]
      parse_time_decimal [of k "time_text parts k" "[]" "of_int (seconds parts)"] add_u32_of_int [of "seconds parts" k]
    by (simp add: parse_time_def time_text_def)
  moreover have "uint (of_int (seconds parts + k) :: u32) = seconds parts + k"
    using assms seconds_nonneg [OF assms(1)] by (intro uint_of_int_u32) simp_all
  ultimately show ?thesis by blast
qed

section \<open>Printed records\<close>

text \<open>The tokens of the data as they are written; the numbers of an SOA record stand in parentheses.\<close>

fun rdata_tokens :: "rdata \<Rightarrow> token list option" where
  "rdata_tokens (RD_A a) = Some [Tok_CharData (dotted a)]"
| "rdata_tokens (RD_AAAA a) = Some [Tok_CharData (ipv6_text a)]"
| "rdata_tokens (RD_CNAME n) = Some [Tok_CharData (name_to_string n)]"
| "rdata_tokens (RD_NS n) = Some [Tok_CharData (name_to_string n)]"
| "rdata_tokens (RD_PTR n) = Some [Tok_CharData (name_to_string n)]"
| "rdata_tokens (RD_MX m) =
     Some [Tok_CharData (decimal (uint (mx_preference m))), Tok_CharData (name_to_string (mx_exchange m))]"
| "rdata_tokens (RD_SOA s) =
     Some [Tok_CharData (name_to_string (mname s)), Tok_CharData (name_to_string (rname s)),
       Tok_List [decimal (uint (serial s)), signed_decimal (sint (refresh s)), signed_decimal (sint (retry s)),
         signed_decimal (sint (expire s)), decimal (uint (minimum s))]]"
| "rdata_tokens (RD_SRV s) =
     Some (map Tok_CharData [decimal (uint (srv_priority s)), decimal (uint (srv_weight s)), decimal (uint (srv_port s)),
       name_to_string (srv_target s)])"
| "rdata_tokens (RD_TXT t) = Some (map Tok_CharData (txt_data t))"
| "rdata_tokens _ = None"

fun rdata_plain :: "rdata \<Rightarrow> bool" where
  "rdata_plain (RD_CNAME n) = plain_name n"
| "rdata_plain (RD_NS n) = plain_name n"
| "rdata_plain (RD_PTR n) = plain_name n"
| "rdata_plain (RD_MX m) = plain_name (mx_exchange m)"
| "rdata_plain (RD_SOA s) = (plain_name (mname s) \<and> plain_name (rname s))"
| "rdata_plain (RD_SRV s) = plain_name (srv_target s)"
| "rdata_plain _ = True"

definition word_ok :: "string \<Rightarrow> bool" where
  "word_ok w \<longleftrightarrow> plain_word w \<and> length w \<le> 4000"

fun token_ok :: "token \<Rightarrow> bool" where
  "token_ok (Tok_CharData w) = word_ok w"
| "token_ok (Tok_List ws) = (list_all plain_word ws \<and> sum_list (map (\<lambda>w. length w + 3) ws) \<le> 4000)"
| "token_ok _ = False"

definition tokens_of :: "resource \<Rightarrow> token list" where
  "tokens_of r = (case rdata_tokens (rr_rdata r) of Some ts \<Rightarrow> ts | None \<Rightarrow> [])"

text \<open>
  A record that can be written without quotes or escapes. The TTL of an SOA record is its expire field,
  which is what the parser makes of it.
\<close>

definition printable :: "resource \<Rightarrow> bool" where
  "printable r \<longleftrightarrow>
     rr_class r = CL_IN \<and> rr_type r = to_record_type (rr_rdata r) \<and> plain_name (rr_name r) \<and>
     word_ok (name_to_string (rr_name r)) \<and> rdata_plain (rr_rdata r) \<and> rdata_tokens (rr_rdata r) \<noteq> None \<and>
     list_all token_ok (tokens_of r) \<and>
     (case rr_rdata r of RD_SOA soa \<Rightarrow> rr_ttl r = expire soa | _ \<Rightarrow> True)"

definition spaced :: "string list \<Rightarrow> string" where
  "spaced ws = concat (map ((#) CHR '' '') ws)"

fun token_text :: "token \<Rightarrow> string" where
  "token_text (Tok_CharData w) = CHR '' '' # w"
| "token_text (Tok_List ws) = '' ('' @ spaced ws @ '' )''"
| "token_text _ = []"

text \<open>A line without its end: owner, TTL, class, type and data.\<close>

definition record_text :: "resource \<Rightarrow> string" where
  "record_text r =
     name_to_string (rr_name r) @ spaced [decimal (uint (rr_ttl r)), ''IN'', rt_to_str (rr_type r)] @
     concat (map token_text (tokens_of r))"

definition record_line :: "resource \<Rightarrow> string" where
  "record_line r = record_text r @ [CHR 0x0A]"

lemma parse_u16_decimal: "parse_u16 (decimal (uint x)) = Ok x"
proof -
  have "uint x < 65536" using uint_lt2p [of x] by simp
  then show ?thesis by (simp add: parse_u16_def parse_unsigned_decimal int_result_def)
qed

lemma txt_parse_words: "txt_parse_loop (map Tok_CharData ws) data = Ok \<lparr>txt_data = data @ ws\<rparr>"
  by (induction ws arbitrary: data) simp_all

lemma soa_parse_tokens:
  assumes "plain_name (mname s)" "plain_name (rname s)" "rdata_tokens (RD_SOA s) = Some ts"
  shows "soa_parse ts origin = Ok s"
  using assms
  by (auto simp: soa_parse_def soa_list_def next_data_def next_item_def name_parse_printed parse_u32_decimal parse_i32_decimal)

lemma rdata_parse_tokens:
  assumes "rdata_tokens d = Some ts" "rdata_plain d"
  shows "rdata_parse (to_record_type d) ts origin = Ok d"
proof (cases "is_soa d")
  case True
  then obtain s where "d = RD_SOA s" by (cases d) auto
  with assms soa_parse_tokens [of s ts origin] show ?thesis by (simp add: map_ok_def)
next
  case False
  with assms show ?thesis
    by (cases d) (auto simp: map_ok_def a_parse_def aaaa_parse_def name_rdata_parse_def mx_parse_def srv_parse_def txt_parse_def
      next_data_def dotted_roundtrip ipv6_text_roundtrip name_parse_printed parse_u16_decimal txt_parse_words)
qed

lemma digit_word: "0 \<le> n \<Longrightarrow> list_all (\<lambda>c. is_word c \<and> c \<noteq> CHR '')'' \<and> c \<noteq> CHR '';'' \<and> c \<notin> {CHR ''@'', CHR ''('', CHR ''$'', CHR 0x22}) (decimal n)"
proof (erule list_all_decimal)
  fix d :: int
  assume "0 \<le> d" "d < 10"
  then have n: "(of_char (digit_char d) :: nat) = 48 + nat d" "nat d < 10" by (simp_all add: digit_char_code)
  have "digit_char d \<noteq> c" if "(of_char c :: nat) < 48 \<or> (of_char c :: nat) > 57" for c
    using n that by auto
  with n show "is_word (digit_char d) \<and> digit_char d \<noteq> CHR '')'' \<and> digit_char d \<noteq> CHR '';'' \<and>
      digit_char d \<notin> {CHR ''@'', CHR ''('', CHR ''$'', CHR 0x22}"
    by (auto simp: is_word_def char_is_control_def char_is_whitespace_def)
qed

lemma decimal_length: "0 \<le> n \<Longrightarrow> n < 10 ^ k \<Longrightarrow> length (decimal n) \<le> max 1 k"
proof (induction n arbitrary: k rule: decimal_induct)
  case (more n)
  obtain j where k: "k = Suc j" using more(1,4) by (cases k) auto
  have "n div 10 < 10 ^ j" using more(1,4) k by simp
  moreover have "0 < j"
  proof (rule ccontr)
    assume "\<not> 0 < j"
    with more(1,4) k show False by simp
  qed
  ultimately show ?case using more(3) [of j] more(2) k by simp
qed simp

lemma decimal_word: "word_ok (decimal (uint (t :: u32)))"
proof -
  have "uint t < 10 ^ 10" using uint_lt2p [of t] by simp
  then have "length (decimal (uint t)) \<le> 10" using decimal_length [of "uint t" 10] by simp
  with digit_word [of "uint t"] show ?thesis
    by (cases "decimal (uint t)") (auto simp: word_ok_def plain_word_def list_all_iff)
qed

section \<open>Parsing printed records\<close>

lemma word_okD: "word_ok w \<Longrightarrow> plain_word w \<and> length w \<le> 4092"
  by (simp add: word_ok_def)

lemma ends_word_simps [simp]: "ends_word (CHR '' '' # cs)" "ends_word (CHR 0x0A # cs)"
  by (simp_all add: ends_word_def char_is_whitespace_def)

lemma master_loop_word:
  assumes "word_ok w" "ends_word rest"
  shows "master_loop \<lparr>lx_txt = CHR '' '' # w @ rest, lx_state = LS_RestOfLine\<rparr> p =
    bind_outcome (master_step (Tok_CharData w) p) (master_loop (after_word rest))"
  using next_token_word [of w rest 1] assms by (simp add: master_loop.simps [of "\<lparr>lx_txt = CHR '' '' # _, lx_state = _\<rparr>"] word_ok_def)

lemma master_loop_first:
  assumes "word_ok w" "ends_word rest"
  shows "master_loop \<lparr>lx_txt = w @ rest, lx_state = LS_StartLine\<rparr> p =
    bind_outcome (master_step (Tok_CharData w) p) (master_loop (after_word rest))"
  using next_token_first_word [of w rest] assms word_okD by (subst master_loop.simps) simp

lemma master_loop_eol:
  "master_loop \<lparr>lx_txt = CHR 0x0A # rest, lx_state = LS_RestOfLine\<rparr> p =
     bind_outcome (master_step Tok_EOL p) (master_loop \<lparr>lx_txt = rest, lx_state = LS_StartLine\<rparr>)"
  by (subst master_loop.simps) (simp add: next_token_eol)

lemma master_loop_end: "master_loop \<lparr>lx_txt = [], lx_state = LS_StartLine\<rparr> p = Ok p"
  by (subst master_loop.simps) (simp add: next_token_end)

lemma master_loop_after_end: "master_loop (after_word []) p = Ok p"
  by (subst master_loop.simps) (simp add: next_token_after_end)

lemma spaced_simps: "spaced [] = []" "spaced (w # ws) = CHR '' '' # w @ spaced ws"
  by (simp_all add: spaced_def)

text \<open>The lexer behind a token; at the end of the text its states make no difference to the parser.\<close>

abbreviation rest_of_line :: "string \<Rightarrow> lexer" where
  "rest_of_line rest \<equiv> \<lparr>lx_txt = rest, lx_state = LS_RestOfLine\<rparr>"

lemma master_loop_rest_end: "master_loop (rest_of_line []) p = Ok p"
  using lex_loop.simps(2) [of 4094] lex_loop.simps(2) [of 4093]
  by (subst master_loop.simps) (simp add: next_token_def lex_defs)

lemma master_loop_after: "master_loop (after_word rest) p = master_loop (rest_of_line rest) p"
  by (cases rest) (simp_all add: master_loop_after_end master_loop_rest_end)

lemma lex_list_word:
  assumes "plain_word w" "ends_word rest" "rest \<noteq> []" "length w + 3 \<le> n"
  shows "lex_loop n \<lparr>lx_txt = CHR '' '' # w @ rest, lx_state = LS_List\<rparr> (Some v) None =
    lex_loop (n - (length w + 3)) \<lparr>lx_txt = rest, lx_state = LS_List\<rparr> (Some (v @ [w])) None"
proof -
  obtain m where n: "n = Suc (Suc m)" "length w < m" using assms(4) by (cases n; cases "n - 1") auto
  obtain c w' where w: "w = c # w'" using assms(1) by (cases w) (auto simp: plain_word_def)
  obtain d rest' where rest: "rest = d # rest'" using assms(3) by (cases rest) auto
  have "lex_loop n \<lparr>lx_txt = CHR '' '' # w @ rest, lx_state = LS_List\<rparr> (Some v) None =
      lex_loop m \<lparr>lx_txt = w @ rest, lx_state = LS_CharData True\<rparr> (Some v) (Some [])"
    using assms(1) char_is_whitespace_def [of "CHR '' ''"] by (simp add: n w lex_defs plain_word_def is_word_not)
  also have "\<dots> = lex_loop (m - length w) \<lparr>lx_txt = rest, lx_state = LS_CharData True\<rparr> (Some v) (Some w)"
    using assms(1) n(2) by (subst lex_loop_chars) (simp_all add: plain_word_def)
  also have "\<dots> = lex_loop (m - length w - 1) \<lparr>lx_txt = rest, lx_state = LS_List\<rparr> (Some (v @ [w])) None"
    using assms(2) n(2) by (cases "m - length w") (auto simp: rest ends_word_def lex_defs char_is_whitespace_def)
  finally show ?thesis by (simp add: n)
qed

lemma lex_list_words:
  assumes "list_all plain_word ws" "sum_list (map (\<lambda>w. length w + 3) ws) + 2 \<le> n"
  shows "lex_loop n \<lparr>lx_txt = spaced ws @ '' )'' @ rest, lx_state = LS_List\<rparr> (Some v) None =
    Ok (Some (Tok_List (v @ ws)), rest_of_line rest)"
  using assms
proof (induction ws arbitrary: n v)
  case Nil
  then obtain m where "n = Suc (Suc m)" by (cases n; cases "n - 1") auto
  then show ?case by (simp add: spaced_simps lex_defs char_is_whitespace_def)
next
  case (Cons w ws)
  have "ends_word (spaced ws @ '' )'' @ rest)" "spaced ws @ '' )'' @ rest \<noteq> []" by (cases ws; simp add: spaced_simps)+
  with Cons.prems Cons.IH [of "n - (length w + 3)" "v @ [w]"] show ?case
    by (simp add: spaced_simps(2) lex_list_word)
qed

lemma next_token_list:
  assumes "token_ok (Tok_List ws)"
  shows "next_token (rest_of_line (token_text (Tok_List ws) @ rest)) = Ok (Some (Tok_List ws), rest_of_line rest)"
proof -
  have "next_token (rest_of_line (token_text (Tok_List ws) @ rest)) =
      lex_loop 4093 \<lparr>lx_txt = spaced ws @ '' )'' @ rest, lx_state = LS_List\<rparr> (Some []) None"
    using lex_loop.simps(2) [of 4094] lex_loop.simps(2) [of 4093]
    by (simp add: next_token_def lex_defs is_eol_def char_is_whitespace_def)
  with assms lex_list_words [of ws 4093 rest "[]"] show ?thesis by simp
qed

lemma master_loop_token:
  assumes "token_ok t" "ends_word rest" "p_state p = MS_Record"
  shows "master_loop (rest_of_line (token_text t @ rest)) p =
    master_loop (rest_of_line rest) (p\<lparr>p_tokens := p_tokens p @ [t]\<rparr>)"
  using assms(1)
proof (cases t rule: token_ok.cases)
  case (1 w)
  with assms master_loop_word [of w rest p] show ?thesis by (simp add: master_step_def master_loop_after)
next
  case (2 ws)
  with assms next_token_list [of ws rest] show ?thesis by (subst master_loop.simps) (simp add: master_step_def)
qed simp_all

lemma ends_word_tokens:
  assumes "ends_word rest" "list_all token_ok ts"
  shows "ends_word (concat (map token_text ts) @ rest)"
proof (cases ts)
  case (Cons t ts')
  with assms(2) show ?thesis by (cases t rule: token_ok.cases) simp_all
qed (use assms(1) in simp)

lemma master_loop_data:
  assumes "list_all token_ok ts" "ends_word rest" "p_state p = MS_Record"
  shows "master_loop (rest_of_line (concat (map token_text ts) @ rest)) p =
    master_loop (rest_of_line rest) (p\<lparr>p_tokens := p_tokens p @ ts\<rparr>)"
  using assms(1,3)
proof (induction ts arbitrary: p)
  case (Cons t ts)
  with master_loop_token [of t "concat (map token_text ts) @ rest" p] ends_word_tokens [OF assms(2), of ts] show ?case by simp
qed simp

lemma header_words:
  assumes "rdata_tokens d \<noteq> None"
  shows "word_ok ''IN''" "word_ok (rt_to_str (to_record_type d))"
    "parse_time ''IN'' = Err (PE_ParseTimeError ''IN'')"
    "parse_time (rt_to_str (to_record_type d)) = Err (PE_ParseTimeError (rt_to_str (to_record_type d)))"
    "class_from_str (rt_to_str (to_record_type d)) = Err (UnknownDnsClassStr (rt_to_str (to_record_type d)))"
    "rt_from_str (rt_to_str (to_record_type d)) = Ok (to_record_type d)"
proof -
  have all: "list_all (\<lambda>t. word_ok (rt_to_str t) \<and> parse_time (rt_to_str t) = Err (PE_ParseTimeError (rt_to_str t)) \<and>
      class_from_str (rt_to_str t) = Err (UnknownDnsClassStr (rt_to_str t)) \<and> rt_from_str (rt_to_str t) = Ok t)
    [RT_A, RT_AAAA, RT_CNAME, RT_NS, RT_PTR, RT_MX, RT_SOA, RT_SRV, RT_TXT]" by code_simp
  moreover have "to_record_type d \<in> set [RT_A, RT_AAAA, RT_CNAME, RT_NS, RT_PTR, RT_MX, RT_SOA, RT_SRV, RT_TXT]"
    using assms by (cases d) simp_all
  ultimately show "word_ok (rt_to_str (to_record_type d))"
    "parse_time (rt_to_str (to_record_type d)) = Err (PE_ParseTimeError (rt_to_str (to_record_type d)))"
    "class_from_str (rt_to_str (to_record_type d)) = Err (UnknownDnsClassStr (rt_to_str (to_record_type d)))"
    "rt_from_str (rt_to_str (to_record_type d)) = Ok (to_record_type d)"
    unfolding list_all_iff by blast+
  show "word_ok ''IN''" "parse_time ''IN'' = Err (PE_ParseTimeError ''IN'')" by code_simp+
qed

text \<open>The parser behind the words of a line.\<close>

definition behind :: "resource \<Rightarrow> parser \<Rightarrow> parser" where
  "behind r p =
     p\<lparr>p_name := Some (rr_name r), p_rtype := Some (rr_type r), p_ttl := Some (rr_ttl r), p_class := Some CL_IN,
       p_state := MS_Record, p_tokens := tokens_of r\<rparr>"

lemma behind_sel [simp]:
  "p_state (behind r p) = MS_Record" "p_records (behind r p) = p_records p" "p_origin (behind r p) = p_origin p"
  by (simp_all add: behind_def)

lemma parse_time_ttl: "parse_time (decimal (uint (t :: u32))) = Ok t"
proof -
  have "uint t < 4294967296" using uint_lt2p [of t] by simp
  then show ?thesis
    using parse_time_decimal [of "uint t" "decimal (uint t)" "[]" 0] by (simp add: parse_time_def add_u32_def)
qed

lemma master_loop_text:
  assumes "printable r" "ends_word rest" "p_state p = MS_StartLine"
  shows "master_loop \<lparr>lx_txt = record_text r @ rest, lx_state = LS_StartLine\<rparr> p =
    master_loop (rest_of_line rest) (behind r p)"
proof -
  note r = assms(1) [unfolded printable_def]
  note words = header_words [of "rr_rdata r"]
  have cls: "class_from_str ''IN'' = Ok CL_IN" by code_simp
  let ?data = "concat (map token_text (tokens_of r)) @ rest"
  have "ends_word ?data" using r assms(2) by (intro ends_word_tokens) simp_all
  then have "master_loop \<lparr>lx_txt = record_text r @ rest, lx_state = LS_StartLine\<rparr> p =
      master_loop (rest_of_line ?data) (behind r p\<lparr>p_tokens := []\<rparr>)"
    using r words assms(3) cls
    by (cases p) (simp add: record_text_def spaced_simps master_loop_first master_loop_word master_loop_word [of "''IN''", simplified]
        master_loop_after decimal_word parse_time_ttl master_step_def start_line_def ttl_class_type_def name_parse_printed behind_def)
  also have "\<dots> = master_loop (rest_of_line rest) (behind r p)"
    using r assms(2) by (subst master_loop_data) (simp_all add: behind_def)
  finally show ?thesis .
qed

lemma finish_behind:
  assumes "printable r"
  shows "finish_record (behind r p) =
    bind_outcome (add_record r (p_records p)) (\<lambda>records. Ok (behind r p\<lparr>p_records := records, p_state := MS_StartLine\<rparr>))"
proof -
  note r = assms [unfolded printable_def]
  obtain ts where ts: "rdata_tokens (rr_rdata r) = Some ts" using r by blast
  have "record_ttl (rr_type r) (rr_rdata r) (Some (rr_ttl r)) = Ok (rr_ttl r, Some (rr_ttl r))"
    using r by (cases "rr_rdata r") (auto simp: record_ttl_def ok_or_def)
  then show ?thesis
    using r ts rdata_parse_tokens [OF ts, of "p_origin p"]
    by (cases r; cases "add_record r (p_records p)") (simp_all add: finish_record_def behind_def ok_or_def tokens_of_def)
qed

section \<open>Zones from master files\<close>

text \<open>Records that do not repeat the data of another, where an SOA or CNAME record is the only one of its name.\<close>

definition replaces :: "resource \<Rightarrow> resource \<Rightarrow> bool" where
  "replaces r r' \<longleftrightarrow> same_key (rr_name r') (rr_type r') r \<and>
     (rr_type r \<in> {RT_SOA, RT_CNAME} \<or> rdata_eq (rr_rdata r) (rr_rdata r'))"

definition separate :: "resource list \<Rightarrow> bool" where
  "separate rs \<longleftrightarrow> sorted_wrt (\<lambda>r r'. \<not> replaces r r') rs"

lemma insert_fresh:
  assumes "same_owner s r" "\<not> holds (rs_records s) (rr_rdata r)" "rr_type r \<in> {RT_SOA, RT_CNAME} \<Longrightarrow> rs_records s = []"
  shows "\<exists>s'. rr_set_insert r 0 s = Ok (True, s') \<and> rs_records s' = rs_records s @ [r] \<and>
    rs_name s' = rs_name s \<and> rs_type s' = rs_type s"
proof -
  have "matching (rr_rdata r) (rs_records s) = []"
    using matching_from_none [OF assms(2), of 0] by (simp add: matching_def matching_from_def)
  moreover have "matching (rr_rdata r) [] = []" by (simp add: matching_def)
  ultimately show ?thesis
    using assms(1,3) by (auto simp: rr_set_insert_def insert_data_def same_owner_def Let_def rs_updated_def)
qed

lemma add_record_fresh:
  assumes "zone_inv a" "rr_class r = a_class a" "rr_type r = to_record_type (rr_rdata r)"
    "list_all (\<lambda>e. rs_records (snd e) \<noteq> []) (a_records a)"
    "\<not> holds (zone_get a (rr_name r) (rr_type r)) (rr_rdata r)"
    "rr_type r \<in> {RT_SOA, RT_CNAME} \<Longrightarrow> zone_get a (rr_name r) (rr_type r) = []"
  obtains s where "add_record r (a_records a) = Ok (bt_insert rr_key_cmp (rr_key_new (rr_name r) (rr_type r)) s (a_records a))"
    "rr_set_inv s" "name_eq (rr_name r) (rs_name s)" "rs_type s = rr_type r"
    "rs_records s = zone_get a (rr_name r) (rr_type r) @ [r]"
proof -
  let ?key = "rr_key_new (rr_name r) (rr_type r)" and ?s = "set_for a r 0"
  note s = set_for_props [OF assms(1), of r 0]
  have soa: "is_soa (rr_rdata r)" if "rr_type r = RT_SOA" using that assms(3) by (cases "rr_rdata r") auto
  obtain s' where s': "rr_set_insert r 0 ?s = Ok (True, s')" "rs_records s' = zone_get a (rr_name r) (rr_type r) @ [r]"
      "rs_name s' = rs_name ?s" "rs_type s' = rr_type r"
    using insert_fresh [OF s(2)] assms(5,6) s(3,4) by auto
  show thesis
  proof (cases "rr_type r = RT_SOA")
    case True
    have none: "bt_get rr_key_cmp ?key (a_records a) = None"
    proof (cases "bt_get rr_key_cmp ?key (a_records a)")
      case (Some x)
      then obtain k where "(k, x) \<in> set (a_records a)" using bt_get_mem by fast
      with assms(4) Some True assms(6) show ?thesis by (auto simp: list_all_iff zone_get_def)
    qed
    have "rr_set_inv (rr_set_from r)"
      using soa [OF True] by (simp add: rr_set_from_def rr_set_inv_def same_owner_def)
    with none True assms(6) show thesis
      by (intro that [of "rr_set_from r"]) (simp_all add: add_record_def rr_set_from_def)
  next
    case False
    have "rr_set_inv s'" using rr_set_insert_inv [OF s(1,2) _ s'(1)] soa s(3) by simp
    moreover have "name_eq (rr_name r) (rs_name s')" using s(2) s'(3) by (simp add: same_owner_def)
    ultimately show thesis
      using s'(1,2,4) False by (intro that [of s']) (simp_all add: add_record_def set_for_def Let_def)
  qed
qed

text \<open>The zone holds exactly the records of a list, each with its TTL and in their order.\<close>

definition lists_zone :: "resource list \<Rightarrow> ('p, 'd) authority \<Rightarrow> bool" where
  "lists_zone rs a \<longleftrightarrow> zone_inv a \<and> a_class a = CL_IN \<and> list_all (\<lambda>e. rs_records (snd e) \<noteq> []) (a_records a) \<and>
     (\<forall>n t. zone_get a n t = filter (same_key n t) rs)"

lemma add_record_lists:
  assumes "lists_zone rs a" "printable r" "\<forall>r'\<in>set rs. \<not> replaces r' r"
  obtains m where "add_record r (a_records a) = Ok m" "lists_zone (rs @ [r]) (a\<lparr>a_records := m\<rparr>)"
proof -
  let ?key = "rr_key_new (rr_name r) (rr_type r)"
  note z = assms(1) [unfolded lists_zone_def]
  have r: "rr_class r = a_class a" "rr_type r = to_record_type (rr_rdata r)" using assms(2) z by (simp_all add: printable_def)
  have old: "zone_get a (rr_name r) (rr_type r) = filter (same_key (rr_name r) (rr_type r)) rs" using z by simp
  have "\<not> holds (zone_get a (rr_name r) (rr_type r)) (rr_rdata r)"
    using assms(3) by (auto simp: old holds_def list_ex_iff replaces_def)
  moreover have "zone_get a (rr_name r) (rr_type r) = []" if "rr_type r \<in> {RT_SOA, RT_CNAME}"
    using assms(3) that by (auto simp: old filter_empty_conv replaces_def)
  ultimately obtain s where s: "add_record r (a_records a) = Ok (bt_insert rr_key_cmp ?key s (a_records a))"
      "rr_set_inv s" "name_eq (rr_name r) (rs_name s)" "rs_type s = rr_type r"
      "rs_records s = filter (same_key (rr_name r) (rr_type r)) rs @ [r]"
    using z add_record_fresh [of a r] r old by (metis (no_types, lifting))
  let ?a = "a\<lparr>a_records := bt_insert rr_key_cmp ?key s (a_records a)\<rparr>"
  have "list_all (\<lambda>q. rr_class q = a_class a) (rs_records s)"
    using zone_get_props(3) [of a _ "rr_name r" "rr_type r"] z r(1) by (auto simp: list_all_iff s(5) old)
  with z s have "zone_inv ?a" by (intro zone_inv_insert) simp_all
  moreover have "list_all (\<lambda>e. rs_records (snd e) \<noteq> []) (a_records ?a)"
    using z s(5) bt_insert_mem by (fastforce simp: list_all_iff)
  moreover have "zone_get ?a n t = filter (same_key n t) (rs @ [r])" for n t
    using zone_get_insert [of a "rr_name r" "rr_type r" s n t] z s(5) by (auto simp: name_eq_iff)
  ultimately show thesis using that [OF s(1)] z by (simp add: lists_zone_def)
qed

lemma master_loop_lines:
  assumes "list_all printable rs" "p_state p = MS_StartLine" "p_records p = a_records a" "lists_zone old a" "separate (old @ rs)"
  obtains p' m where "\<And>rest. master_loop \<lparr>lx_txt = concat (map record_line rs) @ rest, lx_state = LS_StartLine\<rparr> p =
      master_loop \<lparr>lx_txt = rest, lx_state = LS_StartLine\<rparr> p'" "p_state p' = MS_StartLine" "p_origin p' = p_origin p"
    "p_records p' = m" "lists_zone (old @ rs) (a\<lparr>a_records := m\<rparr>)"
  using assms
proof (induction rs arbitrary: p a old thesis)
  case Nil
  show ?case by (rule Nil(1) [of p "p_records p"]) (use Nil in simp_all)
next
  case (Cons r rs)
  have r: "printable r" using Cons.prems(2) by simp
  have "\<forall>r'\<in>set old. \<not> replaces r' r" using Cons.prems(6) by (auto simp: separate_def sorted_wrt_append)
  then obtain m where m: "add_record r (a_records a) = Ok m" "lists_zone (old @ [r]) (a\<lparr>a_records := m\<rparr>)"
    using add_record_lists [OF Cons.prems(5) r] by blast
  let ?p = "behind r p\<lparr>p_records := m, p_state := MS_StartLine\<rparr>"
  have "master_loop \<lparr>lx_txt = concat (map record_line (r # rs)) @ rest, lx_state = LS_StartLine\<rparr> p =
      master_loop \<lparr>lx_txt = concat (map record_line rs) @ rest, lx_state = LS_StartLine\<rparr> ?p" for rest
    using m(1) Cons.prems(3,4)
    by (simp add: record_line_def master_loop_text [OF r] master_loop_eol master_step_def finish_behind [OF r])
  moreover obtain p' m' where "\<And>rest. master_loop \<lparr>lx_txt = concat (map record_line rs) @ rest, lx_state = LS_StartLine\<rparr> ?p =
      master_loop \<lparr>lx_txt = rest, lx_state = LS_StartLine\<rparr> p'" "p_state p' = MS_StartLine" "p_origin p' = p_origin ?p"
    "p_records p' = m'" "lists_zone ((old @ [r]) @ rs) (a\<lparr>a_records := m\<rparr>\<lparr>a_records := m'\<rparr>)"
    by (rule Cons.IH [where p = ?p and a = "a\<lparr>a_records := m\<rparr>" and old = "old @ [r]"]) (use Cons.prems m in auto)
  ultimately show ?case by (intro Cons.prems(1) [of p' m']) auto
qed


definition sample_records :: "resource list" where
  "sample_records =
     [from_rdata (Name [''example'']) 3600 RT_SOA (RD_SOA \<lparr>mname = Name [''ns'', ''example''], rname = Name [''root'', ''example''],
        serial = 7, refresh = 60, retry = -1, expire = 3600, minimum = 5\<rparr>),
      from_rdata (Name [''example'']) 300 RT_NS (RD_NS (Name [''ns'', ''example''])),
      from_rdata (Name [''ns'', ''example'']) 60 RT_A (RD_A (Ipv4 10 0 0 2)),
      from_rdata (Name [''ns'', ''example'']) 60 RT_AAAA (RD_AAAA (Ipv6 0x2001 0xDB8 0 0 0 0 0 1)),
      from_rdata (Name [''NS'', ''example'']) 90 RT_A (RD_A (Ipv4 10 0 0 1))]"


section \<open>Everything a master file gives is well formed\<close>

lemma rdata_parse_type: "rdata_parse t tokens origin = Ok d \<Longrightarrow> to_record_type d = t"
  by (cases t) (auto simp: map_ok_def bind_outcome_Ok_iff)

definition typed :: "resource \<Rightarrow> bool" where
  "typed r \<longleftrightarrow> to_record_type (rr_rdata r) = rr_type r"

definition entry_ok :: "rr_key \<times> rr_set \<Rightarrow> bool" where
  "entry_ok e \<longleftrightarrow>
     name_eq (key_name (fst e)) (rs_name (snd e)) \<and> key_type (fst e) = rs_type (snd e) \<and> rr_set_inv (snd e) \<and>
     list_all typed (rs_records (snd e))"

definition records_ok :: "(rr_key, rr_set) btree \<Rightarrow> bool" where
  "records_ok m \<longleftrightarrow> bt_sorted rr_key_cmp m \<and> list_all entry_ok m"

lemma records_ok_insert:
  assumes "records_ok m" "name_eq n (rs_name s)" "rr_set_inv s" "list_all typed (rs_records s)"
  shows "records_ok (bt_insert rr_key_cmp (rr_key_new n (rs_type s)) s m)"
proof -
  have "entry_ok e" if "e \<in> set (bt_insert rr_key_cmp (rr_key_new n (rs_type s)) s m)" for e
    using bt_insert_mem [OF that] assms
    by (auto simp: records_ok_def list_all_iff entry_ok_def rr_key_cmp_Equal name_eq_iff)
  then show ?thesis using assms(1) by (auto simp: records_ok_def list_all_iff intro: key_ord.bt_sorted_insert)
qed

lemma typed_soa: "typed r \<Longrightarrow> rr_type r = RT_SOA \<Longrightarrow> is_soa (rr_rdata r)"
  by (cases "rr_rdata r") (auto simp: typed_def)

lemma records_ok_get:
  assumes "records_ok m" "bt_get rr_key_cmp (rr_key_new n t) m = Some s"
  shows "name_eq n (rs_name s)" "rs_type s = t" "rr_set_inv s" "list_all typed (rs_records s)"
proof -
  obtain k where k: "(k, s) \<in> set m" "rr_key_cmp (rr_key_new n t) k = Equal"
    using bt_get_mem [OF assms(2)] by blast
  with assms(1) have "entry_ok (k, s)" by (auto simp: records_ok_def list_all_iff)
  with k(2) show "name_eq n (rs_name s)" "rs_type s = t" "rr_set_inv s" "list_all typed (rs_records s)"
    by (auto simp: entry_ok_def rr_key_cmp_Equal intro: name_eq_trans)
qed

lemma add_record_ok:
  assumes "records_ok m" "typed r" "add_record r m = Ok m'"
  shows "records_ok m'"
proof (cases "rr_type r = RT_SOA")
  case True
  then have "m' = bt_insert rr_key_cmp (rr_key_new (rr_name r) (rs_type (rr_set_from r))) (rr_set_from r) m"
    using assms(3) by (auto simp: add_record_def Let_def rr_set_from_def split: option.splits)
  moreover have "rr_set_inv (rr_set_from r)" "list_all typed (rs_records (rr_set_from r))" "rs_name (rr_set_from r) = rr_name r"
    using assms(2) typed_soa [OF assms(2) True] by (simp_all add: rr_set_from_def rr_set_inv_def same_owner_def)
  ultimately show ?thesis using records_ok_insert [OF assms(1), of "rr_name r" "rr_set_from r"] by simp
next
  case False
  let ?s = "case bt_get rr_key_cmp (rr_key_new (rr_name r) (rr_type r)) m of
      Some s \<Rightarrow> s | None \<Rightarrow> rr_set_new (rr_name r) (rr_type r) 0"
  have s: "rr_set_inv ?s" "same_owner ?s r" "list_all typed (rs_records ?s)"
    using records_ok_get [OF assms(1), of "rr_name r" "rr_type r"]
    by (auto simp: same_owner_def rr_set_new_def rr_set_inv_def distinct_data_def split: option.splits)
  obtain b s' where ins: "rr_set_insert r 0 ?s = Ok (b, s')" using rr_set_insert_total [OF s(1,2)] by blast
  then have m': "m' = bt_insert rr_key_cmp (rr_key_new (rr_name r) (rr_type r)) s' m"
    using assms(3) False by (simp add: add_record_def Let_def)
  have "rr_set_inv s' \<and> rs_name s' = rs_name ?s \<and> rs_type s' = rs_type ?s \<and> set (rs_records s') \<subseteq> insert r (set (rs_records ?s))"
    using insert_records_of [OF s(1,2) _ ins] typed_soa [OF assms(2)] s(2) by (auto simp: same_owner_def)
  then show ?thesis
    using records_ok_insert [OF assms(1), of "rr_name r" s'] s assms(2) m' by (auto simp: same_owner_def list_all_iff)
qed

lemma finish_record_ok: "finish_record p = Ok p' \<Longrightarrow> records_ok (p_records p) \<Longrightarrow> records_ok (p_records p')"
  by (auto simp: finish_record_def bind_outcome_Ok_iff dest!: rdata_parse_type elim!: add_record_ok [rotated 2])
    (simp add: typed_def)

lemma master_step_ok: "master_step t p = Ok p' \<Longrightarrow> records_ok (p_records p) \<Longrightarrow> records_ok (p_records p')"
  by (auto simp: master_step_def start_line_def ttl_class_type_def Let_def bind_outcome_Ok_iff
    split: parser_state.splits token.splits outcome.splits intro: finish_record_ok)

lemma master_loop_ok: "master_loop lx p = Ok p' \<Longrightarrow> records_ok (p_records p) \<Longrightarrow> records_ok (p_records p')"
proof (induction lx p rule: master_loop.induct)
  case (1 lx p)
  show ?case
  proof (cases "next_token lx")
    case (Ok r)
    then obtain t lx' where r: "next_token lx = Ok (t, lx')" by (cases r) simp
    show ?thesis
    proof (cases t)
      case None
      with 1(2,3) r show ?thesis by (simp add: master_loop.simps [of lx])
    next
      case (Some tok)
      with 1(2) r obtain p1 where "master_step tok p = Ok p1" "master_loop lx' p1 = Ok p'"
        by (auto simp: master_loop.simps [of lx] bind_outcome_Ok_iff)
      with 1(1) [OF r _ Some] 1(3) master_step_ok show ?thesis by blast
    qed
  qed (use 1(2) in \<open>simp_all add: master_loop.simps [of lx]\<close>)
qed

text \<open>
  C27. Whatever a master file holds, a zone read from it is well formed: its map is sorted, every set is
  stored under its own name and type and holds each datum once, an SOA and a CNAME stand alone, and
  the data of every record have the type of the record.
\<close>
theorem master_parse_well_formed:
  assumes "master_parse (lexer_new contents) origin = Ok (zone, records)"
  shows "bt_sorted rr_key_cmp records \<and>
    list_all (\<lambda>(k, s). name_eq (key_name k) (rs_name s) \<and> key_type k = rs_type s \<and> rr_set_inv s \<and>
      list_all (\<lambda>r. to_record_type (rr_rdata r) = key_type k) (rs_records s)) records \<and>
    (list_all (\<lambda>(k, s). list_all (\<lambda>r. rr_class r = CL_IN) (rs_records s)) records \<longrightarrow>
       zone_inv (authority_new zone records zt allow dnssec))"
proof -
  have "records_ok (p_records (parser_init origin))" by (simp add: parser_init_def records_ok_def)
  then have ok: "bt_sorted rr_key_cmp records" "list_all entry_ok records"
    using assms master_loop_ok by (auto simp: master_parse_def bind_outcome_Ok_iff records_ok_def)
  moreover have "list_all (\<lambda>(k, s). name_eq (key_name k) (rs_name s) \<and> key_type k = rs_type s \<and> rr_set_inv s \<and>
      list_all (\<lambda>r. to_record_type (rr_rdata r) = key_type k) (rs_records s)) records"
    using ok(2) by (auto simp: entry_ok_def list_all_iff typed_def rr_set_inv_def same_owner_def)
  ultimately show ?thesis
    by (auto simp: authority_new_def zone_inv_def entry_inv_def entry_ok_def list_all_iff)
qed

theorem master_parse_well_formed_witness:
  "\<exists>records. master_parse (lexer_new (''@ 60 IN A 10.0.0.2'' @ [CHR 0x0A])) (Some (Name [''example''])) = Ok (Name [''example''], records) \<and>
     zone_inv (authority_new (Name [''example'']) records ZT_Master True False :: (bytes, list_db) authority)"
proof -
  let ?t = "''@ 60 IN A 10.0.0.2'' @ [CHR 0x0A]"
  have "case master_parse (lexer_new ?t) (Some (Name [''example''])) of Ok (z, records) \<Rightarrow>
      z = Name [''example''] \<and> list_all (\<lambda>(k, s). list_all (\<lambda>r. rr_class r = CL_IN) (rs_records s)) records | _ \<Rightarrow> False"
    by code_simp
  then obtain records where r: "master_parse (lexer_new ?t) (Some (Name [''example''])) = Ok (Name [''example''], records)"
      "list_all (\<lambda>(k, s). list_all (\<lambda>r. rr_class r = CL_IN) (rs_records s)) records"
    by (auto split: outcome.splits prod.splits)
  with master_parse_well_formed [OF r(1)] show ?thesis by blast
qed

end
