(* ===== verification/Client_Requests.thy ===== *)
theory Client_Requests
  imports Catalog
begin

text \<open>
  The messages a client sends (the provided methods of \<open>ClientHandle\<close> in
  \<open>client/src/client/client_future.rs\<close>): queries, notifications and the dynamic updates of RFC 2136.
  Each method builds a message and hands it to \<open>send\<close>; the definitions give that message, with the
  random id as an argument. The lemmas show what a server does with the updates.
\<close>

section \<open>Messages\<close>

definition add_pre_requisites :: "resource list \<Rightarrow> message \<Rightarrow> message" where
  "add_pre_requisites rs m = add_answers rs m"

definition add_updates :: "resource list \<Rightarrow> message \<Rightarrow> message" where
  "add_updates rs m = add_name_servers rs m"

definition extended_dns :: "message \<Rightarrow> message" where
  "extended_dns m =
     (case get_edns_mut m of (e, m') \<Rightarrow> m'\<lparr>m_edns := Some (e\<lparr>max_payload := 1500, edns_version := 0\<rparr>)\<rparr>)"

definition client_query :: "u16 \<Rightarrow> name \<Rightarrow> dns_class \<Rightarrow> record_type \<Rightarrow> message" where
  "client_query qid name query_class query_type =
     (let m = message_new\<lparr>m_header := header_new\<lparr>h_id := qid, h_message_type := MT_Query, h_op_code := OP_Query,
            recursion_desired := True\<rparr>\<rparr>;
          m = extended_dns m
      in add_query (query_new\<lparr>q_name := name, q_class := query_class, q_type := query_type\<rparr>) m)"

definition client_notify :: "u16 \<Rightarrow> name \<Rightarrow> dns_class \<Rightarrow> record_type \<Rightarrow> rr_set option \<Rightarrow> message" where
  "client_notify qid name query_class query_type rrset =
     (let m = message_new\<lparr>m_header := header_new\<lparr>h_id := qid, h_message_type := MT_Query, h_op_code := OP_Notify\<rparr>\<rparr>;
          m = extended_dns m;
          m = add_query (query_new\<lparr>q_name := name, q_class := query_class, q_type := query_type\<rparr>) m
      in case rrset of Some s \<Rightarrow> add_answers (rr_set_into_iter s) m | None \<Rightarrow> m)"

definition update_for :: "u16 \<Rightarrow> name \<Rightarrow> dns_class \<Rightarrow> message" where
  "update_for qid zone_origin cls =
     add_zone (query_new\<lparr>q_name := zone_origin, q_class := cls, q_type := RT_SOA\<rparr>)
       (message_new\<lparr>m_header := header_new\<lparr>h_id := qid, h_message_type := MT_Query, h_op_code := OP_Update,
          recursion_desired := False\<rparr>\<rparr>)"

text \<open>\<open>assert!(zone_origin.zone_of(name))\<close>.\<close>

definition assert_zone :: "name \<Rightarrow> name \<Rightarrow> ('a, unit) outcome \<Rightarrow> ('a, unit) outcome" where
  "assert_zone origin name r = bind_outcome (zone_of origin name) (\<lambda>inside. if inside then r else Panic)"

definition client_create :: "u16 \<Rightarrow> rr_set \<Rightarrow> name \<Rightarrow> (message, unit) outcome" where
  "client_create qid rrset zone_origin =
     assert_zone zone_origin (rs_name rrset)
       (let m = update_for qid zone_origin (rs_class rrset);
            prerequisite = (resource_with (rs_name rrset) (rs_type rrset) 0)\<lparr>rr_class := CL_NONE\<rparr>;
            m = add_pre_requisite prerequisite m;
            m = add_updates (rr_set_into_iter rrset) m
        in Ok (extended_dns m))"

definition client_append :: "u16 \<Rightarrow> rr_set \<Rightarrow> name \<Rightarrow> bool \<Rightarrow> (message, unit) outcome" where
  "client_append qid rrset zone_origin must_exist =
     assert_zone zone_origin (rs_name rrset)
       (let m = update_for qid zone_origin (rs_class rrset);
            prerequisite = (resource_with (rs_name rrset) (rs_type rrset) 0)\<lparr>rr_class := CL_ANY\<rparr>;
            m = (if must_exist then add_pre_requisite prerequisite m else m);
            m = add_updates (rr_set_into_iter rrset) m
        in Ok (extended_dns m))"

definition compare_and_swap :: "u16 \<Rightarrow> rr_set \<Rightarrow> rr_set \<Rightarrow> name \<Rightarrow> (message, unit) outcome" where
  "compare_and_swap qid current new zone_origin =
     assert_zone zone_origin (rs_name current) (assert_zone zone_origin (rs_name new)
       (let m = update_for qid zone_origin (rs_class new);
            m = add_pre_requisites (rr_set_into_iter (set_ttl 0 current)) m;
            m = add_updates (rr_set_into_iter (set_ttl 0 (set_dns_class CL_NONE current))) m;
            m = add_updates (rr_set_into_iter new) m
        in Ok (extended_dns m)))"

definition delete_by_rdata :: "u16 \<Rightarrow> rr_set \<Rightarrow> name \<Rightarrow> (message, unit) outcome" where
  "delete_by_rdata qid rrset zone_origin =
     assert_zone zone_origin (rs_name rrset)
       (let m = update_for qid zone_origin (rs_class rrset);
            m = add_updates (rr_set_into_iter (set_ttl 0 (set_dns_class CL_NONE rrset))) m
        in Ok (extended_dns m))"

definition delete_rrset :: "u16 \<Rightarrow> resource \<Rightarrow> name \<Rightarrow> (message, unit) outcome" where
  "delete_rrset qid r zone_origin =
     assert_zone zone_origin (rr_name r)
       (let m = update_for qid zone_origin (rr_class r);
            m = add_update (r\<lparr>rr_class := CL_ANY, rr_ttl := 0, rr_rdata := null_new\<rparr>) m
        in Ok (extended_dns m))"

definition delete_all :: "u16 \<Rightarrow> name \<Rightarrow> name \<Rightarrow> dns_class \<Rightarrow> (message, unit) outcome" where
  "delete_all qid name_of_records zone_origin cls =
     assert_zone zone_origin name_of_records
       (let m = update_for qid zone_origin cls;
            m = add_update ((resource_with name_of_records RT_ANY 0)\<lparr>rr_class := CL_ANY\<rparr>) m
        in Ok (extended_dns m))"

section \<open>What the messages hold\<close>

lemma extended_dns_sel [simp]:
  "m_header (extended_dns m) = m_header m" "m_queries (extended_dns m) = m_queries m"
  "m_answers (extended_dns m) = m_answers m" "m_name_servers (extended_dns m) = m_name_servers m"
  "m_additionals (extended_dns m) = m_additionals m" "m_sig0 (extended_dns m) = m_sig0 m"
  by (simp_all add: extended_dns_def get_edns_mut_def split: option.split)

lemma update_for_sel [simp]:
  "m_answers (update_for qid origin cls) = []" "m_name_servers (update_for qid origin cls) = []"
  by (simp_all add: update_for_def add_zone_def add_query_def message_new_def)

lemmas request_defs = assert_zone_def bind_outcome_Ok_iff Let_def get_pre_requisites_def get_updates_def
  add_pre_requisite_def add_pre_requisites_def add_updates_def add_update_def add_answer_def add_name_server_def

lemma client_create_Ok:
  assumes "client_create qid s origin = Ok m"
  shows "zone_of origin (rs_name s) = (Ok True :: (bool, unit) outcome)" "get_updates m = rr_set_into_iter s"
    "get_pre_requisites m = [(resource_with (rs_name s) (rs_type s) 0)\<lparr>rr_class := CL_NONE\<rparr>]"
  using assms by (auto simp: client_create_def request_defs split: if_splits)

lemma compare_and_swap_Ok:
  assumes "compare_and_swap qid current new origin = Ok m"
  shows "zone_of origin (rs_name current) = (Ok True :: (bool, unit) outcome)"
    "zone_of origin (rs_name new) = (Ok True :: (bool, unit) outcome)"
    "get_pre_requisites m = rr_set_into_iter (set_ttl 0 current)"
    "get_updates m = rr_set_into_iter (set_ttl 0 (set_dns_class CL_NONE current)) @ rr_set_into_iter new"
  using assms by (auto simp: compare_and_swap_def request_defs split: if_splits)

section \<open>Updates at the server\<close>

lemma zone_of_lengths:
  assumes "zone_of z n = (Ok b :: (bool, 'e) outcome)"
  shows "length (labels z) < 256" "length (labels n) < 256"
  using assms by (auto simp: zone_of_def name_to_lowercase_def with_labels_def bind_outcome_Ok_iff split: if_splits)

lemma zone_of_same:
  assumes "zone_of z n = (Ok True :: (bool, 'e) outcome)" "name_eq m n"
  shows "zone_of z m = (Ok True :: (bool, 'f) outcome)"
proof -
  have len: "length (labels z) < 256" "length (labels n) < 256" using zone_of_lengths [OF assms(1)] by simp_all
  moreover have "length (labels m) = length (labels n)" using assms(2) map_eq_imp_length_eq by (auto simp: name_eq_iff)
  ultimately show ?thesis using assms by (auto simp: zone_of_suffix name_eq_iff split: if_splits)
qed

text \<open>A record set as a client sends it to the server of a zone.\<close>

definition sendable :: "('p, 'd) authority \<Rightarrow> rr_set \<Rightarrow> bool" where
  "sendable a s \<longleftrightarrow>
     rr_set_inv s \<and> rs_rrsigs s = [] \<and> list_all (\<lambda>r. rr_class r = a_class a) (rs_records s) \<and>
     rs_type s \<notin> {RT_SOA, RT_ANY, RT_AXFR, RT_IXFR}"

text \<open>A zone that takes updates without signing itself or keeping a journal, and can count them.\<close>

definition plain_zone :: "('p, 'd) authority \<Rightarrow> bool" where
  "plain_zone a \<longleftrightarrow>
     zone_inv a \<and> \<not> is_dnssec_enabled a \<and> a_journal a = None \<and> a_class a \<notin> {CL_ANY, CL_NONE} \<and>
     (\<forall>ser. serial_at (a_origin a) (zone_has a) ser \<longrightarrow> ser \<noteq> - 1)"

lemma fold_spec_other:
  assumes "\<forall>r \<in> set rs. \<not> same_key n t r \<and> rr_type r \<noteq> RT_ANY"
  shows "fold (spec_update origin cls) rs z n t rd \<longleftrightarrow> z n t rd"
  using assms
  by (induction rs arbitrary: z) (auto simp: spec_update_def spec_add_def spec_delete_def spec_delete_set_def)

lemma fold_spec_add:
  assumes "\<forall>r \<in> set rs. rr_class r = cls \<and> name_eq (rr_name r) n \<and> rr_type r = t" "t \<notin> {RT_SOA, RT_CNAME}"
  shows "fold (spec_update origin cls) rs z n t rd \<longleftrightarrow> z n t rd \<or> holds rs rd"
  using assms(1)
proof (induction rs arbitrary: z)
  case (Cons r rs)
  then show ?case using assms(2) by (auto simp: spec_update_def spec_add_def holds_def name_eq_sym [of n])
qed (simp add: holds_def)

lemma fold_spec_set:
  assumes "rr_set_inv s" "list_all (\<lambda>r. rr_class r = cls) (rs_records s)" "rs_type s \<noteq> RT_SOA" "\<And>rd. \<not> z (rs_name s) (rs_type s) rd"
  shows "fold (spec_update origin cls) (rs_records s) z (rs_name s) (rs_type s) rd \<longleftrightarrow> holds (rs_records s) rd"
proof (cases "rs_type s = RT_CNAME")
  case True
  then have "length (rs_records s) \<le> 1" using assms(1) by (simp add: rr_set_inv_def)
  then consider "rs_records s = []" | r where "rs_records s = [r]" by (cases "rs_records s") auto
  then show ?thesis
  proof cases
    case 2
    then show ?thesis
      using True assms(1,2) by (auto simp: spec_update_def spec_add_def holds_def rr_set_inv_def same_owner_def name_eq_sym)
  qed (use assms(4) in \<open>simp add: holds_def\<close>)
next
  case False
  then show ?thesis
    using fold_spec_add [of "rs_records s" cls "rs_name s" "rs_type s" origin z rd] assms
    by (auto simp: list_all_iff rr_set_inv_def same_owner_def)
qed

text \<open>The server applies an update section of such records, whatever serial the zone has.\<close>

lemma server_applies:
  assumes "plain_zone a" "list_all (update_ok (a_class a)) rs" "\<forall>r \<in> set rs. rr_type r \<notin> {RT_SOA, RT_ANY}"
  obtains b a' where "update_records ssl sql now rs auto a = (Ok b, a')" "zone_inv a'"
    "\<And>n t rd. t \<noteq> RT_SOA \<Longrightarrow> zone_has a' n t rd = fold (spec_update (a_origin a) (a_class a)) rs (zone_has a) n t rd"
proof -
  let ?z = "fold (spec_update (a_origin a) (a_class a)) rs (zone_has a)"
  have "?z n RT_SOA rd = zone_has a n RT_SOA rd" for n rd
    using assms(3) by (intro fold_spec_other) auto
  then have ser: "\<forall>ser. serial_at (a_origin a) ?z ser \<longrightarrow> ser \<noteq> - 1"
    using assms(1) by (simp add: plain_zone_def serial_at_def)
  have wa: "\<forall>ser. fst (write_ahead sql now ser rs a) = Ok ()"
    using assms(1) by (simp add: plain_zone_def write_ahead_def)
  have "\<exists>b a'. update_records ssl sql now rs auto a = (Ok b, a') \<and> zone_inv a' \<and>
      zone_has a' = (if b \<and> auto then spec_bump (a_origin a) ?z else ?z)"
    using assms(1) by (intro update_records_effect [OF _ assms(2) _ wa refl ser]) (simp_all add: plain_zone_def)
  then show thesis using that by (auto simp: spec_bump_def split: if_splits)
qed

lemma pre_scan_all:
  assumes "\<forall>r \<in> set rs. zone_of (a_origin a) (rr_name r) = (Ok True :: (bool, response_code) outcome) \<and>
    rr_type r \<notin> {RT_ANY, RT_AXFR, RT_IXFR} \<and> (rr_class r = a_class a \<or> rr_class r = CL_NONE \<and> rr_ttl r = 0)"
    "a_class a \<notin> {CL_ANY, CL_NONE}"
  shows "pre_scan rs a = Ok ()"
  using assms by (induction rs) (auto simp: pre_scan_record_def)

lemma sendable_records:
  assumes "sendable a s" "r \<in> set (rs_records s)" "zone_of origin (rs_name s) = (Ok True :: (bool, 'e) outcome)"
  shows "zone_of origin (rr_name r) = (Ok True :: (bool, 'f) outcome)" "name_eq (rr_name r) (rs_name s)" "rr_type r = rs_type s"
    "rr_class r = a_class a" "rr_type r \<notin> {RT_SOA, RT_ANY, RT_AXFR, RT_IXFR}"
  using assms zone_of_same [OF assms(3), of "rr_name r", where 'f = 'f]
  by (auto simp: sendable_def rr_set_inv_def same_owner_def list_all_iff)

text \<open>
  C10. Creating a record set works end to end: sent to the zone it belongs to, the message of
  \<open>create\<close> is refused with YXRRSET if the zone has records of that name and type; otherwise its
  prerequisites and its update section are accepted, and afterwards the zone holds exactly the set
  that was sent under that name and type, and what it held under every other one but the SOA. This is
  so also where the name has a CNAME record, or other data beside which a CNAME is created: the comments
  of the server say that such a record is ignored, but it is stored.
\<close>
theorem create_on_server:
  assumes "client_create qid s (a_origin a) = Ok m" "plain_zone a" "sendable a s"
  shows "if zone_get a (rs_name s) (rs_type s) \<noteq> []
    then verify_prerequisites (get_pre_requisites m) a = Err YXRRSet
    else verify_prerequisites (get_pre_requisites m) a = Ok () \<and> pre_scan (get_updates m) a = Ok () \<and>
      (\<exists>b a'. update_records ssl sql now (get_updates m) True a = (Ok b, a') \<and> zone_inv a' \<and>
        (\<forall>rd. zone_has a' (rs_name s) (rs_type s) rd \<longleftrightarrow> holds (rs_records s) rd) \<and>
        (\<forall>n t rd. t \<noteq> RT_SOA \<and> \<not> (name_eq n (rs_name s) \<and> t = rs_type s) \<longrightarrow> zone_has a' n t rd = zone_has a n t rd))"
proof -
  note m = client_create_Ok [OF assms(1)]
  have s: "get_updates m = rs_records s" "rs_type s \<notin> {RT_SOA, RT_ANY, RT_AXFR, RT_IXFR}" "rr_set_inv s"
      "list_all (\<lambda>r. rr_class r = a_class a) (rs_records s)"
    using m(2) assms(3) by (simp_all add: rr_set_into_iter_def sendable_def)
  have inside: "zone_of (a_origin a) (rs_name s) = (Ok True :: (bool, response_code) outcome)"
    using zone_of_same [OF m(1), of "rs_name s"] by simp
  have pre: "verify_prerequisites (get_pre_requisites m) a = (if zone_get a (rs_name s) (rs_type s) \<noteq> [] then Err YXRRSet else Ok ())"
    using s(2) inside by (simp add: m(3) verify_prerequisite_def resource_with_def null_new_def lookup_single Let_def)
  have scan: "pre_scan (get_updates m) a = Ok ()"
    unfolding s(1) using assms(2) sendable_records [OF assms(3) _ m(1)]
    by (intro pre_scan_all) (auto simp: plain_zone_def)
  have "list_all (update_ok (a_class a)) (rs_records s)" "\<forall>r \<in> set (rs_records s). rr_type r \<notin> {RT_SOA, RT_ANY}"
    using sendable_records [OF assms(3) _ m(1)] by (auto simp: update_ok_def list_all_iff)
  then obtain b a' where up: "update_records ssl sql now (rs_records s) True a = (Ok b, a')" "zone_inv a'"
      "\<And>n t rd. t \<noteq> RT_SOA \<Longrightarrow> zone_has a' n t rd = fold (spec_update (a_origin a) (a_class a)) (rs_records s) (zone_has a) n t rd"
    using server_applies [OF assms(2), of "rs_records s"] by blast
  have other: "zone_has a' n t rd = zone_has a n t rd" if "t \<noteq> RT_SOA" "\<not> (name_eq n (rs_name s) \<and> t = rs_type s)" for n t rd
  proof -
    have "\<forall>r \<in> set (rs_records s). \<not> same_key n t r \<and> rr_type r \<noteq> RT_ANY"
      using that(2) sendable_records [OF assms(3) _ m(1)] by (auto simp: name_eq_iff)
    then show ?thesis using up(3) [OF that(1)] fold_spec_other by simp
  qed
  show ?thesis
  proof (cases "zone_get a (rs_name s) (rs_type s) = []")
    case True
    then have "\<not> zone_has a (rs_name s) (rs_type s) rd" for rd using zone_has_ex [of a "rs_name s" "rs_type s"] by auto
    then have "zone_has a' (rs_name s) (rs_type s) rd \<longleftrightarrow> holds (rs_records s) rd" for rd
      using up(3) s(2) fold_spec_set [OF s(3,4)] by simp
    with True pre scan up(1,2) other s(1) show ?thesis by auto
  qed (simp add: pre)
qed

theorem create_on_server_witness:
  "\<exists>m b a'. client_create 5 (rr_set_from (from_rdata (Name [''www'', ''example'']) 60 RT_A (RD_A (Ipv4 10 0 0 2)))) (Name [''example''])
      = Ok m \<and> verify_prerequisites (get_pre_requisites m) sample_zone = Ok () \<and>
     update_records toy_ssl list_sqlite 0 (get_updates m) True sample_zone = (Ok b, a') \<and>
     zone_has a' (Name [''www'', ''example'']) RT_A (RD_A (Ipv4 10 0 0 2))"
proof -
  let ?r = "from_rdata (Name [''www'', ''example'']) 60 RT_A (RD_A (Ipv4 10 0 0 2))"
  let ?s = "rr_set_from ?r"
  have "is_ok (client_create 5 ?s (Name [''example'']))" by code_simp
  then obtain m where m: "client_create 5 ?s (a_origin sample_zone) = Ok m"
    by (auto simp: is_ok_iff sample_zone_props)
  have "plain_zone sample_zone" using sample_zone_props sample_serial by (auto simp: plain_zone_def)
  moreover have "sendable sample_zone ?s" "zone_get sample_zone (rs_name ?s) (rs_type ?s) = []" by code_simp+
  moreover have "holds (rs_records ?s) (RD_A (Ipv4 10 0 0 2))" "rs_name ?s = Name [''www'', ''example'']" "rs_type ?s = RT_A"
    by code_simp+
  ultimately show ?thesis
    using create_on_server [OF m, of toy_ssl list_sqlite 0] m by (fastforce simp: sample_zone_props)
qed

section \<open>Compare and swap\<close>

lemma fold_spec_delete:
  assumes "\<forall>r \<in> set rs. rr_class r = CL_NONE \<and> name_eq (rr_name r) n \<and> rr_type r = t" "t \<notin> {RT_SOA, RT_NS}" "cls \<noteq> CL_NONE"
  shows "fold (spec_update origin cls) rs z n t rd \<longleftrightarrow> z n t rd \<and> \<not> holds rs rd"
  using assms(1)
proof (induction rs arbitrary: z)
  case (Cons r rs)
  then show ?case using assms(2,3) by (auto simp: spec_update_def spec_delete_def name_eq_sym [of n])
qed simp

lemma prerequisites_of_class:
  assumes "zone_inv a" "a_class a \<notin> {CL_ANY, CL_NONE}"
    "\<forall>r \<in> set rs. rr_ttl r = 0 \<and> rr_class r = a_class a \<and> rr_type r \<notin> {RT_SOA, RT_ANY, RT_AXFR} \<and>
       zone_of (a_origin a) (rr_name r) = (Ok True :: (bool, response_code) outcome)"
  shows "verify_prerequisites rs a =
    (if \<forall>r \<in> set rs. zone_has a (rr_name r) (rr_type r) (rr_rdata r) then Ok () else Err NXRRSet)"
  using assms(3)
proof (induction rs)
  case (Cons r rs)
  have "verify_prerequisite r a = (if zone_has a (rr_name r) (rr_type r) (rr_rdata r) then Ok () else Err NXRRSet)"
    using Cons.prems assms(2) resource_eq_in_zone [OF assms(1), of r]
    by (auto simp: verify_prerequisite_def lookup_single Let_def)
  with Cons show ?case by simp
qed simp

text \<open>
  C11. Compare and swap works end to end where the compared records are there: the message of
  \<open>compare_and_swap\<close> is refused with NXRRSET unless the zone holds every record of the current set;
  otherwise it is accepted, and the zone loses the current records and gains the new ones. The
  comparison is one of inclusion: records that are not in the current set neither stop the swap
  nor are removed by it. Sets of NS and CNAME records are left out: the deletions come before the
  additions and the server keeps the last NS record of a name, so that it stays beside the new ones; and
  of several new CNAME records only the last is kept.
\<close>
theorem compare_and_swap_on_server:
  assumes "compare_and_swap qid cur new (a_origin a) = Ok m" "plain_zone a" "sendable a cur" "sendable a new"
    "name_eq (rs_name new) (rs_name cur)" "rs_type new = rs_type cur" "rs_type cur \<notin> {RT_CNAME, RT_NS}"
  shows "if \<exists>r \<in> set (rs_records cur). \<not> zone_has a (rr_name r) (rr_type r) (rr_rdata r)
    then verify_prerequisites (get_pre_requisites m) a = Err NXRRSet
    else verify_prerequisites (get_pre_requisites m) a = Ok () \<and> pre_scan (get_updates m) a = Ok () \<and>
      (\<exists>b a'. update_records ssl sql now (get_updates m) True a = (Ok b, a') \<and> zone_inv a' \<and>
        (\<forall>rd. zone_has a' (rs_name cur) (rs_type cur) rd \<longleftrightarrow>
           zone_has a (rs_name cur) (rs_type cur) rd \<and> \<not> holds (rs_records cur) rd \<or> holds (rs_records new) rd))"
proof -
  note m = compare_and_swap_Ok [OF assms(1)]
  note cur = sendable_records [OF assms(3) _ m(1)] and new = sendable_records [OF assms(4) _ m(2)]
  let ?del = "map (\<lambda>r. r\<lparr>rr_class := CL_NONE, rr_ttl := 0\<rparr>) (rs_records cur)"
  have a: "zone_inv a" "a_class a \<notin> {CL_ANY, CL_NONE}" using assms(2) by (simp_all add: plain_zone_def)
  have pre: "get_pre_requisites m = map (\<lambda>r. r\<lparr>rr_ttl := 0\<rparr>) (rs_records cur)"
    using m(3) assms(3) by (simp add: rr_set_into_iter_def set_ttl_def sendable_def)
  have up: "get_updates m = ?del @ rs_records new"
    using m(4) assms(3,4) by (simp add: rr_set_into_iter_def set_ttl_def set_dns_class_def sendable_def)
  have verify: "verify_prerequisites (get_pre_requisites m) a =
      (if \<forall>r \<in> set (rs_records cur). zone_has a (rr_name r) (rr_type r) (rr_rdata r) then Ok () else Err NXRRSet)"
    unfolding pre using cur by (subst prerequisites_of_class [OF a]) (auto simp: list_all_iff)
  have scan: "pre_scan (get_updates m) a = Ok ()"
    unfolding up using cur new a(2) by (intro pre_scan_all) auto
  have "list_all (update_ok (a_class a)) (get_updates m)" "\<forall>r \<in> set (get_updates m). rr_type r \<notin> {RT_SOA, RT_ANY}"
    unfolding up using cur new a(2) by (auto simp: update_ok_def list_all_iff)
  then obtain b a' where upd: "update_records ssl sql now (get_updates m) True a = (Ok b, a')" "zone_inv a'"
      "\<And>n t rd. t \<noteq> RT_SOA \<Longrightarrow> zone_has a' n t rd = fold (spec_update (a_origin a) (a_class a)) (get_updates m) (zone_has a) n t rd"
    using server_applies [OF assms(2)] by blast
  have "zone_has a' (rs_name cur) (rs_type cur) rd \<longleftrightarrow>
      zone_has a (rs_name cur) (rs_type cur) rd \<and> \<not> holds (rs_records cur) rd \<or> holds (rs_records new) rd" for rd
  proof -
    have "holds ?del rd = holds (rs_records cur) rd" by (simp add: holds_def list_ex_iff)
    moreover have t: "rs_type cur \<noteq> RT_SOA" using assms(3) by (simp add: sendable_def)
    ultimately show ?thesis
      unfolding upd(3) [OF t] up
      using cur new assms(5-7) a(2) fold_spec_delete [of ?del "rs_name cur" "rs_type cur"]
        fold_spec_add [of "rs_records new" "a_class a" "rs_name cur" "rs_type cur"]
      by (auto simp: name_eq_iff)
  qed
  with verify scan upd(1,2) show ?thesis by auto
qed

theorem compare_and_swap_on_server_witness:
  "\<exists>m b a'. compare_and_swap 5 (rr_set_from (from_rdata (Name [''ns'', ''example'']) 300 RT_A (RD_A (Ipv4 10 0 0 1))))
      (rr_set_from (from_rdata (Name [''ns'', ''example'']) 300 RT_A (RD_A (Ipv4 10 0 0 9)))) (Name [''example'']) = Ok m \<and>
     verify_prerequisites (get_pre_requisites m) sample_zone = Ok () \<and>
     update_records toy_ssl list_sqlite 0 (get_updates m) True sample_zone = (Ok b, a') \<and>
     zone_has a' (Name [''ns'', ''example'']) RT_A (RD_A (Ipv4 10 0 0 9)) \<and>
     \<not> zone_has a' (Name [''ns'', ''example'']) RT_A (RD_A (Ipv4 10 0 0 1))"
proof -
  let ?n = "Name [''ns'', ''example'']"
  let ?r = "from_rdata ?n 300 RT_A (RD_A (Ipv4 10 0 0 1))" and ?r' = "from_rdata ?n 300 RT_A (RD_A (Ipv4 10 0 0 9))"
  let ?s = "rr_set_from ?r" and ?s' = "rr_set_from ?r'"
  have "is_ok (compare_and_swap 5 ?s ?s' (Name [''example'']))" by code_simp
  then obtain m where m: "compare_and_swap 5 ?s ?s' (a_origin sample_zone) = Ok m"
    by (auto simp: is_ok_iff sample_zone_props)
  have "plain_zone sample_zone" using sample_zone_props sample_serial by (auto simp: plain_zone_def)
  moreover have "sendable sample_zone ?s" "sendable sample_zone ?s'" by code_simp+
  moreover have "holds (rs_records ?s) (RD_A (Ipv4 10 0 0 1))" "holds (rs_records ?s') (RD_A (Ipv4 10 0 0 9))"
    "\<not> holds (rs_records ?s') (RD_A (Ipv4 10 0 0 1))" by code_simp+
  moreover have "rs_name ?s = ?n" "rs_type ?s = RT_A" "rs_name ?s' = ?n" "rs_type ?s' = RT_A" "rs_records ?s = [?r]"
    by (simp_all add: rr_set_from_def from_rdata_def)
  moreover have "zone_has sample_zone (rr_name ?r) (rr_type ?r) (rr_rdata ?r)" unfolding zone_has_def by code_simp
  ultimately show ?thesis
    using compare_and_swap_on_server [OF m, of toy_ssl list_sqlite 0] m by (fastforce simp: sample_zone_props)
qed

end
