(* ===== verification/Client_Future.thy ===== *)
theory Client_Future
  imports Client_Requests
begin

text \<open>
  The client on its event loop: \<open>ClientFuture\<close> of \<open>client/src/client/client_future.rs\<close>, which
  matches responses to requests, and the handle that sends it requests.

  One call of \<open>poll\<close> is a function of the client and of what the event loop and the libraries give
  during that call: the receivers that were dropped, the timers, the random numbers, new timers, the
  results of sending, and what the stream yields. The receiving half of a oneshot channel is a number.
\<close>

section \<open>Errors\<close>

datatype client_error =
    CE_Msg string
  | CE_Decode decode_error
  | CE_Encode encode_error
  | CE_DnsSec dnssec_error
  | CE_Io
  | CE_SSL
  | CE_NoError
  | CE_Canceled
  | CE_Message string
  | CE_NotAllBytesSent nat nat
  | CE_NotAllBytesReceived nat nat
  | CE_IncorrectMessageId u16 u16
  | CE_ErrorResponse response_code
  | CE_NoRRSIG
  | CE_NoDNSKEY
  | CE_NoDS
  | CE_NoSOARecord name
  | CE_SecNxDomain "resource list"
  | CE_Timeout

type_synonym receiver = nat
type_synonym client_result = "client_error + message"

section \<open>State\<close>

datatype timer_poll = Timer_Ready | Timer_NotReady | Timer_Err

datatype stream_poll = Str_Item bytes | Str_NotReady | Str_End | Str_Err

record env =
  canceled :: "receiver \<Rightarrow> bool"
  timer :: "nat \<Rightarrow> timer_poll"
  draw :: "nat \<Rightarrow> u16"
  new_timer :: "nat \<Rightarrow> nat option"
  send_ok :: "bytes \<Rightarrow> bool"
  timestamp_now :: u32

text \<open>
  The client, with what it has done so far: the positions in the random numbers and the timers, the
  bytes sent, the requests completed, and whether it asked to be polled again at once.
\<close>

record 'p client =
  active_requests :: "(u16 \<times> receiver \<times> nat) list"
  new_receiver :: "(message \<times> receiver) list"
  receiver_closed :: bool
  signer :: "'p signer option"
  stream :: "stream_poll list"
  draws :: nat
  timers :: nat
  sent :: "bytes list"
  completed :: "(receiver \<times> client_result) list"
  unparked :: bool

definition qos_max_receive_msgs :: nat where
  "qos_max_receive_msgs = 100"

text \<open>The client as \<open>with_timeout\<close> spawns it.\<close>

definition client_new :: "stream_poll list \<Rightarrow> 'p signer option \<Rightarrow> 'p client" where
  "client_new str sg =
     \<lparr>active_requests = [], new_receiver = [], receiver_closed = False, signer = sg, stream = str, draws = 0, timers = 0,
      sent = [], completed = [], unparked = False\<rparr>"

text \<open>
  \<open>BasicClientHandle::send\<close> queues a message, unless the client is gone; then the receiver is completed
  at once with the reason the channel gives.
\<close>

definition basic_send :: "string \<Rightarrow> message \<Rightarrow> receiver \<Rightarrow> 'p client option \<Rightarrow> client_result option \<times> 'p client option" where
  "basic_send reason m r c =
     (case c of
        Some c \<Rightarrow> (None, Some (c\<lparr>new_receiver := new_receiver c @ [(m, r)]\<rparr>))
      | None \<Rightarrow> (Some (Inl (CE_Msg (''error sending to mpsc: '' @ reason))), None))"

definition complete :: "receiver \<Rightarrow> client_result \<Rightarrow> 'p client \<Rightarrow> 'p client" where
  "complete r result c = c\<lparr>completed := completed c @ [(r, result)]\<rparr>"

definition has_request :: "u16 \<Rightarrow> 'p client \<Rightarrow> bool" where
  "has_request qid c \<longleftrightarrow> map_of (active_requests c) qid \<noteq> None"

definition remove_request :: "u16 \<Rightarrow> 'p client \<Rightarrow> 'p client" where
  "remove_request qid c = c\<lparr>active_requests := filter (\<lambda>e. fst e \<noteq> qid) (active_requests c)\<rparr>"

definition insert_request :: "u16 \<Rightarrow> receiver \<Rightarrow> nat \<Rightarrow> 'p client \<Rightarrow> 'p client" where
  "insert_request qid r t c = c\<lparr>active_requests := (qid, r, t) # filter (\<lambda>e. fst e \<noteq> qid) (active_requests c)\<rparr>"

section \<open>Timeouts\<close>

definition is_dropped :: "env \<Rightarrow> u16 \<times> receiver \<times> nat \<Rightarrow> bool" where
  "is_dropped env e = (case e of (_, r, t) \<Rightarrow> canceled env r \<or> timer env t \<noteq> Timer_NotReady)"

definition drop_cancelled :: "env \<Rightarrow> 'p client \<Rightarrow> 'p client" where
  "drop_cancelled env c =
     fold (\<lambda>(qid, r, _) c. complete r (Inl CE_Timeout) (remove_request qid c)) (filter (is_dropped env) (active_requests c)) c"

section \<open>Sending\<close>

text \<open>The first free id among the next so many random numbers.\<close>

fun pick_id :: "nat \<Rightarrow> env \<Rightarrow> 'p client \<Rightarrow> u16 option \<times> 'p client" where
  "pick_id 0 env c = (None, c\<lparr>unparked := True\<rparr>)"
| "pick_id (Suc n) env c =
     (let qid = draw env (draws c); c = c\<lparr>draws := draws c + 1\<rparr> in
      if \<not> has_request qid c then (Some qid, c) else pick_id n env c)"

definition next_random_query_id :: "env \<Rightarrow> 'p client \<Rightarrow> u16 option \<times> 'p client" where
  "next_random_query_id env c = pick_id 100 env c"

definition sign_request :: "'p ssl \<Rightarrow> env \<Rightarrow> message \<Rightarrow> 'p client \<Rightarrow> (message, dnssec_error) outcome" where
  "sign_request ssl env m c =
     (if h_op_code (m_header m) = OP_Update
      then (case signer c of Some s \<Rightarrow> message_sign ssl s (timestamp_now env) m | None \<Rightarrow> Ok m)
      else Ok m)"

text \<open>A message that was taken off the queue and has its id.\<close>

definition send_request :: "'p ssl \<Rightarrow> env \<Rightarrow> message \<Rightarrow> receiver \<Rightarrow> 'p client \<Rightarrow> (unit, client_error) outcome \<times> 'p client" where
  "send_request ssl env m r c =
     (case sign_request ssl env m c of
        Err e \<Rightarrow> (Ok (), complete r (Inl (CE_DnsSec e)) c)
      | Panic \<Rightarrow> (Panic, c)
      | Overrun \<Rightarrow> (Overrun, c)
      | Ok m \<Rightarrow>
          let made = new_timer env (timers c); c = c\<lparr>timers := timers c + 1\<rparr> in
          (case made of
             None \<Rightarrow> (Ok (), complete r (Inl CE_Io) c)
           | Some t \<Rightarrow>
               (case message_to_vec m of
                  Ok buffer \<Rightarrow>
                    if send_ok env buffer
                    then (Ok (), insert_request (h_id (m_header m)) r t (c\<lparr>sent := sent c @ [buffer]\<rparr>))
                    else (Err CE_Io, c)
                | Err e \<Rightarrow> (Ok (), complete r (Inl (CE_Encode e)) c)
                | Panic \<Rightarrow> (Panic, c)
                | Overrun \<Rightarrow> (Overrun, c))))"

text \<open>The loop over the queue; the first argument is the messages in it.\<close>

fun send_loop :: "'p ssl \<Rightarrow> env \<Rightarrow> (message \<times> receiver) list \<Rightarrow> 'p client \<Rightarrow> (unit, client_error) outcome \<times> 'p client" where
  "send_loop ssl env [] c = (Ok (), c\<lparr>new_receiver := []\<rparr>)"
| "send_loop ssl env ((m, r) # queue) c =
     (case next_random_query_id env c of
        (None, c) \<Rightarrow> (Ok (), c\<lparr>new_receiver := (m, r) # queue\<rparr>)
      | (Some qid, c) \<Rightarrow>
          (case send_request ssl env (m\<lparr>m_header := (m_header m)\<lparr>h_id := qid\<rparr>\<rparr>) r (c\<lparr>new_receiver := queue\<rparr>) of
             (Ok _, c) \<Rightarrow> send_loop ssl env queue c
           | r \<Rightarrow> r))"

section \<open>Receiving\<close>

definition receive_message :: "bytes \<Rightarrow> 'p client \<Rightarrow> (unit, client_error) outcome \<times> 'p client" where
  "receive_message buffer c =
     (case message_from_vec buffer of
        Ok m \<Rightarrow>
          (case map_of (active_requests c) (h_id (m_header m)) of
             Some (r, _) \<Rightarrow> (Ok (), complete r (Inr m) (remove_request (h_id (m_header m)) c))
           | None \<Rightarrow> (Ok (), c))
      | Err e \<Rightarrow> (Ok (), c)
      | Panic \<Rightarrow> (Panic, c)
      | Overrun \<Rightarrow> (Overrun, c))"

text \<open>The rounds left, the number of the round, and the number kept for the check of the limit.\<close>

fun receive_loop :: "nat \<Rightarrow> nat \<Rightarrow> nat \<Rightarrow> 'p client \<Rightarrow> (nat, client_error) outcome \<times> 'p client" where
  "receive_loop 0 i messages_received c = (Ok messages_received, c)"
| "receive_loop (Suc n) i messages_received c =
     (case stream c of
        [] \<Rightarrow> (Ok messages_received, c)
      | Str_Err # rest \<Rightarrow> (Err CE_Io, c\<lparr>stream := rest\<rparr>)
      | Str_NotReady # rest \<Rightarrow> (Ok messages_received, c\<lparr>stream := rest\<rparr>)
      | Str_End # rest \<Rightarrow> (Ok messages_received, c\<lparr>stream := rest\<rparr>)
      | Str_Item buffer # rest \<Rightarrow>
          (case receive_message buffer (c\<lparr>stream := rest\<rparr>) of
             (Ok _, c) \<Rightarrow> receive_loop n (i + 1) i c
           | (Err e, c) \<Rightarrow> (Err e, c)
           | (Panic, c) \<Rightarrow> (Panic, c)
           | (Overrun, c) \<Rightarrow> (Overrun, c)))"

section \<open>Polling\<close>

definition client_done :: "'p client \<Rightarrow> bool" where
  "client_done c \<longleftrightarrow> new_receiver c = [] \<and> receiver_closed c \<and> active_requests c = []"

text \<open>The value is whether the client is done.\<close>

definition client_poll :: "'p ssl \<Rightarrow> env \<Rightarrow> 'p client \<Rightarrow> (bool, client_error) outcome \<times> 'p client" where
  "client_poll ssl env c =
     st_bind (\<lambda>c. (Ok (), drop_cancelled env c)) (\<lambda>_.
     st_bind (\<lambda>c. send_loop ssl env (new_receiver c) c) (\<lambda>_.
     st_bind (receive_loop qos_max_receive_msgs 0 0) (\<lambda>messages_received c.
     if client_done c then (Ok True, c)
     else (Ok False, if messages_received = qos_max_receive_msgs then c\<lparr>unparked := True\<rparr> else c)))) c"

section \<open>Every request is answered at most once\<close>

definition handles :: "'p client \<Rightarrow> receiver multiset" where
  "handles c = mset (map snd (new_receiver c)) + mset (map (\<lambda>(_, r, _). r) (active_requests c)) + mset (map fst (completed c))"

definition client_inv :: "'p client \<Rightarrow> bool" where
  "client_inv c \<longleftrightarrow> distinct (map fst (active_requests c))"

lemma mset_filter_key:
  "distinct (map fst xs) \<Longrightarrow> (k, v) \<in> set xs \<Longrightarrow> mset xs = add_mset (k, v) (mset (filter (\<lambda>e. fst e \<noteq> k) xs))"
proof (induction xs)
  case (Cons e xs)
  show ?case
  proof (cases "e = (k, v)")
    case True
    with Cons.prems(1) have "filter (\<lambda>e. fst e \<noteq> k) xs = xs" by (auto simp: filter_id_conv)
    with True show ?thesis by simp
  next
    case False
    with Cons.prems have "(k, v) \<in> set xs" "fst e \<noteq> k" by (auto simp: rev_image_eqI)
    with Cons show ?thesis by simp
  qed
qed simp

lemma distinct_filter_key: "distinct (map fst xs) \<Longrightarrow> distinct (map fst (filter P xs))"
  by (induction xs) auto

lemma answer_request:
  assumes "client_inv c" "(qid, r, t) \<in> set (active_requests c)"
  shows "handles (complete r res (remove_request qid c)) = handles c"
    "client_inv (complete r res (remove_request qid c))"
proof -
  note m = mset_filter_key [OF assms(1) [unfolded client_inv_def] assms(2)]
  have "mset (map (\<lambda>(_, r, _). r) (active_requests c)) =
      add_mset r (mset (map (\<lambda>(_, r, _). r) (filter (\<lambda>e. fst e \<noteq> qid) (active_requests c))))"
    unfolding mset_map m by simp
  then show "handles (complete r res (remove_request qid c)) = handles c"
    by (simp add: handles_def complete_def remove_request_def)
  show "client_inv (complete r res (remove_request qid c))"
    using assms(1) by (simp add: client_inv_def complete_def remove_request_def distinct_filter_key)
qed

lemma drop_fold:
  assumes "client_inv c" "set es \<subseteq> set (active_requests c)" "distinct (map fst es)"
  shows "let c' = fold (\<lambda>(qid, r, _) c. complete r (Inl CE_Timeout) (remove_request qid c)) es c in
    client_inv c' \<and> handles c' = handles c \<and> completed c' = completed c @ map (\<lambda>(_, r, _). (r, Inl CE_Timeout)) es \<and>
    active_requests c' = filter (\<lambda>e. fst e \<notin> fst ` set es) (active_requests c) \<and> new_receiver c' = new_receiver c \<and>
    stream c' = stream c \<and> unparked c' = unparked c"
  using assms
proof (induction es arbitrary: c)
  case (Cons e es)
  obtain qid r t where e: "e = (qid, r, t)" by (cases e)
  let ?c = "complete r (Inl CE_Timeout) (remove_request qid c)"
  have "client_inv ?c" "handles ?c = handles c" using answer_request Cons.prems(1,2) e by auto
  moreover have "active_requests ?c = filter (\<lambda>e. fst e \<noteq> qid) (active_requests c)" "new_receiver ?c = new_receiver c"
      "stream ?c = stream c" "unparked ?c = unparked c" "completed ?c = completed c @ [(r, Inl CE_Timeout)]"
    by (simp_all add: complete_def remove_request_def)
  moreover from this(1) have "set es \<subseteq> set (active_requests ?c)" using Cons.prems(2,3) e by (auto simp: rev_image_eqI)
  ultimately show ?case
    using Cons.IH [of ?c] Cons.prems(3) e by (simp add: Let_def)
qed simp

lemma drop_cancelled_props:
  assumes "client_inv c"
  shows "client_inv (drop_cancelled env c)" "handles (drop_cancelled env c) = handles c"
    "completed (drop_cancelled env c) = completed c @ map (\<lambda>(_, r, _). (r, Inl CE_Timeout)) (filter (is_dropped env) (active_requests c))"
    "active_requests (drop_cancelled env c) = filter (\<lambda>e. \<not> is_dropped env e) (active_requests c)"
    "new_receiver (drop_cancelled env c) = new_receiver c" "stream (drop_cancelled env c) = stream c"
    "unparked (drop_cancelled env c) = unparked c"
proof -
  let ?es = "filter (is_dropped env) (active_requests c)"
  have "distinct (map fst (active_requests c))" using assms by (simp add: client_inv_def)
  then have "e \<in> set (active_requests c) \<Longrightarrow> fst e \<in> fst ` set ?es \<longleftrightarrow> is_dropped env e" for e
    by (auto simp: distinct_map dest: inj_onD)
  then have "filter (\<lambda>e. fst e \<notin> fst ` set ?es) (active_requests c) = filter (\<lambda>e. \<not> is_dropped env e) (active_requests c)"
    by (intro filter_cong) auto
  with drop_fold [OF assms, of ?es] distinct_filter_key assms
  show "client_inv (drop_cancelled env c)" "handles (drop_cancelled env c) = handles c"
    "completed (drop_cancelled env c) = completed c @ map (\<lambda>(_, r, _). (r, Inl CE_Timeout)) ?es"
    "active_requests (drop_cancelled env c) = filter (\<lambda>e. \<not> is_dropped env e) (active_requests c)"
    "new_receiver (drop_cancelled env c) = new_receiver c" "stream (drop_cancelled env c) = stream c"
    "unparked (drop_cancelled env c) = unparked c"
    by (auto simp: drop_cancelled_def Let_def client_inv_def)
qed

lemma pick_id_props:
  assumes "pick_id n env c = (q, c')"
  shows "active_requests c' = active_requests c" "completed c' = completed c" "new_receiver c' = new_receiver c"
    "stream c' = stream c" "handles c' = handles c" "client_inv c' = client_inv c" "signer c' = signer c"
    "q = Some qid \<Longrightarrow> \<not> has_request qid c'"
proof -
  have "active_requests c' = active_requests c \<and> completed c' = completed c \<and> new_receiver c' = new_receiver c \<and>
      stream c' = stream c \<and> signer c' = signer c \<and> (q = Some qid \<longrightarrow> \<not> has_request qid c')"
    using assms by (induction n arbitrary: c) (auto simp: Let_def has_request_def split: if_splits)
  then show "active_requests c' = active_requests c" "completed c' = completed c" "new_receiver c' = new_receiver c"
    "stream c' = stream c" "handles c' = handles c" "client_inv c' = client_inv c" "signer c' = signer c"
    "q = Some qid \<Longrightarrow> \<not> has_request qid c'"
    by (simp_all add: handles_def client_inv_def)
qed

lemma sign_request_header: "sign_request ssl env m c = Ok m' \<Longrightarrow> m_header m' = m_header m"
  by (auto simp: sign_request_def split: if_splits option.splits elim: message_sign_OkE)

definition only_errors :: "(receiver \<times> client_result) list \<Rightarrow> bool" where
  "only_errors new \<longleftrightarrow> (\<forall>r m. (r, Inr m) \<notin> set new)"

lemma only_errors_append [simp]: "only_errors (xs @ ys) \<longleftrightarrow> only_errors xs \<and> only_errors ys" "only_errors []"
  by (auto simp: only_errors_def)

text \<open>A request taken off the queue ends up active under its id, or answered with an error, or the client failed.\<close>

definition registers :: "u16 \<Rightarrow> receiver \<Rightarrow> bool \<Rightarrow> 'p client \<Rightarrow> 'p client \<Rightarrow> bool" where
  "registers qid r ok c c' \<longleftrightarrow>
     client_inv c' \<and> handles c' \<subseteq># add_mset r (handles c) \<and> (ok \<longrightarrow> handles c' = add_mset r (handles c)) \<and>
     (\<exists>new. completed c' = completed c @ new \<and> only_errors new) \<and>
     new_receiver c' = new_receiver c \<and> stream c' = stream c \<and>
     (active_requests c' = active_requests c \<or> (\<exists>t. active_requests c' = (qid, r, t) # active_requests c))"

lemma registers_fail: "client_inv c \<Longrightarrow> registers qid r False c c"
  by (simp add: registers_def)

lemma registers_error: "client_inv c \<Longrightarrow> registers qid r ok c (complete r (Inl e) c)"
  by (auto simp: registers_def complete_def handles_def client_inv_def only_errors_def)

lemma registers_insert:
  assumes "client_inv c" "\<not> has_request qid c"
  shows "registers qid r ok c (insert_request qid r t c)"
proof -
  have "filter (\<lambda>e. fst e \<noteq> qid) (active_requests c) = active_requests c"
    using assms(2) by (auto simp: has_request_def filter_id_conv map_of_eq_None_iff rev_image_eqI)
  with assms show ?thesis
    by (auto simp: registers_def insert_request_def handles_def client_inv_def has_request_def map_of_eq_None_iff only_errors_def)
qed

lemma registers_cong:
  "registers qid r ok (c\<lparr>timers := n\<rparr>) c' = registers qid r ok c c'"
  "registers qid r ok (c\<lparr>sent := b\<rparr>) c' = registers qid r ok c c'"
  "registers qid r ok c (c'\<lparr>timers := n\<rparr>) = registers qid r ok c c'"
  "client_inv (c\<lparr>timers := n\<rparr>) = client_inv c" "client_inv (c\<lparr>sent := b\<rparr>) = client_inv c"
  "has_request qid (c\<lparr>timers := n\<rparr>) = has_request qid c" "has_request qid (c\<lparr>sent := b\<rparr>) = has_request qid c"
  by (simp_all add: registers_def handles_def client_inv_def has_request_def)

lemma send_request_registers:
  assumes "send_request ssl env m r c = (res, c')" "client_inv c" "\<not> has_request (h_id (m_header m)) c"
  shows "registers (h_id (m_header m)) r (is_ok res) c c'"
proof (cases "sign_request ssl env m c")
  case (Ok m')
  let ?c = "c\<lparr>timers := timers c + 1\<rparr>"
  have id: "h_id (m_header m') = h_id (m_header m)" using sign_request_header [OF Ok] by simp
  have c: "client_inv ?c" "\<not> has_request (h_id (m_header m)) ?c" using assms(2,3) by (simp_all add: registers_cong)
  have "registers (h_id (m_header m)) r (is_ok res) ?c c'"
  proof (cases "new_timer env (timers c)")
    case None
    with Ok assms(1) registers_error [OF c(1)] show ?thesis by (auto simp: send_request_def)
  next
    case (Some t)
    show ?thesis
    proof (cases "message_to_vec m'")
      case to_vec: (Ok buffer)
      have "registers (h_id (m_header m)) r ok ?c (insert_request (h_id (m_header m)) r t (?c\<lparr>sent := b\<rparr>))" for ok b
        using registers_insert [of "?c\<lparr>sent := b\<rparr>" "h_id (m_header m)" r ok t] c by (simp add: registers_cong)
      with Ok Some to_vec assms(1) id registers_fail [OF c(1)] show ?thesis
        by (auto simp: send_request_def Let_def split: if_splits)
    qed (use Ok Some assms(1) registers_error [OF c(1)] registers_fail [OF c(1)] in \<open>auto simp: send_request_def\<close>)
  qed
  then show ?thesis by (simp add: registers_cong)
qed (use assms(1) registers_error [OF assms(2)] registers_fail [OF assms(2)] in \<open>auto simp: send_request_def\<close>)

text \<open>
  What sending keeps: the invariant, the requests, the stream, and the active requests; it adds
  active requests of the queue and answers with errors only.
\<close>

definition sends :: "(message \<times> receiver) list \<Rightarrow> bool \<Rightarrow> 'p client \<Rightarrow> 'p client \<Rightarrow> bool" where
  "sends queue ok c c' \<longleftrightarrow>
     client_inv c' \<and> handles c' \<subseteq># handles c \<and> (ok \<longrightarrow> handles c' = handles c) \<and>
     (\<exists>new. completed c' = completed c @ new \<and> only_errors new) \<and> stream c' = stream c \<and>
     set (active_requests c) \<subseteq> set (active_requests c') \<and>
     (\<forall>(qid, r, t) \<in> set (active_requests c'). (qid, r, t) \<in> set (active_requests c) \<or> r \<in> snd ` set queue)"

lemma send_loop_sends:
  assumes "send_loop ssl env queue c = (res, c')" "client_inv c" "new_receiver c = queue"
  shows "sends queue (is_ok res) c c'"
  using assms
proof (induction queue arbitrary: c)
  case Nil
  then show ?case by (auto simp: sends_def handles_def client_inv_def only_errors_def)
next
  case (Cons e queue)
  obtain m r where e: "e = (m, r)" by (cases e)
  obtain q c1 where pick: "pick_id 100 env c = (q, c1)" by (cases "pick_id 100 env c")
  note p = pick_id_props [OF pick]
  show ?case
  proof (cases q)
    case None
    with Cons.prems e pick p show ?thesis
      by (auto simp: next_random_query_id_def sends_def handles_def client_inv_def only_errors_def)
  next
    case (Some qid)
    let ?c = "c1\<lparr>new_receiver := queue\<rparr>" and ?m = "m\<lparr>m_header := (m_header m)\<lparr>h_id := qid\<rparr>\<rparr>"
    obtain res2 c2 where s: "send_request ssl env ?m r ?c = (res2, c2)" by (cases "send_request ssl env ?m r ?c")
    have "registers qid r (is_ok res2) ?c c2"
      using send_request_registers [OF s] Cons.prems(2) p(6,8) Some by (simp add: client_inv_def has_request_def)
    moreover have "add_mset r (handles ?c) = handles c" using Cons.prems(3) e p(1-3) by (simp add: handles_def)
    ultimately have s2: "client_inv c2" "handles c2 \<subseteq># handles c" "is_ok res2 \<longrightarrow> handles c2 = handles c"
        "\<exists>new. completed c2 = completed c @ new \<and> only_errors new" "new_receiver c2 = queue" "stream c2 = stream c"
        "active_requests c2 = active_requests c \<or> (\<exists>t. active_requests c2 = (qid, r, t) # active_requests c)"
      using p(1,2,4) by (simp_all add: registers_def)
    show ?thesis
    proof (cases res2)
      case (Ok u)
      then have "send_loop ssl env queue c2 = (res, c')"
        using Cons.prems(1) e pick Some s by (simp add: next_random_query_id_def)
      from Cons.IH [OF this s2(1,5)] s2 Ok e show ?thesis
        by (auto simp: sends_def)
    qed (use Cons.prems(1) e pick Some s s2 in \<open>auto simp: next_random_query_id_def sends_def\<close>)
  qed
qed

text \<open>What receiving keeps: a response answers the active request that has its id.\<close>

definition receives :: "'p client \<Rightarrow> 'p client \<Rightarrow> bool" where
  "receives c c' \<longleftrightarrow>
     client_inv c' \<and> handles c' = handles c \<and> new_receiver c' = new_receiver c \<and> unparked c' = unparked c \<and>
     set (active_requests c') \<subseteq> set (active_requests c) \<and>
     (\<exists>new. completed c' = completed c @ new \<and>
       (\<forall>r res. (r, res) \<in> set new \<longrightarrow> (\<exists>m t. res = Inr m \<and> (h_id (m_header m), r, t) \<in> set (active_requests c))))"

lemma receives_refl: "client_inv c \<Longrightarrow> receives c c"
  by (simp add: receives_def)

lemma receives_trans:
  assumes "receives a b" "receives b c"
  shows "receives a c"
proof -
  obtain new1 new2 where n: "completed b = completed a @ new1" "completed c = completed b @ new2"
      "\<forall>r res. (r, res) \<in> set new1 \<longrightarrow> (\<exists>m t. res = Inr m \<and> (h_id (m_header m), r, t) \<in> set (active_requests a))"
      "\<forall>r res. (r, res) \<in> set new2 \<longrightarrow> (\<exists>m t. res = Inr m \<and> (h_id (m_header m), r, t) \<in> set (active_requests b))"
    using assms by (auto simp only: receives_def)
  have "set (active_requests b) \<subseteq> set (active_requests a)" using assms(1) by (simp only: receives_def)
  with n have "\<forall>r res. (r, res) \<in> set (new1 @ new2) \<longrightarrow>
      (\<exists>m t. res = Inr m \<and> (h_id (m_header m), r, t) \<in> set (active_requests a))"
    by (metis (no_types, lifting) Un_iff set_append subsetD)
  with n assms show ?thesis unfolding receives_def by (intro conjI exI [of _ "new1 @ new2"]) auto
qed

lemma receives_stream [simp]:
  "receives (c\<lparr>stream := s\<rparr>) c' = receives c c'" "receives c (c'\<lparr>stream := s\<rparr>) = receives c c'"
  by (simp_all add: receives_def handles_def client_inv_def)

lemma receive_message_receives:
  assumes "receive_message buffer c = (res, c')" "client_inv c"
  shows "receives c c'" "stream c' = stream c"
proof -
  have ans: "receives c (complete r (Inr m) (remove_request (h_id (m_header m)) c))"
    if "map_of (active_requests c) (h_id (m_header m)) = Some (r, t)" for m r t
  proof -
    have mem: "(h_id (m_header m), r, t) \<in> set (active_requests c)" using that by (rule map_of_SomeD)
    with answer_request [OF assms(2) this] show ?thesis
      by (auto simp: receives_def complete_def remove_request_def)
  qed
  then show "receives c c'" "stream c' = stream c"
    using assms receives_refl [OF assms(2)]
    by (auto simp: receive_message_def complete_def remove_request_def split: outcome.splits option.splits)
qed

lemma receive_loop_receives: "receive_loop n i k c = (res, c') \<Longrightarrow> client_inv c \<Longrightarrow> receives c c'"
proof (induction n arbitrary: i k c)
  case 0
  then show ?case by (simp add: receives_refl)
next
  case (Suc n)
  show ?case
  proof (cases "stream c")
    case Nil
    with Suc.prems show ?thesis by (simp add: receives_refl)
  next
    case (Cons p rest)
    show ?thesis
    proof (cases p)
      case (Str_Item buffer)
      let ?c = "c\<lparr>stream := rest\<rparr>"
      obtain r1 c1 where r1: "receive_message buffer ?c = (r1, c1)" by (cases "receive_message buffer ?c")
      have inv: "client_inv ?c" using Suc.prems(2) by (simp add: client_inv_def)
      have c1: "receives c c1" using receive_message_receives(1) [OF r1 inv] by simp
      show ?thesis
      proof (cases r1)
        case (Ok u)
        then have "receive_loop n (i + 1) i c1 = (res, c')" using Suc.prems(1) Cons Str_Item r1 by simp
        then have "receives c1 c'" using Suc.IH c1 by (simp add: receives_def)
        with c1 show ?thesis by (rule receives_trans)
      qed (use Suc.prems(1) Cons Str_Item r1 c1 in auto)
    qed (use Suc.prems Cons receives_refl [OF Suc.prems(2)] in auto)
  qed
qed

lemma receive_loop_limit: "receive_loop n i k c = (Ok v, c') \<Longrightarrow> k < 100 \<Longrightarrow> i + n \<le> 100 \<Longrightarrow> v < 100"
  by (induction n arbitrary: i k c) (auto split: list.splits stream_poll.splits prod.splits outcome.splits)

text \<open>
  The three parts of a poll; a part that fails is the last one.
\<close>

lemma client_poll_parts:
  assumes "client_poll ssl env c = (res, c')" "client_inv c"
  obtains (stuck) r1 where "send_loop ssl env (new_receiver c) (drop_cancelled env c) = (r1, c')" "\<not> is_ok r1" "\<not> is_ok res"
  | (ran) c1 r2 c2 where "send_loop ssl env (new_receiver c) (drop_cancelled env c) = (Ok (), c1)"
      "receive_loop qos_max_receive_msgs 0 0 c1 = (r2, c2)" "is_ok res = is_ok r2"
      "c' = c2" "\<And>b. res = Ok b \<Longrightarrow> b = client_done c'"
proof -
  let ?d = "drop_cancelled env c"
  obtain r1 c1 where s: "send_loop ssl env (new_receiver c) ?d = (r1, c1)" by (cases "send_loop ssl env (new_receiver c) ?d")
  have new: "new_receiver ?d = new_receiver c" using drop_cancelled_props [OF assms(2)] by simp
  show thesis
  proof (cases r1)
    case (Ok u)
    obtain r2 c2 where r: "receive_loop qos_max_receive_msgs 0 0 c1 = (r2, c2)"
      by (cases "receive_loop qos_max_receive_msgs 0 0 c1")
    have small: "v < 100" if "r2 = Ok v" for v
      using receive_loop_limit [of 100 0 0 c1 v c2] r that by (simp add: qos_max_receive_msgs_def)
    have "(res, c') = (case r2 of Ok v \<Rightarrow> (Ok (client_done c2), c2) | Err e \<Rightarrow> (Err e, c2) | Panic \<Rightarrow> (Panic, c2)
        | Overrun \<Rightarrow> (Overrun, c2))"
      unfolding assms(1) [symmetric] client_poll_def
      by (cases r2) (use s r Ok new small in \<open>simp_all add: st_bind.simps qos_max_receive_msgs_def\<close>)
    then show thesis using s r Ok by (intro ran [of c1 r2 c2]) (auto split: outcome.splits)
  next
    case (Err e)
    then show thesis using assms(1) s new by (intro stuck [of r1]) (auto simp: client_poll_def st_bind.simps)
  next
    case Panic
    then show thesis using assms(1) s new by (intro stuck [of r1]) (auto simp: client_poll_def st_bind.simps)
  next
    case Overrun
    then show thesis using assms(1) s new by (intro stuck [of r1]) (auto simp: client_poll_def st_bind.simps)
  qed
qed

lemma client_poll_keeps:
  assumes "client_poll ssl env c = (res, c')" "client_inv c"
  shows "client_inv c' \<and> handles c' \<subseteq># handles c \<and> (is_ok res \<longrightarrow> handles c' = handles c) \<and>
    (\<exists>new. completed c' = completed c @ new \<and>
      (\<forall>r m. (r, Inr m) \<in> set new \<longrightarrow>
         (\<exists>t. (h_id (m_header m), r, t) \<in> set (active_requests c)) \<or> r \<in> snd ` set (new_receiver c)))"
proof -
  note d = drop_cancelled_props [OF assms(2), of env]
  have sends: "sends (new_receiver c) (is_ok r1) (drop_cancelled env c) c1"
    if "send_loop ssl env (new_receiver c) (drop_cancelled env c) = (r1, c1)" for r1 c1
    by (rule send_loop_sends [OF that d(1,5)])
  from assms show ?thesis
  proof (cases rule: client_poll_parts)
    case (stuck r1)
    from sends [OF stuck(1)] obtain new where "completed c' = completed (drop_cancelled env c) @ new" "only_errors new"
        "client_inv c'" "handles c' \<subseteq># handles c"
      using d(2) by (auto simp: sends_def)
    with stuck(3) d(3) show ?thesis by (auto simp: only_errors_def)
  next
    case (ran c1 r2 c2)
    from sends [OF ran(1)] obtain new1 where s: "completed c1 = completed (drop_cancelled env c) @ new1" "only_errors new1"
        "client_inv c1" "handles c1 = handles c"
      using d(2) by (auto simp: sends_def)
    have act: "(qid, q, t) \<in> set (active_requests c) \<or> q \<in> snd ` set (new_receiver c)"
      if "(qid, q, t) \<in> set (active_requests c1)" for qid q t
      using sends [OF ran(1)] that unfolding sends_def d(4) by fastforce
    from receive_loop_receives [OF ran(2) s(3)] obtain new2 where r: "completed c2 = completed c1 @ new2"
        "\<forall>r res. (r, res) \<in> set new2 \<longrightarrow> (\<exists>m t. res = Inr m \<and> (h_id (m_header m), r, t) \<in> set (active_requests c1))"
        "client_inv c2" "handles c2 = handles c1"
      unfolding receives_def by blast
    let ?drop = "map (\<lambda>(_, r, _). (r, Inl CE_Timeout :: client_result)) (filter (is_dropped env) (active_requests c))"
    have "(\<exists>t. (h_id (m_header m), q, t) \<in> set (active_requests c)) \<or> q \<in> snd ` set (new_receiver c)"
      if "(q, Inr m) \<in> set (?drop @ new1 @ new2)" for q m
      using that s(2) act r(2) by (fastforce simp: only_errors_def)
    moreover have "completed c' = completed c @ ?drop @ new1 @ new2" using r(1) s(1) d(3) ran(4) by simp
    ultimately show ?thesis using r(3,4) s(4) ran(4) by auto
  qed
qed

text \<open>
  C17. Polling keeps requests and answers apart: the ids of the active requests stay distinct, no
  request is dropped or answered twice, and a response is only ever given to the request that was
  active under its id, or that this poll took off the queue. If the poll succeeds, every request that
  was queued, active or answered before is still queued, active or answered.
\<close>
theorem client_poll_exactly_once:
  assumes "client_poll ssl env c = (res, c')" "client_inv c"
  shows "client_inv c' \<and> handles c' \<subseteq># handles c \<and> (is_ok res \<longrightarrow> handles c' = handles c) \<and>
    (\<exists>new. completed c' = completed c @ new \<and>
      (\<forall>r m. (r, Inr m) \<in> set new \<longrightarrow>
         (\<exists>t. (h_id (m_header m), r, t) \<in> set (active_requests c)) \<or> r \<in> snd ` set (new_receiver c)))"
  by (rule client_poll_keeps [OF assms])

section \<open>Runs\<close>

text \<open>
  A run of a client, with the receivers of the requests that were sent to it: requests with fresh receivers
  are sent, bytes arrive, the last handle is dropped, and the event loop polls the client as long as its
  polls succeed.
\<close>

inductive client_run :: "'p ssl \<Rightarrow> receiver list \<Rightarrow> 'p client \<Rightarrow> bool" for ssl where
  run_new: "client_run ssl [] (client_new str sg)"
| run_send: "client_run ssl rs c \<Longrightarrow> r \<notin> set rs \<Longrightarrow> basic_send reason m r (Some c) = (res, Some c') \<Longrightarrow>
    client_run ssl (rs @ [r]) c'"
| run_arrive: "client_run ssl rs c \<Longrightarrow> client_run ssl rs (c\<lparr>stream := stream c @ [p]\<rparr>)"
| run_close: "client_run ssl rs c \<Longrightarrow> client_run ssl rs (c\<lparr>receiver_closed := True\<rparr>)"
| run_poll: "client_run ssl rs c \<Longrightarrow> client_poll ssl env c = (Ok finished, c') \<Longrightarrow> client_run ssl rs c'"

lemma count_mono_le: "a \<subseteq># b \<Longrightarrow> \<forall>r. count b r \<le> 1 \<Longrightarrow> \<forall>r. count a r \<le> (1 :: nat)"
  by (meson le_trans mset_subset_eq_count)

lemma client_run_inv: "client_run ssl rs c \<Longrightarrow> client_inv c \<and> distinct rs \<and> handles c = mset rs"
proof (induction rule: client_run.induct)
  case (run_poll rs c env finished c')
  then show ?case using client_poll_keeps [OF run_poll.hyps(2)] by simp
qed (auto simp: client_inv_def handles_def client_new_def basic_send_def)

lemma count_le_distinct: "(\<forall>r. count (mset xs) r \<le> 1) \<longleftrightarrow> distinct xs"
proof
  show "distinct xs" if "\<forall>r. count (mset xs) r \<le> 1"
    using that
  proof (induction xs)
    case (Cons x xs)
    have "count (mset xs) x = 0" using Cons.prems [rule_format, of x] by simp
    moreover have "\<forall>r. count (mset xs) r \<le> 1"
      using Cons.prems by (metis add_mset_add_single count_mono_le mset.simps(2) mset_subset_eq_add_left)
    ultimately show ?case using Cons.IH by (simp add: count_eq_zero_iff)
  qed simp
qed (simp add: distinct_count_atmost_1)

text \<open>
  C16. In every run of a client the ids of the active requests are distinct and every request that was
  sent to it is in exactly one place, waiting in the queue, active or answered: none is lost and none is
  answered twice. When a poll fails, which ends the run, requests may be lost, but none is answered twice.
\<close>
theorem client_run_answers_once:
  assumes "client_run ssl rs c"
  shows "distinct (map fst (active_requests c)) \<and> distinct rs \<and>
    mset rs = mset (map snd (new_receiver c) @ map (\<lambda>(_, r, _). r) (active_requests c) @ map fst (completed c)) \<and>
    (\<forall>env res c'. client_poll ssl env c = (res, c') \<longrightarrow>
       distinct (map snd (new_receiver c') @ map (\<lambda>(_, r, _). r) (active_requests c') @ map fst (completed c')))"
proof -
  note run = client_run_inv [OF assms]
  have "distinct (map snd (new_receiver c') @ map (\<lambda>(_, r, _). r) (active_requests c') @ map fst (completed c'))"
    if "client_poll ssl env c = (res, c')" for env res c'
  proof -
    have "handles c' \<subseteq># mset rs" using client_poll_keeps [OF that] run by auto
    moreover have "\<forall>r. count (mset rs) r \<le> 1" using run unfolding count_le_distinct by blast
    ultimately have "\<forall>r. count (handles c') r \<le> 1" by (rule count_mono_le)
    then show ?thesis unfolding count_le_distinct [symmetric] by (simp add: handles_def add.assoc)
  qed
  with run show ?thesis by (auto simp: client_inv_def handles_def add.assoc)
qed

lemma receive_first:
  assumes "stream c = Str_Item buffer # rest" "message_from_vec buffer = Ok m" "client_inv c"
    "(h_id (m_header m), r, t) \<in> set (active_requests c)" "receive_loop (Suc n) i k c = (res, c')"
  shows "(r, Inr m) \<in> set (completed c')"
proof -
  have "map_of (active_requests c) (h_id (m_header m)) = Some (r, t)"
    using assms(3,4) by (simp add: client_inv_def)
  then obtain c1 where c1: "receive_message buffer (c\<lparr>stream := rest\<rparr>) = (Ok (), c1)" "(r, Inr m) \<in> set (completed c1)" "client_inv c1"
    using assms(2) answer_request(2) [OF assms(3,4), of "Inr m"]
    by (auto simp: receive_message_def complete_def remove_request_def client_inv_def)
  then have "receives c1 c'" using assms(1,5) receive_loop_receives [of n "i + 1" i c1] by simp
  with c1(2) show ?thesis by (auto simp: receives_def)
qed

text \<open>
  C18. Requests are answered: a request whose timer has run out is completed with a timeout by the next
  poll, whatever else happens in it; and if the next message of the stream decodes to a response with
  the id of a request that is still waiting, a poll that gets past sending completes that request
  with the response.
\<close>
theorem client_poll_answers:
  assumes "client_poll ssl env c = (res, c')" "client_inv c" "(qid, r, t) \<in> set (active_requests c)"
  shows "(timer env t = Timer_Ready \<longrightarrow> (r, Inl CE_Timeout) \<in> set (completed c')) \<and>
    (timer env t = Timer_NotReady \<and> \<not> canceled env r \<and> is_ok res \<and> stream c = Str_Item buffer # rest \<and>
     message_from_vec buffer = Ok m \<and> h_id (m_header m) = qid \<longrightarrow> (r, Inr m) \<in> set (completed c'))"
proof (intro conjI impI)
  note d = drop_cancelled_props [OF assms(2), of env]
  assume "timer env t = Timer_Ready"
  then have "(r, Inl CE_Timeout) \<in> set (completed (drop_cancelled env c))"
    using assms(3) d(3) by (force simp: is_dropped_def)
  moreover have "set (completed (drop_cancelled env c)) \<subseteq> set (completed c1)"
    if "send_loop ssl env (new_receiver c) (drop_cancelled env c) = (r1, c1)" for r1 c1
    using send_loop_sends [OF that d(1,5)] by (auto simp: sends_def)
  moreover have "set (completed c1) \<subseteq> set (completed c')"
    if "send_loop ssl env (new_receiver c) (drop_cancelled env c) = (r1, c1)" "receive_loop n i k c1 = (r2, c')" for r1 c1 n i k r2
    using receive_loop_receives [OF that(2)] send_loop_sends [OF that(1) d(1,5)] by (auto simp: sends_def receives_def)
  ultimately have "(r, Inl CE_Timeout) \<in> set (completed c')"
    if "send_loop ssl env (new_receiver c) (drop_cancelled env c) = (r1, c1)" "c' = c1 \<or> receive_loop n i k c1 = (r2, c')" for r1 c1 n i k r2
    using that by blast
  with assms(1,2) show "(r, Inl CE_Timeout) \<in> set (completed c')"
    by (elim client_poll_parts) blast+
next
  note d = drop_cancelled_props [OF assms(2), of env]
  assume a: "timer env t = Timer_NotReady \<and> \<not> canceled env r \<and> is_ok res \<and> stream c = Str_Item buffer # rest \<and>
     message_from_vec buffer = Ok m \<and> h_id (m_header m) = qid"
  from assms(1,2) show "(r, Inr m) \<in> set (completed c')"
  proof (cases rule: client_poll_parts)
    case (ran c1 r2 c2)
    have "(qid, r, t) \<in> set (active_requests (drop_cancelled env c))" using a assms(3) d(4) by (simp add: is_dropped_def)
    then have "(qid, r, t) \<in> set (active_requests c1)" "stream c1 = Str_Item buffer # rest" "client_inv c1"
      using send_loop_sends [OF ran(1) d(1,5)] d(6) a by (auto simp: sends_def)
    with ran(2,4) a show ?thesis using receive_first [of c1 buffer rest m r t 99] by (simp add: qos_max_receive_msgs_def)
  qed (use a in simp)
qed

text \<open>
  The limit of 100 messages per poll can leave a client asleep: it asks to be polled again only if
  the number of the last message read is 100, but the messages are counted from 0, so a poll that
  stops at the limit with messages left in the stream never asks for it.
\<close>
lemma qos_limit_never_wakes:
  assumes "client_poll ssl env c = (Ok False, c')" "client_inv c" "new_receiver c = []"
  shows "unparked c' = unparked c"
  using assms(1,2)
proof (cases rule: client_poll_parts)
  case (ran c1 r2 c2)
  note d = drop_cancelled_props [OF assms(2), of env]
  have "c1 = drop_cancelled env c\<lparr>new_receiver := []\<rparr>" using ran(1) assms(3) by simp
  moreover from this have "client_inv c1" using d(1) by (simp add: client_inv_def)
  ultimately show ?thesis using receive_loop_receives [OF ran(2)] ran(4) d(7) by (simp add: receives_def)
qed simp

definition sample_env :: env where
  "sample_env = \<lparr>canceled = (\<lambda>_. False), timer = (\<lambda>t. if t = 0 then Timer_Ready else Timer_NotReady), draw = (\<lambda>n. 7),
     new_timer = Some, send_ok = (\<lambda>_. True), timestamp_now = 0\<rparr>"

definition sample_client :: "bytes client" where
  "sample_client =
     \<lparr>active_requests = [(5, 11, 0), (6, 12, 1)], new_receiver = [(client_query 0 (Name [''a'']) CL_IN RT_A, 13)],
      receiver_closed = False, signer = None, stream = [Str_Item [0, 6, 128, 0, 0, 0, 0, 0, 0, 0, 0, 0]], draws = 0,
      timers = 2, sent = [], completed = [], unparked = False\<rparr>"

lemma sample_client_inv: "client_inv sample_client"
  by code_simp

lemma sample_poll:
  obtains b c' where "client_poll toy_ssl sample_env sample_client = (Ok b, c')" "active_requests c' = [(7, 13, 2)]"
proof -
  have "case client_poll toy_ssl sample_env sample_client of (Ok b, c') \<Rightarrow> active_requests c' = [(7, 13, 2)] | _ \<Rightarrow> False"
    by code_simp
  then show thesis using that by (auto split: prod.splits outcome.splits)
qed

theorem client_run_answers_once_witness:
  "\<exists>c :: bytes client. client_run toy_ssl [13] c \<and> map (\<lambda>(_, r, _). r) (active_requests c) = [13] \<and> completed c = []"
proof -
  let ?m = "client_query 0 (Name [''a'']) CL_IN RT_A"
  let ?c = "client_new [] None\<lparr>new_receiver := [(?m, 13)]\<rparr> :: bytes client"
  have "client_run toy_ssl [] (client_new [] None :: bytes client)" by (rule run_new)
  then have "client_run toy_ssl ([] @ [13]) ?c"
    by (rule run_send [of _ _ _ 13 "[]" ?m None]) (simp_all add: basic_send_def client_new_def)
  moreover have "case client_poll toy_ssl sample_env ?c of (Ok _, c') \<Rightarrow> length (active_requests c') = 1 | _ \<Rightarrow> False" by code_simp
  then obtain b c' where c': "client_poll toy_ssl sample_env ?c = (Ok b, c')" "length (active_requests c') = 1"
    by (auto split: prod.splits outcome.splits)
  ultimately have run: "client_run toy_ssl [13] c'" using run_poll by fastforce
  have "length (map snd (new_receiver c')) + 1 + length (completed c') = 1" "13 \<in> set (map (\<lambda>(_, r, _). r) (active_requests c'))"
    using client_run_answers_once [OF run] c'(2) by (cases "active_requests c'"; fastforce dest: mset_eq_length mset_eq_setD)+
  with run c'(2) show ?thesis by (intro exI [of _ c']) (cases "active_requests c'"; auto)
qed

theorem client_poll_exactly_once_witness:
  "\<exists>c'. handles c' = {#11, 12, 13#} \<and> client_inv c' \<and> active_requests c' = [(7, 13, 2)] \<and>
     snd (client_poll toy_ssl sample_env sample_client) = c'"
proof (rule sample_poll)
  fix b c'
  assume p: "client_poll toy_ssl sample_env sample_client = (Ok b, c')" "active_requests c' = [(7, 13, 2)]"
  have "handles sample_client = {#11, 12, 13#}" by (simp add: handles_def sample_client_def add_mset_commute)
  with client_poll_exactly_once [OF p(1) sample_client_inv] p show ?thesis by auto
qed

theorem client_poll_answers_witness:
  "\<exists>m. (11, Inl CE_Timeout) \<in> set (completed (snd (client_poll toy_ssl sample_env sample_client))) \<and>
     (12, Inr m) \<in> set (completed (snd (client_poll toy_ssl sample_env sample_client)))"
proof (rule sample_poll)
  fix b c'
  assume p: "client_poll toy_ssl sample_env sample_client = (Ok b, c')"
  let ?buffer = "[0, 6, 128, 0, 0, 0, 0, 0, 0, 0, 0, 0] :: bytes"
  have "case message_from_vec ?buffer of Ok m \<Rightarrow> h_id (m_header m) = 6 | _ \<Rightarrow> False" by code_simp
  then obtain m where m: "message_from_vec ?buffer = Ok m" "h_id (m_header m) = 6" by (auto split: outcome.splits)
  have "(11, Inl CE_Timeout) \<in> set (completed c')"
    using client_poll_answers [OF p sample_client_inv, of 5 11 0] by (simp add: sample_client_def sample_env_def)
  moreover have "(12, Inr m) \<in> set (completed c')"
    using client_poll_answers [OF p sample_client_inv, of 6 12 1 ?buffer "[]" m] m
    by (simp add: sample_client_def sample_env_def)
  ultimately show ?thesis using p by auto
qed

lemma receive_undecodable:
  assumes "message_from_vec buffer = Err e"
  shows "\<exists>v. receive_loop n i k (c\<lparr>stream := replicate (n + m) (Str_Item buffer)\<rparr>) =
    (Ok v, c\<lparr>stream := replicate m (Str_Item buffer)\<rparr>)"
proof (induction n arbitrary: i k)
  case (Suc n)
  then show ?case using assms by (simp add: receive_message_def)
qed simp

end
