(* ===== verification/Client_Handles.thy ===== *)
theory Client_Handles
  imports Client_Future
begin

text \<open>
  The handles that wrap another handle: a future shared by its clones (\<open>client/src/client/rc_future.rs\<close>), a
  handle that answers repeated queries from what it has seen (\<open>memoize_client_handle.rs\<close>) and one that
  sends a request again when it fails (\<open>retry_client_handle.rs\<close>).

  A future is a state with a poll. The wrapped handle is the state \<open>'c\<close> with \<open>send\<close>, which gives a future
  \<open>'f\<close>, and \<open>poll\<close> of such a future; a clone of a handle shares its state, as the handles of the source do.
\<close>

datatype ('a, 'e) async = Ready 'a | NotReady | Failed 'e

section \<open>Shared futures\<close>

text \<open>
  \<open>rc_future\<close> and \<open>result\<close> are shared by the clones of an \<open>RcFuture\<close>, so all of them are one record. The
  future is fused: once it is finished it stays not ready. \<open>clone_error\<close> is the \<open>Clone\<close> of the error type.
\<close>

record ('f, 'a, 'e) rc_future =
  rc_inner :: 'f
  rc_finished :: bool
  rc_result :: "('a, 'e) async option"

definition rc_new :: "'f \<Rightarrow> ('f, 'a, 'e) rc_future" where
  "rc_new f = \<lparr>rc_inner = f, rc_finished = False, rc_result = None\<rparr>"

definition fuse_poll ::
  "('f \<Rightarrow> ('a, 'e) async \<times> 'f) \<Rightarrow> ('f, 'a, 'e) rc_future \<Rightarrow> ('a, 'e) async \<times> ('f, 'a, 'e) rc_future" where
  "fuse_poll poll r =
     (if rc_finished r then (NotReady, r)
      else case poll (rc_inner r) of (x, f) \<Rightarrow> (x, r\<lparr>rc_inner := f, rc_finished := (x \<noteq> NotReady)\<rparr>))"

fun clone_async :: "('e \<Rightarrow> 'e) \<Rightarrow> ('a, 'e) async \<Rightarrow> ('a, 'e) async" where
  "clone_async clone_error (Ready x) = Ready x"
| "clone_async clone_error NotReady = NotReady"
| "clone_async clone_error (Failed e) = Failed (clone_error e)"

definition rc_poll ::
  "('e \<Rightarrow> 'e) \<Rightarrow> ('f \<Rightarrow> ('a, 'e) async \<times> 'f) \<Rightarrow> ('f, 'a, 'e) rc_future \<Rightarrow> ('a, 'e) async \<times> ('f, 'a, 'e) rc_future" where
  "rc_poll clone_error poll r =
     (case rc_result r of
        Some x \<Rightarrow> (clone_async clone_error x, r)
      | None \<Rightarrow>
          (case fuse_poll poll r of
             (NotReady, r) \<Rightarrow> (NotReady, r)
           | (x, r) \<Rightarrow> (x, r\<lparr>rc_result := Some (clone_async clone_error x)\<rparr>)))"

section \<open>Memoized queries\<close>

text \<open>
  \<open>active_queries\<close> maps a query to the shared future of its request; the futures that \<open>send\<close> returned are
  kept in a store, and what it returns is a place in this store.
\<close>

record ('c, 'f) memo =
  mm_client :: 'c
  active_queries :: "(query \<times> nat) list"
  mm_futures :: "('f, message, client_error) rc_future list"

definition memo_new :: "'c \<Rightarrow> ('c, 'f) memo" where
  "memo_new c = \<lparr>mm_client = c, active_queries = [], mm_futures = []\<rparr>"

definition same_query :: "query \<Rightarrow> query \<Rightarrow> bool" where
  "same_query a b \<longleftrightarrow> name_eq (q_name a) (q_name b) \<and> q_type a = q_type b \<and> q_class a = q_class b"

definition memo_find :: "query \<Rightarrow> ('c, 'f) memo \<Rightarrow> nat option" where
  "memo_find q s = map_option snd (find (\<lambda>(k, _). same_query k q) (active_queries s))"

definition memo_send :: "(message \<Rightarrow> 'c \<Rightarrow> 'f \<times> 'c) \<Rightarrow> message \<Rightarrow> ('c, 'f) memo \<Rightarrow> (nat, client_error) outcome \<times> ('c, 'f) memo" where
  "memo_send send m s =
     (case m_queries m of
        [] \<Rightarrow> (Panic, s)
      | query # _ \<Rightarrow>
          (case memo_find query s of
             Some i \<Rightarrow> (Ok i, s)
           | None \<Rightarrow>
               (case send m (mm_client s) of (f, c) \<Rightarrow>
                  (Ok (length (mm_futures s)),
                   s\<lparr>mm_client := c, active_queries := (query, length (mm_futures s)) # active_queries s,
                     mm_futures := mm_futures s @ [rc_new f]\<rparr>))))"

text \<open>The \<open>Clone\<close> of a client error keeps its text only.\<close>

definition memo_poll ::
  "(client_error \<Rightarrow> string) \<Rightarrow> ('f \<Rightarrow> (message, client_error) async \<times> 'f) \<Rightarrow> nat \<Rightarrow> ('c, 'f) memo \<Rightarrow>
     (message, client_error) async \<times> ('c, 'f) memo" where
  "memo_poll show_error poll i s =
     (case rc_poll (\<lambda>e. CE_Msg (''ClientError: '' @ show_error e)) poll (mm_futures s ! i) of
        (x, r) \<Rightarrow> (x, s\<lparr>mm_futures := (mm_futures s)[i := r]\<rparr>))"

section \<open>Retries\<close>

record ('c, 'f) retry_future =
  rt_message :: message
  rt_client :: 'c
  rt_future :: 'f
  remaining_attempts :: nat

definition retry_send :: "(message \<Rightarrow> 'c \<Rightarrow> 'f \<times> 'c) \<Rightarrow> nat \<Rightarrow> message \<Rightarrow> 'c \<Rightarrow> ('c, 'f) retry_future" where
  "retry_send send attempts m c =
     (case send m c of (f, c) \<Rightarrow> \<lparr>rt_message = m, rt_client = c, rt_future = f, remaining_attempts = attempts\<rparr>)"

function retry_poll ::
  "(message \<Rightarrow> 'c \<Rightarrow> 'f \<times> 'c) \<Rightarrow> ('f \<Rightarrow> (message, client_error) async \<times> 'f) \<Rightarrow> ('c, 'f) retry_future \<Rightarrow>
     (message, client_error) async \<times> ('c, 'f) retry_future" where
  "retry_poll send poll s =
     (case poll (rt_future s) of
        (Failed e, f) \<Rightarrow>
          if remaining_attempts s = 0 then (Failed e, s\<lparr>rt_future := f\<rparr>)
          else
            (case send (rt_message s) (rt_client s) of (f, c) \<Rightarrow>
               retry_poll send poll
                 (s\<lparr>remaining_attempts := remaining_attempts s - 1, rt_future := f, rt_client := c\<rparr>))
      | (x, f) \<Rightarrow> (x, s\<lparr>rt_future := f\<rparr>))"
  by pat_completeness auto

termination
  by (relation "measure (\<lambda>(send, poll, s). remaining_attempts s)") auto

declare retry_poll.simps [simp del]

section \<open>Properties\<close>

text \<open>Once a shared future is ready, every later poll of every clone gives that value, and the inner future rests.\<close>

lemma rc_poll_settled:
  assumes "rc_poll ce poll r = (x, r')" "x \<noteq> NotReady"
  shows "(\<forall>v. x = Ready v \<longrightarrow> rc_poll ce poll r' = (Ready v, r')) \<and> (\<forall>e. x = Failed e \<longrightarrow> (\<exists>e'. rc_poll ce poll r' = (Failed e', r')))"
proof (cases "rc_result r")
  case None
  with assms show ?thesis by (auto simp: rc_poll_def split: prod.splits async.splits)
next
  case (Some y)
  with assms show ?thesis by (cases y) (auto simp: rc_poll_def)
qed

fun memo_sends :: "(message \<Rightarrow> 'c \<Rightarrow> 'f \<times> 'c) \<Rightarrow> message list \<Rightarrow> ('c, 'f) memo \<Rightarrow> (nat, client_error) outcome list \<times> ('c, 'f) memo" where
  "memo_sends send [] s = ([], s)"
| "memo_sends send (m # ms) s =
     (case memo_send send m s of (r, s) \<Rightarrow> case memo_sends send ms s of (rs, s) \<Rightarrow> (r # rs, s))"

definition query_of :: "message \<Rightarrow> query" where
  "query_of m = hd (m_queries m)"

fun first_queries :: "query list \<Rightarrow> message list \<Rightarrow> message list" where
  "first_queries seen [] = []"
| "first_queries seen (m # ms) =
     (if list_ex (\<lambda>q. same_query q (query_of m)) seen then first_queries seen ms
      else m # first_queries (query_of m # seen) ms)"

definition memo_inv :: "('c, 'f) memo \<Rightarrow> bool" where
  "memo_inv s \<longleftrightarrow> distinct (map snd (active_queries s)) \<and> (\<forall>n\<in>set (map snd (active_queries s)). n < length (mm_futures s))"

lemma same_query_equiv: "same_query a a" "same_query a b \<Longrightarrow> same_query b a" "same_query a b \<Longrightarrow> same_query b c \<Longrightarrow> same_query a c"
  by (auto simp: same_query_def name_eq_sym intro: name_eq_trans)

lemma memo_find_cong: "same_query p q \<Longrightarrow> memo_find p s = memo_find q s"
proof -
  assume "same_query p q"
  then have "(\<lambda>(k, _ :: nat). same_query k p) = (\<lambda>(k, _). same_query k q)"
    by (auto simp: fun_eq_iff intro: same_query_equiv)
  then show ?thesis by (simp add: memo_find_def)
qed

lemma memo_find_mem: "memo_find q s = Some n \<Longrightarrow> \<exists>k. (k, n) \<in> set (active_queries s) \<and> same_query k q"
  by (auto simp: memo_find_def find_Some_iff) (metis nth_mem)

lemma memo_find_inj:
  assumes "memo_inv s" "memo_find p s = Some n" "memo_find q s = Some n"
  shows "same_query p q"
proof -
  obtain k l where k: "(k, n) \<in> set (active_queries s)" "same_query k p" "(l, n) \<in> set (active_queries s)" "same_query l q"
    using memo_find_mem [OF assms(2)] memo_find_mem [OF assms(3)] by blast
  with assms(1) have "k = l" by (fastforce simp: memo_inv_def distinct_map inj_on_def)
  with k show ?thesis by (blast intro: same_query_equiv)
qed

lemma memo_send_props:
  assumes "memo_send send m s = (r, s')" "m_queries m \<noteq> []" "memo_inv s"
  shows "memo_inv s' \<and> (\<exists>i. r = Ok i \<and> memo_find (query_of m) s' = Some i) \<and> (\<forall>q i. memo_find q s = Some i \<longrightarrow> memo_find q s' = Some i) \<and>
    mm_client s' = (if memo_find (query_of m) s = None then snd (send m (mm_client s)) else mm_client s) \<and>
    map fst (active_queries s') = (if memo_find (query_of m) s = None then [query_of m] else []) @ map fst (active_queries s)"
proof (cases "memo_find (query_of m) s")
  case (Some i)
  with assms show ?thesis by (cases "m_queries m") (auto simp: memo_send_def query_of_def)
next
  case None
  obtain f c where f: "send m (mm_client s) = (f, c)" by (metis surj_pair)
  obtain qs where q: "m_queries m = query_of m # qs" using assms(2) by (cases "m_queries m") (auto simp: query_of_def)
  with assms(1) None f have s': "r = Ok (length (mm_futures s))"
    "s' = s\<lparr>mm_client := c, active_queries := (query_of m, length (mm_futures s)) # active_queries s, mm_futures := mm_futures s @ [rc_new f]\<rparr>"
    by (auto simp: memo_send_def)
  have "memo_find q s' = Some i" if "memo_find q s = Some i" for q i
    using that None memo_find_cong [of "query_of m" q s] by (auto simp: s' memo_find_def)
  moreover have "memo_inv s'" using assms(3) by (auto simp: s' memo_inv_def less_Suc_eq)
  ultimately show ?thesis using None f by (simp add: s' memo_find_def same_query_equiv(1))
qed

lemma memo_find_None: "memo_find q s = None \<longleftrightarrow> \<not> list_ex (\<lambda>k. same_query k q) (map fst (active_queries s))"
  by (auto simp: memo_find_def find_None_iff list_ex_iff)

lemma memo_sends_props:
  assumes "memo_sends send ms s = (rs, s')" "\<forall>m\<in>set ms. m_queries m \<noteq> []" "memo_inv s"
  shows "memo_inv s' \<and> rs = map (\<lambda>m. Ok (the (memo_find (query_of m) s'))) ms \<and> (\<forall>m\<in>set ms. memo_find (query_of m) s' \<noteq> None) \<and>
    (\<forall>q i. memo_find q s = Some i \<longrightarrow> memo_find q s' = Some i) \<and>
    mm_client s' = fold (\<lambda>m c. snd (send m c)) (first_queries (map fst (active_queries s)) ms) (mm_client s)"
  using assms
proof (induction ms arbitrary: s rs)
  case (Cons m ms)
  obtain r t where t: "memo_send send m s = (r, t)" by (metis surj_pair)
  obtain rs' where rs': "memo_sends send ms t = (rs', s')" "rs = r # rs'"
    using Cons.prems(1) t by (auto split: prod.splits)
  have p: "memo_inv t" "\<exists>i. r = Ok i \<and> memo_find (query_of m) t = Some i" "\<forall>q i. memo_find q s = Some i \<longrightarrow> memo_find q t = Some i"
    "mm_client t = (if memo_find (query_of m) s = None then snd (send m (mm_client s)) else mm_client s)"
    "map fst (active_queries t) = (if memo_find (query_of m) s = None then [query_of m] else []) @ map fst (active_queries s)"
    using memo_send_props [OF t] Cons.prems by auto
  note ih = Cons.IH [OF rs'(1) _ p(1)]
  show ?case using ih Cons.prems(2) p(2,3) rs'(2) p(4,5) memo_find_None [of "query_of m" s] by (auto split: if_splits)
qed (simp add: memo_inv_def)

text \<open>
  C29. The memoizing handle sends each query once. Over any sequence of requests, the wrapped handle gets
  exactly the first request of every query, and two requests share one future if and only if their first
  queries are equal. The query of an update is its zone: of two different updates to one zone, the
  second is not sent, and its sender gets the response of the first.
\<close>
theorem memo_sends_once:
  assumes "memo_sends send ms (memo_new c) = (rs, s)" "\<forall>m\<in>set ms. m_queries m \<noteq> []"
  shows "mm_client s = fold (\<lambda>m c. snd (send m c)) (first_queries [] ms) c \<and> length rs = length ms \<and>
    (\<forall>i<length ms. \<forall>j<length ms. rs ! i = rs ! j \<longleftrightarrow> same_query (query_of (ms ! i)) (query_of (ms ! j)))"
proof -
  have "memo_inv (memo_new c)" by (simp add: memo_inv_def memo_new_def)
  note p = memo_sends_props [OF assms this]
  have "rs ! i = rs ! j \<longleftrightarrow> same_query (query_of (ms ! i)) (query_of (ms ! j))" if ij: "i < length ms" "j < length ms" for i j
  proof -
    obtain a b where f: "memo_find (query_of (ms ! i)) s = Some a" "memo_find (query_of (ms ! j)) s = Some b"
      using p nth_mem [OF ij(1)] nth_mem [OF ij(2)] by blast
    then have "rs ! i = Ok a" "rs ! j = Ok b" using p ij by simp_all
    then have "rs ! i = rs ! j \<longleftrightarrow> a = b" by simp
    also have "\<dots> \<longleftrightarrow> same_query (query_of (ms ! i)) (query_of (ms ! j))"
    proof
      assume "a = b"
      with f show "same_query (query_of (ms ! i)) (query_of (ms ! j))" by (intro memo_find_inj [OF conjunct1 [OF p] f(1)]) simp
    next
      assume "same_query (query_of (ms ! i)) (query_of (ms ! j))"
      from memo_find_cong [OF this, of s] f show "a = b" by simp
    qed
    finally show ?thesis .
  qed
  with p show ?thesis by (simp add: memo_new_def)
qed

definition update_of :: "u16 \<Rightarrow> message" where
  "update_of i = update_for i (Name [''z'']) CL_IN"

theorem memo_sends_once_witness:
  "mm_client (snd (memo_sends (\<lambda>m log. ((), m # log)) [update_of 1, update_of 2] (memo_new []))) = [update_of 1]"
proof -
  obtain rs s where r: "memo_sends (\<lambda>m log. ((), m # log)) [update_of 1, update_of 2] (memo_new []) = (rs, s)" by (metis surj_pair)
  have "m_queries (update_of i) = [query_new\<lparr>q_name := Name [''z''], q_class := CL_IN, q_type := RT_SOA\<rparr>]" for i
    by (simp add: update_of_def update_for_def add_zone_def add_query_def message_new_def)
  then have "first_queries [] [update_of 1, update_of 2] = [update_of 1]" "\<forall>m\<in>set [update_of 1, update_of 2]. m_queries m \<noteq> []"
    by (simp_all add: query_of_def same_query_equiv(1))
  with memo_sends_once [OF r] r show ?thesis by simp
qed

lemma retry_poll_props:
  assumes "retry_poll send poll s = (x, s')"
  shows "remaining_attempts s' \<le> remaining_attempts s \<and> rt_message s' = rt_message s \<and>
    rt_client s' = ((\<lambda>c. snd (send (rt_message s) c)) ^^ (remaining_attempts s - remaining_attempts s')) (rt_client s) \<and>
    (\<forall>e. x = Failed e \<longrightarrow> remaining_attempts s' = 0)"
  using assms
proof (induction send poll s rule: retry_poll.induct)
  case (1 send poll s)
  obtain y f where y: "poll (rt_future s) = (y, f)" by (metis surj_pair)
  show ?case
  proof (cases "(\<exists>e. y = Failed e) \<and> remaining_attempts s \<noteq> 0")
    case False
    with 1(2) y show ?thesis by (auto simp: retry_poll.simps [of send poll s] split: async.splits if_splits)
  next
    case True
    then obtain e n where e: "y = Failed e" "remaining_attempts s = Suc n" by (auto simp: gr0_conv_Suc)
    obtain g c where g: "send (rt_message s) (rt_client s) = (g, c)" by (metis surj_pair)
    let ?t = "s\<lparr>remaining_attempts := n, rt_future := g, rt_client := c\<rparr>"
    have "retry_poll send poll ?t = (x, s')" using 1(2) y e g by (simp add: retry_poll.simps [of send poll s])
    with 1(1) [OF y [symmetric] e(1) _ g [symmetric]] e(2)
    have "remaining_attempts s' \<le> n" "rt_message s' = rt_message s" "\<forall>e. x = Failed e \<longrightarrow> remaining_attempts s' = 0"
      "rt_client s' = ((\<lambda>c. snd (send (rt_message s) c)) ^^ (n - remaining_attempts s')) c" by auto
    with e(2) g show ?thesis by (auto simp: Suc_diff_le funpow_Suc_right simp del: funpow.simps(2))
  qed
qed

inductive retried ::
  "(message \<Rightarrow> 'c \<Rightarrow> 'f \<times> 'c) \<Rightarrow> ('f \<Rightarrow> (message, client_error) async \<times> 'f) \<Rightarrow> ('c, 'f) retry_future \<Rightarrow> ('c, 'f) retry_future \<Rightarrow> bool"
  for send poll s where
  sent: "retried send poll s s"
| repolled: "\<lbrakk>retried send poll s t; retry_poll send poll t = (NotReady, u)\<rbrakk> \<Longrightarrow> retried send poll s u"

lemma retried_props:
  "retried send poll s t \<Longrightarrow> remaining_attempts t \<le> remaining_attempts s \<and> rt_message t = rt_message s \<and>
     rt_client t = ((\<lambda>c. snd (send (rt_message s) c)) ^^ (remaining_attempts s - remaining_attempts t)) (rt_client s)"
proof (induction rule: retried.induct)
  case (repolled t u)
  let ?f = "\<lambda>c. snd (send (rt_message s) c)"
  note p = retry_poll_props [OF repolled(2)]
  have "remaining_attempts s - remaining_attempts u =
      (remaining_attempts t - remaining_attempts u) + (remaining_attempts s - remaining_attempts t)"
    using p repolled(3) by simp
  then have "(?f ^^ (remaining_attempts s - remaining_attempts u)) (rt_client s) =
      (?f ^^ (remaining_attempts t - remaining_attempts u)) ((?f ^^ (remaining_attempts s - remaining_attempts t)) (rt_client s))"
    by (simp only: funpow_add o_apply)
  with p repolled(3) show ?case by simp
qed simp

text \<open>
  C30. Retries are bounded. However often the future of a request is polled, the wrapped handle was sent the
  request once and once more for each attempt used, so at most the configured number plus one times; and
  the request fails only when all attempts were used.
\<close>
theorem retry_bounded:
  assumes "retried send poll (retry_send send attempts m c) s" "retry_poll send poll s = (x, s')"
  shows "\<exists>k\<le>attempts. rt_client s' = ((\<lambda>c. snd (send m c)) ^^ Suc k) c \<and> ((\<exists>e. x = Failed e) \<longrightarrow> k = attempts)"
proof -
  let ?s = "retry_send send attempts m c"
  have init: "remaining_attempts ?s = attempts" "rt_message ?s = m" "rt_client ?s = snd (send m c)"
    by (simp_all add: retry_send_def split: prod.splits)
  note p = retried_props [OF assms(1), unfolded init] and q = retry_poll_props [OF assms(2)]
  let ?f = "\<lambda>c. snd (send m c)" and ?k = "attempts - remaining_attempts s'"
  have "?k = (remaining_attempts s - remaining_attempts s') + (attempts - remaining_attempts s)" using p q by simp
  then have "rt_client s' = (?f ^^ ?k) (?f c)" using p q by (simp only: funpow_add o_apply)
  then have "rt_client s' = (?f ^^ Suc ?k) c" by (simp only: funpow_Suc_right o_apply)
  with q show ?thesis by (intro exI [of _ ?k]) auto
qed

definition down :: "nat \<Rightarrow> (message, client_error) async \<times> nat" where
  "down f = (Failed CE_Timeout, f)"

theorem retry_bounded_witness:
  "\<exists>s'. retry_poll (\<lambda>m n. (n, Suc n)) down (retry_send (\<lambda>m n. (n, Suc n)) 2 message_new 0) = (Failed CE_Timeout, s') \<and>
     rt_client s' = (3 :: nat)"
proof -
  let ?send = "\<lambda>m n. (n, Suc n)" and ?s = "retry_send (\<lambda>m n. (n, Suc n)) 2 message_new 0"
  have "fst (retry_poll ?send down ?s) = Failed CE_Timeout"
    by code_simp
  then obtain s' where s': "retry_poll ?send down ?s = (Failed CE_Timeout, s')" by (cases "retry_poll ?send down ?s") auto
  with retry_bounded [OF sent s'] show ?thesis by (auto simp: numeral_eq_Suc)
qed

end
