(* ===== verification/Secure_Client.thy ===== *)
theory Secure_Client
  imports Client_Future
begin

text \<open>
  The validating client of \<open>client/src/client/secure_client_handle.rs\<close>. \<open>SecureClientHandle::send\<close> sends a
  query through the wrapped handle and verifies every record set of the response: the signatures against
  keys it asks for with further queries, the keys against the trust anchor or against DS records, which
  it asks for in turn. \<open>request_depth\<close> bounds the chain.

  The wrapped handle is a parameter: \<open>answer\<close> gives the result of the request sent at a position of the
  tree of queries, so that two requests may be answered differently whenever and as often as they are
  sent. The order in which the futures of \<open>select_all\<close> complete is a parameter as well.
\<close>

section \<open>State\<close>

record secure_handle =
  sh_trust_anchor :: trust_anchor
  request_depth :: nat
  minimum_key_len :: nat
  minimum_algorithm :: algorithm

record secure_rrset =
  srr_name :: name
  srr_type :: record_type
  srr_class :: dns_class
  srr_records :: "resource list"

type_synonym rrset_id = "name \<times> record_type"

text \<open>What the validator meets: the answers to its requests, its random ids, the order of completion.\<close>

record net =
  answer :: "nat list \<Rightarrow> message \<Rightarrow> client_result"
  fresh_id :: "nat list \<Rightarrow> u16"
  completion :: "nat list \<Rightarrow> nat \<Rightarrow> nat list"

type_synonym sender = "secure_handle \<Rightarrow> nat list \<Rightarrow> message \<Rightarrow> (message, client_error) outcome"

definition with_trust_anchor :: "trust_anchor \<Rightarrow> secure_handle" where
  "with_trust_anchor ta =
     \<lparr>sh_trust_anchor = ta, request_depth = 0, minimum_key_len = 0, minimum_algorithm = RSASHA256\<rparr>"

definition clone_with_context :: "secure_handle \<Rightarrow> secure_handle" where
  "clone_with_context h = h\<lparr>request_depth := request_depth h + 1\<rparr>"

fun received :: "client_result \<Rightarrow> (message, client_error) outcome" where
  "received (Inl e) = Err e"
| "received (Inr m) = Ok m"

section \<open>Signatures\<close>

definition verify_rrset_with_dnskey ::
  "'p ssl \<Rightarrow> dnskey \<Rightarrow> sig \<Rightarrow> secure_rrset \<Rightarrow> (unit, client_error) outcome" where
  "verify_rrset_with_dnskey ssl key s rrset =
     (if revoke key then Err (CE_Message ''revoked'')
      else if \<not> zone_key key then Err (CE_Message ''is not a zone key'')
      else if dk_algorithm key \<noteq> sig_algorithm s then Err (CE_Message ''mismatched algorithm'')
      else
        bind_outcome (map_outcome_err (\<lambda>_. CE_Message ''error getting key from vec'')
            (from_public_bytes ssl (public_key key) (dk_algorithm key))) (\<lambda>pkey.
        let signer = new_verifier (dk_algorithm key) pkey (signer_name s) (zone_key key) False in
        bind_outcome (map_outcome_err CE_DnsSec
            (hash_rrset_with_sig (srr_name rrset) (srr_class rrset) s (srr_records rrset))) (\<lambda>rrset_hash.
        map_outcome_err CE_DnsSec (signer_verify ssl rrset_hash (sig_bytes s) signer))))"

definition key_of :: "resource \<Rightarrow> dnskey option" where
  "key_of r = (case rr_rdata r of RD_DNSKEY k \<Rightarrow> Some k | _ \<Rightarrow> None)"

definition sig_of :: "resource \<Rightarrow> sig option" where
  "sig_of r = (case rr_rdata r of RD_SIG s \<Rightarrow> Some s | _ \<Rightarrow> None)"

text \<open>Whether a key record verifies a signature; another kind of data is the panic of the source.\<close>

definition key_verifies :: "'p ssl \<Rightarrow> sig \<Rightarrow> secure_rrset \<Rightarrow> resource \<Rightarrow> (bool, client_error) outcome" where
  "key_verifies ssl s rrset r =
     (case key_of r of
        Some key \<Rightarrow>
          (case verify_rrset_with_dnskey ssl key s rrset of
             Ok _ \<Rightarrow> Ok True | Err _ \<Rightarrow> Ok False | Panic \<Rightarrow> Panic | Overrun \<Rightarrow> Overrun)
      | None \<Rightarrow> Panic)"

fun expect_sigs :: "resource list \<Rightarrow> (sig list, client_error) outcome" where
  "expect_sigs [] = Ok []"
| "expect_sigs (r # rs) =
     (case sig_of r of Some s \<Rightarrow> bind_outcome (expect_sigs rs) (\<lambda>ss. Ok (s # ss)) | None \<Rightarrow> Panic)"

section \<open>Keys\<close>

text \<open>\<open>preserve\<close> walks the vector from its end and removes every index that is not in the list.\<close>

fun next_index :: "nat list \<Rightarrow> nat option \<times> nat list" where
  "next_index [] = (None, [])"
| "next_index (i # it) = (Some i, it)"

fun preserve_loop :: "nat \<Rightarrow> nat option \<Rightarrow> nat list \<Rightarrow> 'a list \<Rightarrow> 'a list" where
  "preserve_loop 0 i it vec = vec"
| "preserve_loop (Suc j) i it vec =
     (let (i, it) = (if (case i of Some i \<Rightarrow> i > j | None \<Rightarrow> False) then next_index it else (i, it));
          vec = (if (case i of Some i \<Rightarrow> i \<noteq> j | None \<Rightarrow> True) then take j vec @ drop (Suc j) vec else vec)
      in preserve_loop j i it vec)"

definition preserve :: "'a list \<Rightarrow> nat list \<Rightarrow> 'a list" where
  "preserve vec indexes =
     (case next_index (rev indexes) of (i, it) \<Rightarrow> preserve_loop (length vec) i it vec)"

definition dnskeys :: "resource list \<Rightarrow> (nat \<times> dnskey) list" where
  "dnskeys rs =
     List.map_filter (\<lambda>(i, rr). map_option (Pair i) (key_of rr))
       (filter (\<lambda>(_, rr). rr_type rr = RT_DNSKEY) (enumerate 0 rs))"

definition ds_of :: "resource \<Rightarrow> ds option" where
  "ds_of r = (case rr_rdata r of RD_DS d \<Rightarrow> Some d | _ \<Rightarrow> None)"

fun filter_outcome :: "('a \<Rightarrow> (bool, 'e) outcome) \<Rightarrow> 'a list \<Rightarrow> ('a list, 'e) outcome" where
  "filter_outcome P [] = Ok []"
| "filter_outcome P (x # xs) =
     bind_outcome (P x) (\<lambda>b. bind_outcome (filter_outcome P xs) (\<lambda>ys. Ok (if b then x # ys else ys)))"

definition covered_by :: "'p ssl \<Rightarrow> name \<Rightarrow> dnskey \<Rightarrow> ds \<Rightarrow> (bool, client_error) outcome" where
  "covered_by ssl name key d =
     (case ds_covers ssl name key d of Ok b \<Rightarrow> Ok b | Err _ \<Rightarrow> Ok False | Panic \<Rightarrow> Panic | Overrun \<Rightarrow> Overrun)"

definition answered_ds :: "message \<Rightarrow> ds list" where
  "answered_ds m = List.map_filter ds_of (filter (\<lambda>r. rr_type r = RT_DS) (m_answers m))"

definition verify_dnskey_rrset ::
  "'p ssl \<Rightarrow> net \<Rightarrow> sender \<Rightarrow> secure_handle \<Rightarrow> nat list \<Rightarrow> secure_rrset \<Rightarrow> (secure_rrset, client_error) outcome" where
  "verify_dnskey_rrset ssl w send client pos rrset =
     (let anchored_keys =
            map fst (filter (\<lambda>(_, k). ta_contains (public_key k) (sh_trust_anchor client)) (dnskeys (srr_records rrset)))
      in
      if anchored_keys \<noteq> [] then Ok (rrset\<lparr>srr_records := preserve (srr_records rrset) anchored_keys\<rparr>)
      else
        bind_outcome (send client (pos @ [0]) (client_query (fresh_id w (pos @ [0])) (srr_name rrset) (srr_class rrset) RT_DS))
          (\<lambda>ds_message.
        bind_outcome (filter_outcome (\<lambda>(_, k). any_ok (covered_by ssl (srr_name rrset) k) (answered_ds ds_message))
            (dnskeys (srr_records rrset))) (\<lambda>valid_keys.
        if valid_keys \<noteq> [] then Ok (rrset\<lparr>srr_records := preserve (srr_records rrset) (map fst valid_keys)\<rparr>)
        else Err (CE_Message ''Could not validate all DNSKEYs''))))"

section \<open>Record sets\<close>

text \<open>
  \<open>select_ok\<close> over the results in the order in which they complete: the first success, or the error of the
  last. \<open>verified_loop\<close> is the loop of \<open>VerifyRrsetsFuture::poll\<close> over \<open>select_all\<close>: the sets that verified,
  or the error of the last set when that one fails. Both panic on an empty list.
\<close>

fun select_ok :: "('a, 'e) outcome list \<Rightarrow> ('a, 'e) outcome" where
  "select_ok [] = Panic"
| "select_ok (r # rest) =
     (case r of
        Ok x \<Rightarrow> Ok x
      | Err e \<Rightarrow> if rest = [] then Err e else select_ok rest
      | Panic \<Rightarrow> Panic
      | Overrun \<Rightarrow> Overrun)"

fun verified_loop :: "rrset_id list \<Rightarrow> (secure_rrset, client_error) outcome list \<Rightarrow> (rrset_id list, client_error) outcome" where
  "verified_loop verified [] = Panic"
| "verified_loop verified (r # remaining) =
     (case r of
        Ok rrset \<Rightarrow>
          let verified = (srr_name rrset, srr_type rrset) # verified in
          if remaining \<noteq> [] then verified_loop verified remaining else Ok verified
      | Err e \<Rightarrow> if remaining = [] then Err e else verified_loop verified remaining
      | Panic \<Rightarrow> Panic
      | Overrun \<Rightarrow> Overrun)"

definition verify_with_sig ::
  "'p ssl \<Rightarrow> net \<Rightarrow> sender \<Rightarrow> secure_handle \<Rightarrow> nat list \<Rightarrow> secure_rrset \<Rightarrow> sig \<Rightarrow> (secure_rrset, client_error) outcome" where
  "verify_with_sig ssl w send client pos rrset s =
     bind_outcome (send (clone_with_context client) pos
         (client_query (fresh_id w pos) (signer_name s) (srr_class rrset) RT_DNSKEY)) (\<lambda>m.
     bind_outcome (any_ok (key_verifies ssl s rrset) (filter (\<lambda>r. rr_type r = RT_DNSKEY) (m_answers m))) (\<lambda>found.
     if found then Ok rrset else Err (CE_Message ''validation failed'')))"

definition verify_default_rrset ::
  "'p ssl \<Rightarrow> net \<Rightarrow> sender \<Rightarrow> secure_handle \<Rightarrow> nat list \<Rightarrow> secure_rrset \<Rightarrow> resource list \<Rightarrow> (secure_rrset, client_error) outcome" where
  "verify_default_rrset ssl w send client pos rrset rrsigs =
     (let rrsigs = filter (\<lambda>r. rr_type r = RT_RRSIG) rrsigs in
      bind_outcome (any_ok (\<lambda>r. case sig_of r of
           Some s \<Rightarrow> Ok (srr_type rrset = RT_DNSKEY \<and> name_eq (signer_name s) (srr_name rrset)) | None \<Rightarrow> Panic) rrsigs)
        (\<lambda>self_signed.
      if self_signed then
        bind_outcome (any_ok (\<lambda>r. case sig_of r of
             Some s \<Rightarrow> any_ok (key_verifies ssl s rrset) (srr_records rrset) | None \<Rightarrow> Panic) rrsigs)
          (\<lambda>valid. if valid then Ok rrset else Err (CE_Message ''self-signed dnskey is invalid''))
      else
        bind_outcome (expect_sigs rrsigs) (\<lambda>sigs.
        if sigs = [] then
          Err (CE_Msg (''no RRSIGs available for validation: '' @ name_to_string (srr_name rrset) @ '', '' @ rt_to_str (srr_type rrset)))
        else
          select_ok (map (\<lambda>j. verify_with_sig ssl w send client (pos @ [Suc j]) rrset (sigs ! j))
            (completion w pos (length sigs))))))"

definition verify_rrset ::
  "'p ssl \<Rightarrow> net \<Rightarrow> sender \<Rightarrow> secure_handle \<Rightarrow> nat list \<Rightarrow> secure_rrset \<Rightarrow> resource list \<Rightarrow> (secure_rrset, client_error) outcome" where
  "verify_rrset ssl w send client pos rrset rrsigs =
     (if srr_type rrset = RT_DNSKEY \<and> rrsigs = [] then
        verify_dnskey_rrset ssl w send (clone_with_context client) pos rrset
      else
        bind_outcome (verify_default_rrset ssl w send (clone_with_context client) pos rrset rrsigs) (\<lambda>rrset.
        if srr_type rrset = RT_DNSKEY then verify_dnskey_rrset ssl w send client pos rrset else Ok rrset))"

section \<open>Messages\<close>

definition same_rrset :: "rrset_id \<Rightarrow> rrset_id \<Rightarrow> bool" where
  "same_rrset a b \<longleftrightarrow> name_eq (fst a) (fst b) \<and> snd a = snd b"

definition rrset_of :: "resource \<Rightarrow> rrset_id" where
  "rrset_of r = (rr_name r, rr_type r)"

definition insert_rrset_type :: "rrset_id \<Rightarrow> rrset_id list \<Rightarrow> rrset_id list" where
  "insert_rrset_type t ts = (if list_ex (same_rrset t) ts then ts else ts @ [t])"

definition needs_proof :: "secure_handle \<Rightarrow> resource \<Rightarrow> bool" where
  "needs_proof client r \<longleftrightarrow>
     rr_type r \<noteq> RT_RRSIG \<and> (request_depth client \<le> 1 \<or> rr_type r = RT_DNSKEY \<or> rr_type r = RT_DS)"

definition rrset_types :: "secure_handle \<Rightarrow> message \<Rightarrow> rrset_id list" where
  "rrset_types client m =
     fold insert_rrset_type (map rrset_of (filter (needs_proof client) (m_answers m @ m_name_servers m))) []"

definition all_sections :: "message \<Rightarrow> resource list" where
  "all_sections m = m_answers m @ m_name_servers m @ m_additionals m"

definition rrset_for :: "dns_class \<Rightarrow> message \<Rightarrow> rrset_id \<Rightarrow> secure_rrset" where
  "rrset_for cls m t =
     \<lparr>srr_name = fst t, srr_type = snd t, srr_class = cls,
      srr_records = filter (\<lambda>r. rr_type r = snd t \<and> name_eq (rr_name r) (fst t)) (all_sections m)\<rparr>"

definition rrsigs_for :: "message \<Rightarrow> rrset_id \<Rightarrow> resource list" where
  "rrsigs_for m t =
     filter (\<lambda>r. case sig_of r of Some s \<Rightarrow> type_covered s = snd t | None \<Rightarrow> False)
       (filter (\<lambda>r. rr_type r = RT_RRSIG) (all_sections m))"

text \<open>The end of \<open>VerifyRrsetsFuture::poll\<close>: the sections are taken out, filtered and put back.\<close>

definition keep_verified :: "rrset_id list \<Rightarrow> message \<Rightarrow> (message, client_error) outcome" where
  "keep_verified verified m =
     (let keep = filter (\<lambda>r. list_ex (same_rrset (rrset_of r)) verified);
          (answers, m) = take_answers m;
          (name_servers, m) = take_name_servers m;
          (additionals, m) = take_additionals m
      in bind_outcome (insert_answers (keep answers) m) (\<lambda>m.
         bind_outcome (insert_name_servers (keep name_servers) m) (\<lambda>m.
         insert_additionals (keep additionals) m)))"

definition verify_rrsets ::
  "'p ssl \<Rightarrow> net \<Rightarrow> sender \<Rightarrow> secure_handle \<Rightarrow> nat list \<Rightarrow> message \<Rightarrow> dns_class \<Rightarrow> (message, client_error) outcome" where
  "verify_rrsets ssl w send client pos m cls =
     (let types = rrset_types client m in
      if types = [] then Err (CE_Message ''no results to verify'')
      else
        bind_outcome
          (verified_loop []
             (map (\<lambda>i. verify_rrset ssl w send (clone_with_context client) (pos @ [i])
                       (rrset_for cls m (types ! i)) (rrsigs_for m (types ! i)))
               (completion w pos (length types))))
          (\<lambda>verified. keep_verified verified m))"

text \<open>\<open>verify_nsec\<close>: an NSEC record of the name without the type, or one whose gap holds the name.\<close>

definition verify_nsec :: "query \<Rightarrow> resource list \<Rightarrow> (bool, client_error) outcome" where
  "verify_nsec q nsecs =
     bind_outcome (any_ok (\<lambda>r.
         if name_eq (q_name q) (rr_name r)
         then case rr_rdata r of RD_NSEC d \<Rightarrow> Ok (q_type q \<notin> set (nsec_types d)) | _ \<Rightarrow> Panic
         else Ok False) nsecs) (\<lambda>no_type.
     if no_type then Ok True
     else any_ok (\<lambda>r.
         if name_cmp (q_name q) (rr_name r) = Greater
         then case rr_rdata r of RD_NSEC d \<Rightarrow> Ok (name_cmp (q_name q) (next_domain_name d) = Less) | _ \<Rightarrow> Panic
         else Ok False) (filter (\<lambda>r. \<not> name_eq (q_name q) (rr_name r)) nsecs))"

definition secure_request :: "message \<Rightarrow> message" where
  "secure_request m =
     (case get_edns_mut m of (e, m) \<Rightarrow>
        m\<lparr>m_edns := Some (finish_edns (e\<lparr>dnssec_ok := True\<rparr>)),
          m_header := (m_header m)\<lparr>authentic_data := True, checking_disabled := False\<rparr>\<rparr>)"

section \<open>Sending\<close>

text \<open>
  Every function above calls \<open>send\<close> on handles of a greater depth only. The congruence rules say so, and
  with them the recursion of \<open>secure_send\<close> through \<open>verify_rrsets\<close> is seen to end at the depth limit.
\<close>

lemma request_depth_clone [simp]:
  "request_depth (clone_with_context h) = Suc (request_depth h)"
  "sh_trust_anchor (clone_with_context h) = sh_trust_anchor h"
  by (simp_all add: clone_with_context_def)

lemma verify_dnskey_rrset_cong:
  assumes "send client = send' client"
  shows "verify_dnskey_rrset ssl w send client pos rrset = verify_dnskey_rrset ssl w send' client pos rrset"
  using assms by (simp add: verify_dnskey_rrset_def)

lemma verify_default_rrset_cong:
  assumes "send (clone_with_context client) = send' (clone_with_context client)"
  shows "verify_default_rrset ssl w send client pos rrset rrsigs = verify_default_rrset ssl w send' client pos rrset rrsigs"
proof -
  have "verify_with_sig ssl w send client p r s = verify_with_sig ssl w send' client p r s" for p r s
    by (simp only: verify_with_sig_def assms)
  then show ?thesis by (simp only: verify_default_rrset_def)
qed

lemma verify_rrset_cong:
  assumes "\<And>h. request_depth client \<le> request_depth h \<Longrightarrow> send h = send' h"
  shows "verify_rrset ssl w send client pos rrset rrsigs = verify_rrset ssl w send' client pos rrset rrsigs"
proof -
  have "send client = send' client" "send (clone_with_context client) = send' (clone_with_context client)"
    "send (clone_with_context (clone_with_context client)) = send' (clone_with_context (clone_with_context client))"
    by (simp_all add: assms)
  then have "verify_dnskey_rrset ssl w send client p r = verify_dnskey_rrset ssl w send' client p r"
    "verify_dnskey_rrset ssl w send (clone_with_context client) p r = verify_dnskey_rrset ssl w send' (clone_with_context client) p r"
    "verify_default_rrset ssl w send (clone_with_context client) p r s = verify_default_rrset ssl w send' (clone_with_context client) p r s"
    for p r s by (simp_all only: verify_dnskey_rrset_def cong: verify_default_rrset_cong)
  then show ?thesis by (simp only: verify_rrset_def)
qed

lemma verify_rrsets_cong [fundef_cong]:
  assumes "client = client'" "pos = pos'" "m = m'" "cls = cls'"
    and "\<And>h p q. request_depth client' < request_depth h \<Longrightarrow> send h p q = send' h p q"
  shows "verify_rrsets ssl w send client pos m cls = verify_rrsets ssl w send' client' pos' m' cls'"
proof -
  have "send h = send' h" if "request_depth (clone_with_context client') \<le> request_depth h" for h
    by (intro ext assms(5)) (use that in simp)
  then have "verify_rrset ssl w send (clone_with_context client') p r s = verify_rrset ssl w send' (clone_with_context client') p r s"
    for p r s by (rule verify_rrset_cong)
  then show ?thesis by (simp only: verify_rrsets_def assms(1-4))
qed

function secure_send :: "'p ssl \<Rightarrow> net \<Rightarrow> secure_handle \<Rightarrow> nat list \<Rightarrow> message \<Rightarrow> (message, client_error) outcome" where
  "secure_send ssl w h pos m =
     (if request_depth h > 20 then Err (CE_Message ''exceeded max validation depth'')
      else if h_op_code (m_header m) = OP_Query then
        (case m_queries m of
           [] \<Rightarrow> Panic
         | query # _ \<Rightarrow>
             let client = clone_with_context h in
             bind_outcome (received (answer w pos (secure_request m))) (\<lambda>message_response.
             bind_outcome (verify_rrsets ssl w (\<lambda>h pos m. secure_send ssl w h pos m) client pos message_response (q_class query))
               (\<lambda>verified_message.
             if m_answers verified_message = [] then
               bind_outcome (verify_nsec query (filter (\<lambda>rr. rr_type rr = RT_NSEC) (m_name_servers verified_message))) (\<lambda>proved.
               if proved then Ok verified_message
               else Err (CE_Message ''could not validate nxdomain with NSEC''))
             else Ok verified_message)))
      else received (answer w pos m))"
  by pat_completeness auto

termination
  by (relation "measure (\<lambda>(ssl, w, h, pos, m). 21 - request_depth h)") auto

declare secure_send.simps [simp del]

section \<open>What makes a record set authentic\<close>

text \<open>
  The specification speaks of the messages the network gave, without queries, positions or depth. A
  signature is valid under a key that is not revoked, is a zone key, has the algorithm of the signature and
  verifies it over the canonical form of the set.
\<close>

definition valid_signature :: "'p ssl \<Rightarrow> dnskey \<Rightarrow> sig \<Rightarrow> name \<Rightarrow> dns_class \<Rightarrow> resource list \<Rightarrow> bool" where
  "valid_signature ssl k sg n c rs \<longleftrightarrow> \<not> revoke k \<and> zone_key k \<and> dk_algorithm k = sig_algorithm sg \<and>
     (\<exists>pk h. from_public_bytes ssl (public_key k) (dk_algorithm k) = Ok pk \<and> hash_rrset_with_sig n c sg rs = Ok h \<and>
        key_verify ssl (dk_algorithm k) h (sig_bytes sg) pk = Ok ())"

definition set_in :: "message \<Rightarrow> name \<Rightarrow> record_type \<Rightarrow> resource list" where
  "set_in m n t = filter (\<lambda>r. rr_type r = t \<and> name_eq (rr_name r) n) (m_answers m @ m_name_servers m @ m_additionals m)"

definition covering :: "message \<Rightarrow> record_type \<Rightarrow> sig set" where
  "covering m t = {sg. \<exists>r\<in>set (m_answers m) \<union> set (m_name_servers m) \<union> set (m_additionals m).
     rr_type r = RT_RRSIG \<and> sig_of r = Some sg \<and> type_covered sg = t}"

text \<open>
  \<open>authentic c m n t\<close>: the set of type \<open>t\<close> and name \<open>n\<close> in the message \<open>m\<close> is accepted for the class \<open>c\<close>. A set of
  keys must be vouched for: one of its keys is a trust anchor, or a record of an authentic set of DS
  records covers it; and if its message holds signatures over keys it must be endorsed as well. Any
  other set must be endorsed: a signature in its message is valid under a key of an authentic set, or, for
  keys with a signature that names the set as its own signer, under a key of the set itself.
\<close>

inductive authentic :: "'p ssl \<Rightarrow> trust_anchor \<Rightarrow> message set \<Rightarrow> dns_class \<Rightarrow> message \<Rightarrow> name \<Rightarrow> record_type \<Rightarrow> bool"
  and vouched :: "'p ssl \<Rightarrow> trust_anchor \<Rightarrow> message set \<Rightarrow> message \<Rightarrow> name \<Rightarrow> bool"
  and endorsed :: "'p ssl \<Rightarrow> trust_anchor \<Rightarrow> message set \<Rightarrow> dns_class \<Rightarrow> message \<Rightarrow> name \<Rightarrow> record_type \<Rightarrow> bool"
  for ssl ta heard where
  unsigned_keys: "\<lbrakk>m \<in> heard; vouched ssl ta heard m n; covering m RT_DNSKEY = {}\<rbrakk> \<Longrightarrow> authentic ssl ta heard c m n RT_DNSKEY"
| signed_keys: "\<lbrakk>m \<in> heard; vouched ssl ta heard m n; endorsed ssl ta heard c m n RT_DNSKEY\<rbrakk> \<Longrightarrow> authentic ssl ta heard c m n RT_DNSKEY"
| signed_set: "\<lbrakk>m \<in> heard; t \<noteq> RT_DNSKEY; endorsed ssl ta heard c m n t\<rbrakk> \<Longrightarrow> authentic ssl ta heard c m n t"
| anchored: "\<lbrakk>r \<in> set (set_in m n RT_DNSKEY); key_of r = Some k; ta_contains (public_key k) ta\<rbrakk> \<Longrightarrow> vouched ssl ta heard m n"
| delegated: "\<lbrakk>r \<in> set (set_in m n RT_DNSKEY); key_of r = Some k; authentic ssl ta heard c' m' n' RT_DS;
    dr \<in> set (set_in m' n' RT_DS); ds_of dr = Some d; ds_covers ssl n k d = Ok True\<rbrakk> \<Longrightarrow> vouched ssl ta heard m n"
| by_itself: "\<lbrakk>own \<in> covering m RT_DNSKEY; name_eq (signer_name own) n; sg \<in> covering m RT_DNSKEY;
    r \<in> set (set_in m n RT_DNSKEY); key_of r = Some k; valid_signature ssl k sg n c (set_in m n RT_DNSKEY)\<rbrakk>
    \<Longrightarrow> endorsed ssl ta heard c m n RT_DNSKEY"
| by_signer: "\<lbrakk>t = RT_DNSKEY \<longrightarrow> (\<forall>own\<in>covering m t. \<not> name_eq (signer_name own) n); sg \<in> covering m t;
    authentic ssl ta heard c' m' n' RT_DNSKEY; kr \<in> set (set_in m' n' RT_DNSKEY); key_of kr = Some k;
    valid_signature ssl k sg n c (set_in m n t)\<rbrakk> \<Longrightarrow> endorsed ssl ta heard c m n t"

lemmas authentic_intros = authentic_vouched_endorsed.intros

text \<open>The messages the network gave, at any position of the tree of queries.\<close>

definition heard :: "net \<Rightarrow> message set" where
  "heard w = {m. \<exists>pos q. answer w pos q = Inr m}"

definition proved :: "'p ssl \<Rightarrow> trust_anchor \<Rightarrow> message set \<Rightarrow> dns_class \<Rightarrow> message \<Rightarrow> resource \<Rightarrow> bool" where
  "proved ssl ta ms c m r \<longleftrightarrow> (\<exists>n. r \<in> set (set_in m n (rr_type r)) \<and> authentic ssl ta ms c m n (rr_type r))"

definition sound_at :: "'p ssl \<Rightarrow> message set \<Rightarrow> sender \<Rightarrow> secure_handle \<Rightarrow> bool" where
  "sound_at ssl ms send h \<longleftrightarrow>
     (\<forall>p q m. send h p q = Ok m \<longrightarrow> h_op_code (m_header q) = OP_Query \<longrightarrow>
        (\<forall>r\<in>set (all_sections m). \<exists>c m'. proved ssl (sh_trust_anchor h) ms c m' r))"

definition fair :: "net \<Rightarrow> bool" where
  "fair w \<longleftrightarrow> (\<forall>pos n. mset (completion w pos n) = mset [0..<n])"

lemma fair_set: "fair w \<Longrightarrow> set (completion w pos n) = {0..<n}"
  by (metis fair_def mset_eq_setD atLeastLessThan_upt)

lemma client_query_op: "h_op_code (m_header (client_query i n c t)) = OP_Query"
  by (simp add: client_query_def Let_def extended_dns_def get_edns_mut_def add_query_def message_new_def split: prod.splits option.splits)

lemma sound_at_query:
  "sound_at ssl ms send h \<Longrightarrow> send h p (client_query i n c t) = Ok m \<Longrightarrow> r \<in> set (m_answers m) \<Longrightarrow>
    \<exists>c m'. proved ssl (sh_trust_anchor h) ms c m' r"
  by (auto simp: sound_at_def all_sections_def client_query_op)

lemma map_outcome_err_Ok: "map_outcome_err f r = Ok x \<longleftrightarrow> r = Ok x"
  by (cases r) simp_all

lemma verify_rrset_with_dnskey_Ok:
  "verify_rrset_with_dnskey ssl k sg s = Ok () \<longleftrightarrow> valid_signature ssl k sg (srr_name s) (srr_class s) (srr_records s)"
  by (auto simp: verify_rrset_with_dnskey_def valid_signature_def bind_outcome_Ok_iff map_outcome_err_Ok signer_verify_def new_verifier_def Let_def)

lemma rrset_for_sel [simp]:
  "srr_name (rrset_for c m (n, t)) = n" "srr_type (rrset_for c m (n, t)) = t" "srr_class (rrset_for c m (n, t)) = c"
  "srr_records (rrset_for c m (n, t)) = set_in m n t"
  by (simp_all add: rrset_for_def set_in_def all_sections_def)

lemma rrsigs_for_covering: "sg \<in> covering m t \<longleftrightarrow> (\<exists>r\<in>set (rrsigs_for m (n, t)). sig_of r = Some sg)"
  by (auto simp: covering_def rrsigs_for_def all_sections_def split: option.splits)

lemma key_verifies_True:
  "key_verifies ssl s rrset r = Ok True \<longleftrightarrow> (\<exists>k. key_of r = Some k \<and> valid_signature ssl k s (srr_name rrset) (srr_class rrset) (srr_records rrset))"
  unfolding verify_rrset_with_dnskey_Ok [symmetric] by (auto simp: key_verifies_def split: option.splits outcome.splits)

lemma covered_by_True: "covered_by ssl n k d = Ok True \<longleftrightarrow> ds_covers ssl n k d = Ok True"
  by (auto simp: covered_by_def split: outcome.splits)

lemma dnskeys_mem:
  "(i, k) \<in> set (dnskeys rs) \<Longrightarrow> \<exists>r\<in>set rs. rr_type r = RT_DNSKEY \<and> key_of r = Some k"
  by (auto simp: dnskeys_def List.map_filter_def in_set_enumerate_eq) (metis nth_mem)

lemma filter_outcome_mem: "filter_outcome P xs = Ok ys \<Longrightarrow> y \<in> set ys \<Longrightarrow> y \<in> set xs \<and> P y = Ok True"
  by (induction xs arbitrary: ys) (auto simp: bind_outcome_Ok_iff split: if_splits)

lemma answered_ds_mem: "d \<in> set (answered_ds m) \<Longrightarrow> \<exists>r\<in>set (m_answers m). rr_type r = RT_DS \<and> ds_of r = Some d"
  by (auto simp: answered_ds_def List.map_filter_def)

lemma verify_dnskey_rrset_sound:
  assumes "verify_dnskey_rrset ssl w send h pos (rrset_for c m (n, RT_DNSKEY)) = Ok s" "sound_at ssl ms send h"
  shows "vouched ssl (sh_trust_anchor h) ms m n \<and> srr_name s = n \<and> srr_type s = RT_DNSKEY"
proof (cases "\<exists>x\<in>set (dnskeys (set_in m n RT_DNSKEY)). ta_contains (public_key (snd x)) (sh_trust_anchor h)")
  case True
  then obtain i k where k: "(i, k) \<in> set (dnskeys (set_in m n RT_DNSKEY))" "ta_contains (public_key k) (sh_trust_anchor h)"
    by auto
  with assms(1) have "srr_name s = n \<and> srr_type s = RT_DNSKEY"
    by (auto simp: verify_dnskey_rrset_def Let_def filter_empty_conv split: if_splits)
  then show ?thesis using k dnskeys_mem [OF k(1)] by (auto intro: authentic_intros(4))
next
  case False
  then obtain m' valid where m: "send h (pos @ [0]) (client_query (fresh_id w (pos @ [0])) n c RT_DS) = Ok m'"
    and valid: "filter_outcome (\<lambda>(_, k). any_ok (covered_by ssl n k) (answered_ds m')) (dnskeys (set_in m n RT_DNSKEY)) = Ok valid"
    "valid \<noteq> []" and s: "srr_name s = n" "srr_type s = RT_DNSKEY"
    using assms(1) by (auto simp: verify_dnskey_rrset_def Let_def filter_empty_conv bind_outcome_Ok_iff split: if_splits)
  obtain i k where "(i, k) \<in> set valid" using valid(2) by (cases valid) auto
  then have k: "(i, k) \<in> set (dnskeys (set_in m n RT_DNSKEY))" "any_ok (covered_by ssl n k) (answered_ds m') = Ok True"
    using filter_outcome_mem [OF valid(1)] by auto
  obtain d dr where d: "ds_covers ssl n k d = Ok True" "dr \<in> set (m_answers m')" "rr_type dr = RT_DS" "ds_of dr = Some d"
    using any_ok_True [OF k(2)] answered_ds_mem by (fastforce simp: covered_by_True)
  then obtain c' m'' n' where "authentic ssl (sh_trust_anchor h) ms c' m'' n' RT_DS" "dr \<in> set (set_in m'' n' RT_DS)"
    using sound_at_query [OF assms(2) m d(2)] d(3) by (auto simp: proved_def)
  then show ?thesis using d s dnskeys_mem [OF k(1)] authentic_intros(5) by blast
qed

lemma select_ok_Ok: "select_ok rs = Ok x \<Longrightarrow> Ok x \<in> set rs"
  by (induction rs) (auto split: outcome.splits if_splits)

lemma verify_with_sig_sound:
  assumes "verify_with_sig ssl w send h pos (rrset_for c m (n, t)) sg = Ok s" "sound_at ssl ms send (clone_with_context h)"
    "sg \<in> covering m t" "t = RT_DNSKEY \<longrightarrow> (\<forall>own\<in>covering m t. \<not> name_eq (signer_name own) n)"
  shows "s = rrset_for c m (n, t) \<and> endorsed ssl (sh_trust_anchor h) ms c m n t"
proof -
  let ?s = "rrset_for c m (n, t)"
  obtain m1 where m: "send (clone_with_context h) pos (client_query (fresh_id w pos) (signer_name sg) (srr_class ?s) RT_DNSKEY) = Ok m1"
    and found: "any_ok (key_verifies ssl sg ?s) (filter (\<lambda>r. rr_type r = RT_DNSKEY) (m_answers m1)) = Ok True" and s: "s = ?s"
    using assms(1) by (simp only: verify_with_sig_def bind_outcome_Ok_iff, elim exE conjE) (simp split: if_splits)
  obtain kr k where k: "kr \<in> set (m_answers m1)" "rr_type kr = RT_DNSKEY" "key_of kr = Some k"
    "valid_signature ssl k sg n c (set_in m n t)"
    using any_ok_True [OF found] by (auto simp: key_verifies_True)
  then obtain c' m' n' where "authentic ssl (sh_trust_anchor h) ms c' m' n' RT_DNSKEY" "kr \<in> set (set_in m' n' RT_DNSKEY)"
    using sound_at_query [OF assms(2) m k(1)] k(2) by (auto simp: proved_def)
  then show ?thesis using k s assms(3,4) authentic_intros(7) by blast
qed

lemma expect_sigs_mem: "expect_sigs rs = Ok sigs \<Longrightarrow> sg \<in> set sigs \<Longrightarrow> \<exists>r\<in>set rs. sig_of r = Some sg"
  by (induction rs arbitrary: sigs) (auto simp: bind_outcome_Ok_iff split: option.splits)

lemma rrsigs_for_typed: "filter (\<lambda>r. rr_type r = RT_RRSIG) (rrsigs_for m t) = rrsigs_for m t"
  by (rule filter_True) (simp add: rrsigs_for_def)

lemma any_ok_False: "any_ok f xs = Ok False \<Longrightarrow> x \<in> set xs \<Longrightarrow> f x = Ok False"
  by (induction xs) (auto split: if_splits)

lemma verify_default_rrset_sound:
  assumes "verify_default_rrset ssl w send h pos (rrset_for c m (n, t)) (rrsigs_for m (n, t)) = Ok s" "fair w"
    and "sound_at ssl ms send (clone_with_context h)"
  shows "s = rrset_for c m (n, t) \<and> endorsed ssl (sh_trust_anchor h) ms c m n t"
proof -
  let ?s = "rrset_for c m (n, t)" and ?sigs = "rrsigs_for m (n, t)"
  let ?self = "any_ok (\<lambda>r. case sig_of r of Some s \<Rightarrow> Ok (t = RT_DNSKEY \<and> name_eq (signer_name s) n) | None \<Rightarrow> Panic)
     ?sigs :: (bool, client_error) outcome"
  note run = assms(1) [unfolded verify_default_rrset_def Let_def rrsigs_for_typed rrset_for_sel(1,2)]
  obtain self where self: "?self = Ok self" using run by (auto simp: bind_outcome_Ok_iff)
  show ?thesis
  proof (cases self)
    case True
    then obtain own where own: "own \<in> covering m t" "t = RT_DNSKEY" "name_eq (signer_name own) n"
      using any_ok_True [of _ ?sigs] self by (fastforce simp: rrsigs_for_covering [of _ _ _ n] split: option.splits)
    have valid: "any_ok (\<lambda>r. case sig_of r of Some s \<Rightarrow> any_ok (key_verifies ssl s ?s) (srr_records ?s) | None \<Rightarrow> Panic) ?sigs = Ok True"
      "s = ?s"
      using run self True by (auto simp: bind_outcome_Ok_iff split: if_splits)
    from any_ok_True [OF valid(1)] obtain sg where sg: "sg \<in> covering m t" "any_ok (key_verifies ssl sg ?s) (srr_records ?s) = Ok True"
      by (auto simp: rrsigs_for_covering [of _ _ _ n] split: option.splits)
    from any_ok_True [OF sg(2)] obtain r k where "r \<in> set (set_in m n t)" "key_of r = Some k"
        "valid_signature ssl k sg n c (set_in m n t)" by (auto simp: key_verifies_True)
    then show ?thesis using own sg(1) valid(2) authentic_intros(6) by blast
  next
    case False
    have other: "t = RT_DNSKEY \<longrightarrow> (\<forall>own\<in>covering m t. \<not> name_eq (signer_name own) n)"
      using any_ok_False [of _ ?sigs] self False by (fastforce simp: rrsigs_for_covering [of _ _ _ n])
    obtain sigs j where sigs: "expect_sigs ?sigs = Ok sigs" "j \<in> set (completion w pos (length sigs))"
        "verify_with_sig ssl w send h (pos @ [Suc j]) ?s (sigs ! j) = Ok s"
      using run self False by (auto simp: bind_outcome_Ok_iff split: if_splits dest!: select_ok_Ok)
    have "sigs ! j \<in> covering m t"
      using expect_sigs_mem [OF sigs(1), of "sigs ! j"] sigs(2) fair_set [OF assms(2)] by (auto simp: rrsigs_for_covering [of _ _ _ n])
    from verify_with_sig_sound [OF sigs(3) assms(3) this other] show ?thesis .
  qed
qed

lemma verify_rrset_sound:
  assumes "verify_rrset ssl w send h pos (rrset_for c m (n, t)) (rrsigs_for m (n, t)) = Ok s" "fair w" "m \<in> ms"
    and "sound_at ssl ms send h" "sound_at ssl ms send (clone_with_context h)"
      "sound_at ssl ms send (clone_with_context (clone_with_context h))"
  shows "authentic ssl (sh_trust_anchor h) ms c m n t \<and> srr_name s = n \<and> srr_type s = t"
proof (cases "t = RT_DNSKEY \<and> rrsigs_for m (n, t) = []")
  case True
  then have "verify_dnskey_rrset ssl w send (clone_with_context h) pos (rrset_for c m (n, RT_DNSKEY)) = Ok s"
    using assms(1) True by (auto simp: verify_rrset_def)
  from verify_dnskey_rrset_sound [OF this assms(5)] have "vouched ssl (sh_trust_anchor h) ms m n" "srr_name s = n" "srr_type s = RT_DNSKEY"
    by simp_all
  moreover have "covering m RT_DNSKEY = {}" using True rrsigs_for_covering [of _ m t n] by auto
  ultimately show ?thesis using True assms(3) authentic_intros(1) by blast
next
  case False
  then obtain r where r: "verify_default_rrset ssl w send (clone_with_context h) pos (rrset_for c m (n, t)) (rrsigs_for m (n, t)) = Ok r"
    "if srr_type r = RT_DNSKEY then verify_dnskey_rrset ssl w send h pos r = Ok s else s = r"
    using assms(1) by (auto simp: verify_rrset_def bind_outcome_Ok_iff split: if_splits)
  have d: "r = rrset_for c m (n, t)" "endorsed ssl (sh_trust_anchor h) ms c m n t"
    using verify_default_rrset_sound [OF r(1) assms(2,6)] by simp_all
  show ?thesis
  proof (cases "t = RT_DNSKEY")
    case True
    with r(2) d(1) have "verify_dnskey_rrset ssl w send h pos (rrset_for c m (n, RT_DNSKEY)) = Ok s" by simp
    from verify_dnskey_rrset_sound [OF this assms(4)] d(2) True assms(3) show ?thesis
      by (auto intro: authentic_intros(2))
  qed (use d r(2) assms(3) in \<open>auto intro: authentic_intros(3)\<close>)
qed

lemma verified_loop_mem:
  assumes "verified_loop v rs = Ok v'" "t \<in> set v'"
  shows "t \<in> set v \<or> (\<exists>s. Ok s \<in> set rs \<and> t = (srr_name s, srr_type s))"
  using assms by (induction v rs rule: verified_loop.induct) (auto simp: Let_def split: outcome.splits if_splits)

lemma keep_verified_eq:
  "keep_verified v m =
     (let keep = filter (\<lambda>r. list_ex (same_rrset (rrset_of r)) v)
      in Ok (m\<lparr>m_answers := keep (m_answers m), m_name_servers := keep (m_name_servers m), m_additionals := keep (m_additionals m)\<rparr>))"
  by (simp add: keep_verified_def Let_def take_answers_def take_name_servers_def take_additionals_def
    insert_answers_def insert_name_servers_def insert_additionals_def)

lemma verify_rrsets_sound:
  assumes "verify_rrsets ssl w send client pos m cls = Ok m'" "fair w" "m \<in> ms"
    and send: "\<And>h. request_depth client < request_depth h \<Longrightarrow> sh_trust_anchor h = sh_trust_anchor client \<Longrightarrow> sound_at ssl ms send h"
    and r: "r \<in> set (all_sections m')"
  shows "proved ssl (sh_trust_anchor client) ms cls m r"
proof -
  let ?types = "rrset_types client m"
  obtain v where v: "verified_loop []
      (map (\<lambda>i. verify_rrset ssl w send (clone_with_context client) (pos @ [i]) (rrset_for cls m (?types ! i)) (rrsigs_for m (?types ! i)))
        (completion w pos (length ?types))) = Ok v" and m': "keep_verified v m = Ok m'"
    using assms(1) by (auto simp: verify_rrsets_def Let_def bind_outcome_Ok_iff split: if_splits)
  from r m' have rm: "r \<in> set (all_sections m)" "list_ex (same_rrset (rrset_of r)) v"
    by (auto simp: keep_verified_eq Let_def all_sections_def)
  then obtain t where t: "t \<in> set v" "same_rrset (rrset_of r) t" by (auto simp: list_ex_iff)
  from verified_loop_mem [OF v t(1)] obtain s i where
    s: "verify_rrset ssl w send (clone_with_context client) (pos @ [i]) (rrset_for cls m (?types ! i)) (rrsigs_for m (?types ! i)) = Ok s"
    and ts: "t = (srr_name s, srr_type s)" by force
  obtain n ty where ty: "?types ! i = (n, ty)" by fastforce
  have "authentic ssl (sh_trust_anchor client) ms cls m n ty \<and> srr_name s = n \<and> srr_type s = ty"
    using verify_rrset_sound [OF s [unfolded ty] assms(2,3)] by (simp add: send)
  moreover from this t(2) ts have "rr_type r = ty" "name_eq (rr_name r) n" by (simp_all add: same_rrset_def rrset_of_def)
  ultimately show ?thesis using rm(1) by (auto simp: proved_def set_in_def all_sections_def)
qed

lemma secure_send_parts:
  assumes "secure_send ssl w h pos m = Ok m'" "h_op_code (m_header m) = OP_Query"
  obtains q qs response where "request_depth h \<le> 20" "m_queries m = q # qs" "answer w pos (secure_request m) = Inr response"
    "verify_rrsets ssl w (secure_send ssl w) (clone_with_context h) pos response (q_class q) = Ok m'"
    "m_answers m' = [] \<Longrightarrow> verify_nsec q (filter (\<lambda>rr. rr_type rr = RT_NSEC) (m_name_servers m')) = Ok True"
proof -
  obtain q qs where q: "m_queries m = q # qs" and d: "request_depth h \<le> 20"
    using assms by (cases "m_queries m") (auto simp: secure_send.simps [of ssl w h pos m] split: if_splits)
  obtain response where resp: "answer w pos (secure_request m) = Inr response"
    using assms q d by (cases "answer w pos (secure_request m)") (auto simp: secure_send.simps [of ssl w h pos m] Let_def split: if_splits)
  obtain v where v: "verify_rrsets ssl w (secure_send ssl w) (clone_with_context h) pos response (q_class q) = Ok v"
    and rest: "(if m_answers v = [] then
         bind_outcome (verify_nsec q (filter (\<lambda>rr. rr_type rr = RT_NSEC) (m_name_servers v))) (\<lambda>proved.
           if proved then Ok v else Err (CE_Message ''could not validate nxdomain with NSEC''))
       else Ok v) = Ok m'"
    using assms q d resp by (auto simp: secure_send.simps [of ssl w h pos m] Let_def bind_outcome_Ok_iff)
  from rest have "v = m'" "m_answers m' = [] \<Longrightarrow> verify_nsec q (filter (\<lambda>rr. rr_type rr = RT_NSEC) (m_name_servers m')) = Ok True"
    by (auto simp: bind_outcome_Ok_iff split: if_splits)
  with that q d resp v show thesis by blast
qed

lemma answer_heard: "answer w pos q = Inr m \<Longrightarrow> m \<in> heard w"
  by (auto simp: heard_def)

lemma secure_send_sound: "fair w \<Longrightarrow> sound_at ssl (heard w) (secure_send ssl w) h"
proof (induction "21 - request_depth h" arbitrary: h rule: less_induct)
  case less
  show ?case unfolding sound_at_def
  proof (intro allI impI ballI)
    fix p q m r
    assume "secure_send ssl w h p q = Ok m" "h_op_code (m_header q) = OP_Query" and r: "r \<in> set (all_sections m)"
    then obtain y :: query and response where d: "request_depth h \<le> 20" "answer w p (secure_request q) = Inr response"
      and v: "verify_rrsets ssl w (secure_send ssl w) (clone_with_context h) p response (q_class y) = Ok m"
      by (elim secure_send_parts) blast
    have "sound_at ssl (heard w) (secure_send ssl w) g" if "request_depth (clone_with_context h) < request_depth g" for g
      using less that d(1) by simp
    with verify_rrsets_sound [OF v less.prems answer_heard [OF d(2)] _ r]
    have "proved ssl (sh_trust_anchor h) (heard w) (q_class y) response r" by simp
    then show "\<exists>c m'. proved ssl (sh_trust_anchor h) (heard w) c m' r" by blast
  qed
qed

text \<open>What the client returns was in the response to its query, in a set that is authentic there.\<close>

lemma secure_send_proved:
  assumes "fair w" "secure_send ssl w h pos m = Ok m'" "h_op_code (m_header m) = OP_Query"
  obtains q qs response where "m_queries m = q # qs" "answer w pos (secure_request m) = Inr response"
    "\<And>r. r \<in> set (all_sections m') \<Longrightarrow> proved ssl (sh_trust_anchor h) (heard w) (q_class q) response r"
    "m_answers m' = [] \<Longrightarrow> verify_nsec q (filter (\<lambda>rr. rr_type rr = RT_NSEC) (m_name_servers m')) = Ok True"
proof (rule secure_send_parts [OF assms(2,3)])
  fix q qs response
  assume p: "m_queries m = q # qs" "answer w pos (secure_request m) = Inr response"
    "verify_rrsets ssl w (secure_send ssl w) (clone_with_context h) pos response (q_class q) = Ok m'"
    "m_answers m' = [] \<Longrightarrow> verify_nsec q (filter (\<lambda>rr. rr_type rr = RT_NSEC) (m_name_servers m')) = Ok True"
  show thesis
    using verify_rrsets_sound [OF p(3) assms(1) answer_heard [OF p(2)] secure_send_sound [OF assms(1)]] p
    by (intro that [OF p(1,2) _ p(4)]) simp_all
qed

section \<open>Preserved indexes\<close>

lemma nths_take_Suc:
  "j < length vec \<Longrightarrow> nths (take (Suc j) vec) S = nths (take j vec) S @ (if j \<in> S then [vec ! j] else [])"
  by (simp add: take_Suc_conv_app_nth nths_append)

lemma nths_within: "(\<And>k. k < length xs \<Longrightarrow> k \<in> A \<longleftrightarrow> k \<in> B) \<Longrightarrow> nths xs A = nths xs B"
  unfolding nths_def by (intro arg_cong [where f = "map fst"] filter_cong) (auto simp: in_set_zip)

definition pending :: "nat option \<Rightarrow> nat list \<Rightarrow> nat list" where
  "pending i it = (case i of None \<Rightarrow> [] | Some i \<Rightarrow> i # it)"

lemma pending_next: "(case next_index js of (i, it) \<Rightarrow> pending i it) = js"
  by (cases js) (simp_all add: pending_def)

lemma preserve_loop_nths:
  assumes "n \<le> length vec" "sorted_wrt (>) (pending i it)" "\<forall>k\<in>set (pending i it). k \<le> n"
  shows "preserve_loop n i it vec = nths (take n vec) (set (pending i it)) @ drop n vec"
  using assms
proof (induction n arbitrary: i it vec)
  case (Suc j)
  obtain i' it' where n: "(if (case i of Some i \<Rightarrow> i > j | None \<Rightarrow> False) then next_index it else (i, it)) = (i', it')"
    by (metis surj_pair)
  have p: "set (pending i' it') = set (pending i it) - {Suc j} \<and> sorted_wrt (>) (pending i' it')"
  proof (cases i)
    case None
    with n show ?thesis by (simp add: pending_def)
  next
    case (Some x)
    with Suc.prems(2,3) have x: "x \<le> Suc j" "\<forall>k\<in>set it. k < x" "sorted_wrt (>) it" by (auto simp: pending_def)
    show ?thesis
    proof (cases "x = Suc j")
      case True
      with n Some have "pending i' it' = it" using pending_next [of it] by simp
      then show ?thesis using x True Some by (auto simp: pending_def)
    next
      case False
      with x(1) n Some have "i' = i" "it' = it" by auto
      then show ?thesis using x False Some by (auto simp: pending_def)
    qed
  qed
  then have le: "\<forall>k\<in>set (pending i' it'). k \<le> j" using Suc.prems(3) by (auto simp: le_Suc_eq)
  have mem: "k \<in> set (pending i it) \<longleftrightarrow> k \<in> set (pending i' it')" if "k < Suc j" for k
    using conjunct1 [OF p] that by simp
  have "nths (take j vec) (set (pending i it)) = nths (take j vec) (set (pending i' it'))"
    by (rule nths_within) (simp add: mem)
  then have kept: "nths (take (Suc j) vec) (set (pending i it)) = nths (take j vec) (set (pending i' it')) @
      (if j \<in> set (pending i' it') then [vec ! j] else [])"
    using Suc.prems(1) mem [of j] by (simp add: nths_take_Suc)
  have head: "(case i' of Some i \<Rightarrow> i \<noteq> j | None \<Rightarrow> True) \<longleftrightarrow> j \<notin> set (pending i' it')"
    using le conjunct2 [OF p] by (cases i') (auto simp: pending_def)
  show ?case
  proof (cases "j \<in> set (pending i' it')")
    case True
    with Suc.prems(1) Suc.IH [of vec i' it'] p le show ?thesis
      by (simp add: n head kept Cons_nth_drop_Suc)
  next
    case False
    let ?v = "take j vec @ drop (Suc j) vec"
    have "preserve_loop j i' it' ?v = nths (take j ?v) (set (pending i' it')) @ drop j ?v"
      using Suc.prems(1) p le by (intro Suc.IH) auto
    with False Suc.prems(1) show ?thesis by (simp add: n head kept)
  qed
qed simp

lemma preserve_nths:
  assumes "sorted_wrt (<) indexes" "\<forall>k\<in>set indexes. k < length vec"
  shows "preserve vec indexes = nths vec (set indexes)"
proof -
  obtain i it where it: "next_index (rev indexes) = (i, it)" by (metis surj_pair)
  then have p: "pending i it = rev indexes" using pending_next [of "rev indexes"] by simp
  have "preserve_loop (length vec) i it vec = nths (take (length vec) vec) (set (pending i it)) @ drop (length vec) vec"
    using assms p by (intro preserve_loop_nths) (auto simp: sorted_wrt_rev intro: less_imp_le)
  then show ?thesis by (simp add: preserve_def it p)
qed

section \<open>Properties\<close>

text \<open>
  C7. Soundness of the validator. Whatever the network answers to the query and to every further query,
  and in whatever order the validations complete, each record of a message that the validating client
  returns was in the response to the query, in a set that is authentic: signed in that response with a key
  of an authentic set, where sets of keys go back to a trust anchor through DS records, and a set of
  keys that comes with signatures is signed by itself or by its signer too. A set of keys is accepted as a
  whole for one trusted key in it, and without a signature where the message has none over keys; a key that
  verifies a signature need not belong to the signer the signature names.
\<close>
theorem secure_answers_proved:
  assumes "fair w" "secure_send ssl w h pos m = Ok m'" "h_op_code (m_header m) = OP_Query"
    "r \<in> set (m_answers m') \<union> set (m_name_servers m') \<union> set (m_additionals m')"
  shows "\<exists>q qs response n. m_queries m = q # qs \<and> answer w pos (secure_request m) = Inr response \<and>
    r \<in> set (set_in response n (rr_type r)) \<and>
    authentic ssl (sh_trust_anchor h) (heard w) (q_class q) response n (rr_type r)"
proof (rule secure_send_proved [OF assms(1-3)])
  fix q qs response
  assume p: "m_queries m = q # qs" "answer w pos (secure_request m) = Inr response"
    "\<And>r. r \<in> set (all_sections m') \<Longrightarrow> proved ssl (sh_trust_anchor h) (heard w) (q_class q) response r"
  have "r \<in> set (all_sections m')" using assms(4) by (simp add: all_sections_def)
  from p(3) [OF this] p(1,2) show ?thesis unfolding proved_def by blast
qed

lemma verify_nsec_True:
  assumes "verify_nsec q nsecs = Ok True"
  shows "\<exists>r\<in>set nsecs. \<exists>d. rr_rdata r = RD_NSEC d \<and>
    (name_eq (q_name q) (rr_name r) \<and> q_type q \<notin> set (nsec_types d) \<or>
     name_cmp (q_name q) (rr_name r) = Greater \<and> name_cmp (q_name q) (next_domain_name d) = Less)"
  using assms
  by (auto simp: verify_nsec_def bind_outcome_Ok_iff split: if_splits rdata.splits dest!: any_ok_True) blast+

text \<open>
  C12. Denial of existence. When the validating client returns a message without answers, the authority
  section holds an NSEC record, authentic in the response to the query, that either has the name of the
  query and does not list its type, or whose owner and next name enclose the name of the query in the
  canonical order.
\<close>
theorem secure_denial_proved:
  assumes "fair w" "secure_send ssl w h pos m = Ok m'" "h_op_code (m_header m) = OP_Query"
    "m_answers m' = []"
  shows "\<exists>q qs response r d. m_queries m = q # qs \<and> answer w pos (secure_request m) = Inr response \<and>
    r \<in> set (m_name_servers m') \<and> rr_type r = RT_NSEC \<and> rr_rdata r = RD_NSEC d \<and>
    proved ssl (sh_trust_anchor h) (heard w) (q_class q) response r \<and>
    (name_eq (q_name q) (rr_name r) \<and> q_type q \<notin> set (nsec_types d) \<or>
     name_cmp (q_name q) (rr_name r) = Greater \<and> name_cmp (q_name q) (next_domain_name d) = Less)"
proof (rule secure_send_proved [OF assms(1-3)])
  fix q qs response
  assume q: "m_queries m = q # qs" "answer w pos (secure_request m) = Inr response"
    "\<And>r. r \<in> set (all_sections m') \<Longrightarrow> proved ssl (sh_trust_anchor h) (heard w) (q_class q) response r"
    "m_answers m' = [] \<Longrightarrow> verify_nsec q (filter (\<lambda>rr. rr_type rr = RT_NSEC) (m_name_servers m')) = Ok True"
  from verify_nsec_True [OF q(4) [OF assms(4)]] obtain r d where r: "r \<in> set (m_name_servers m')" "rr_type r = RT_NSEC" "rr_rdata r = RD_NSEC d"
    "name_eq (q_name q) (rr_name r) \<and> q_type q \<notin> set (nsec_types d) \<or>
     name_cmp (q_name q) (rr_name r) = Greater \<and> name_cmp (q_name q) (next_domain_name d) = Less" by auto
  moreover from r(1) have "proved ssl (sh_trust_anchor h) (heard w) (q_class q) response r"
    by (intro q(3)) (simp add: all_sections_def)
  ultimately show ?thesis using q(1,2) by blast
qed

lemma fair_one: "fair w \<Longrightarrow> completion w pos (Suc 0) = [0]"
  by (auto simp: fair_def dest!: spec [of _ pos] spec [of _ "Suc 0"])

text \<open>A message with the records of one set in its answers, and the signatures over it.\<close>

definition one_rrset :: "rrset_id \<Rightarrow> resource list \<Rightarrow> resource list \<Rightarrow> message \<Rightarrow> bool" where
  "one_rrset t rs sigs m \<longleftrightarrow>
     m_answers m = rs @ sigs \<and> m_name_servers m = [] \<and> m_additionals m = [] \<and> rs \<noteq> [] \<and> snd t \<noteq> RT_RRSIG \<and>
     (\<forall>r\<in>set rs. rr_type r = snd t \<and> rr_name r = fst t) \<and>
     (\<forall>r\<in>set sigs. rr_type r = RT_RRSIG \<and> (\<exists>s. sig_of r = Some s \<and> type_covered s = snd t))"

lemma one_rrset_types:
  assumes "one_rrset t rs sigs m" "request_depth client \<le> 1 \<or> snd t \<in> {RT_DNSKEY, RT_DS}"
  shows "rrset_types client m = [t]"
proof -
  have "filter (needs_proof client) rs = rs"
    by (rule filter_True) (use assms in \<open>auto simp: one_rrset_def needs_proof_def\<close>)
  moreover have "filter (needs_proof client) sigs = []"
    using assms(1) by (simp add: one_rrset_def needs_proof_def filter_empty_conv)
  ultimately have f: "filter (needs_proof client) (m_answers m @ m_name_servers m) = rs"
    using assms(1) by (simp add: one_rrset_def)
  have t: "rrset_of r = t" if "r \<in> set rs" for r
    using assms(1) that by (auto simp: one_rrset_def rrset_of_def prod_eq_iff)
  have "fold insert_rrset_type (map rrset_of xs) [t] = [t]" if "set xs \<subseteq> set rs" for xs
    using that by (induction xs) (simp_all add: t insert_rrset_type_def same_rrset_def)
  moreover obtain r rs' where "rs = r # rs'" using assms(1) by (cases rs) (auto simp: one_rrset_def)
  ultimately show ?thesis using t [of r] unfolding rrset_types_def f
    by (simp add: insert_rrset_type_def subset_insertI)
qed

lemma one_rrset_records:
  assumes "one_rrset t rs sigs m"
  shows "rrset_for cls m t = \<lparr>srr_name = fst t, srr_type = snd t, srr_class = cls, srr_records = rs\<rparr>" "rrsigs_for m t = sigs"
proof -
  have "filter (\<lambda>r. rr_type r = snd t \<and> name_eq (rr_name r) (fst t)) (rs @ sigs) = rs"
    using assms by (auto simp: one_rrset_def filter_empty_conv intro!: filter_True)
  then show "rrset_for cls m t = \<lparr>srr_name = fst t, srr_type = snd t, srr_class = cls, srr_records = rs\<rparr>"
    using assms by (simp add: rrset_for_def all_sections_def one_rrset_def)
  have "filter (\<lambda>r. rr_type r = RT_RRSIG) (rs @ sigs) = sigs"
    using assms by (auto simp: one_rrset_def filter_empty_conv intro!: filter_True)
  moreover have "filter (\<lambda>r. case sig_of r of Some s \<Rightarrow> type_covered s = snd t | None \<Rightarrow> False) sigs = sigs"
    using assms by (auto simp: one_rrset_def intro!: filter_True)
  ultimately show "rrsigs_for m t = sigs"
    using assms by (simp add: rrsigs_for_def all_sections_def one_rrset_def)
qed

lemma verify_rrsets_one:
  assumes "one_rrset t rs sigs m" "request_depth client \<le> 1 \<or> snd t \<in> {RT_DNSKEY, RT_DS}" "fair w"
    and "verify_rrset ssl w send (clone_with_context client) (pos @ [0])
      \<lparr>srr_name = fst t, srr_type = snd t, srr_class = cls, srr_records = rs\<rparr> sigs = Ok s"
    "srr_name s = fst t" "srr_type s = snd t"
  shows "verify_rrsets ssl w send client pos m cls = Ok (m\<lparr>m_answers := rs\<rparr>)"
proof -
  have "filter (\<lambda>r. list_ex (same_rrset (rrset_of r)) [t]) (rs @ sigs) = rs"
    using assms(1) by (auto simp: one_rrset_def same_rrset_def rrset_of_def filter_empty_conv intro!: filter_True)
  with assms(1) have keep: "keep_verified [t] m = Ok (m\<lparr>m_answers := rs\<rparr>)"
    by (cases m) (simp add: keep_verified_eq one_rrset_def)
  show ?thesis
    using assms keep one_rrset_types [OF assms(1,2)] one_rrset_records [OF assms(1)]
    by (simp add: verify_rrsets_def Let_def fair_one)
qed

lemma secure_send_verified:
  assumes "request_depth h \<le> 20" "h_op_code (m_header m) = OP_Query" "m_queries m = q # qs"
    "answer w pos (secure_request m) = Inr response"
    "verify_rrsets ssl w (secure_send ssl w) (clone_with_context h) pos response (q_class q) = Ok m'" "m_answers m' \<noteq> []"
  shows "secure_send ssl w h pos m = Ok m'"
  using assms by (subst secure_send.simps) (simp add: Let_def)

lemma dnskeys_keep:
  assumes "r \<in> set rs" "rr_type r = RT_DNSKEY" "key_of r = Some k"
  obtains i where "(i, k) \<in> set (dnskeys rs)"
proof -
  obtain i where "i < length rs" "rs ! i = r" using assms(1) by (auto simp: in_set_conv_nth)
  with assms have "(i, k) \<in> set (dnskeys rs)"
    by (auto simp: dnskeys_def List.map_filter_def in_set_enumerate_eq intro!: image_eqI [of _ _ "(i, r)"])
  then show thesis by (rule that)
qed

lemma anchored_keys_verify:
  assumes "r \<in> set (srr_records rrset)" "rr_type r = RT_DNSKEY" "key_of r = Some k" "ta_contains (public_key k) (sh_trust_anchor h)"
  shows "\<exists>s. verify_dnskey_rrset ssl w send h pos rrset = Ok s \<and> srr_name s = srr_name rrset \<and> srr_type s = srr_type rrset"
proof -
  obtain i where "(i, k) \<in> set (dnskeys (srr_records rrset))" using assms(1-3) by (rule dnskeys_keep)
  then have "filter (\<lambda>(_, k). ta_contains (public_key k) (sh_trust_anchor h)) (dnskeys (srr_records rrset)) \<noteq> []"
    using assms(4) by (auto simp: filter_empty_conv)
  then show ?thesis by (simp add: verify_dnskey_rrset_def Let_def)
qed

lemma unsigned_keys_accepted:
  assumes "fair w" "request_depth h \<le> 20" "h_op_code (m_header m) = OP_Query" "m_queries m = q # qs"
    "answer w pos (secure_request m) = Inr response" "one_rrset (n, RT_DNSKEY) rs [] response"
    "a \<in> set rs" "key_of a = Some k" "ta_contains (public_key k) (sh_trust_anchor h)"
  shows "secure_send ssl w h pos m = Ok response"
proof -
  let ?s = "\<lparr>srr_name = n, srr_type = RT_DNSKEY, srr_class = q_class q, srr_records = rs\<rparr>"
  have a: "rr_type a = RT_DNSKEY" "m_answers response = rs" "rs \<noteq> []" using assms(6,7) by (auto simp: one_rrset_def)
  let ?c = "clone_with_context (clone_with_context (clone_with_context h))"
  obtain s where "verify_dnskey_rrset ssl w (secure_send ssl w) ?c (pos @ [0]) ?s = Ok s" "srr_name s = n" "srr_type s = RT_DNSKEY"
    using anchored_keys_verify [of a ?s k ?c ssl w "secure_send ssl w" "pos @ [0]"] assms(7-9) a(1) by auto
  then have "verify_rrset ssl w (secure_send ssl w) (clone_with_context (clone_with_context h)) (pos @ [0]) ?s [] = Ok s"
    by (simp add: verify_rrset_def)
  with verify_rrsets_one [OF assms(6) _ assms(1), of "clone_with_context h" ssl "secure_send ssl w" pos "q_class q" s]
    \<open>srr_name s = n\<close> \<open>srr_type s = RT_DNSKEY\<close>
  have "verify_rrsets ssl w (secure_send ssl w) (clone_with_context h) pos response (q_class q) = Ok (response\<lparr>m_answers := rs\<rparr>)"
    by simp
  moreover have "response\<lparr>m_answers := rs\<rparr> = response" using a by (cases response) simp
  ultimately show ?thesis using secure_send_verified [OF assms(2-5), of ssl response] a by simp
qed

text \<open>
  C37. An unsigned set of keys is accepted as a whole when one of its keys is a trust anchor. The trust
  anchor is public and the other keys are not checked, so whoever answers the query for the keys of a
  zone can add other keys to it, and the client verifies signatures with them.
\<close>
theorem secure_unsigned_keys_pass:
  assumes "fair w" "request_depth h \<le> 20" "h_op_code (m_header m) = OP_Query" "m_queries m = q # qs"
    "answer w pos (secure_request m) = Inr response" "one_rrset (n, RT_DNSKEY) (anchor # others) [] response"
    "key_of anchor = Some k" "ta_contains (public_key k) (sh_trust_anchor h)"
  shows "secure_send ssl w h pos m = Ok response \<and> set others \<subseteq> set (m_answers response)"
  using unsigned_keys_accepted [OF assms(1-6) _ assms(7,8)] assms(6) by (auto simp: one_rrset_def)

text \<open>
  C24. Signed answers are accepted: a set with one signature, whose signer's keys the network returns as an
  unsigned set that holds a trust anchor and a key verifying the signature, is returned by the
  validating client, without its signature.
\<close>
theorem secure_signed_answer_accepted:
  assumes "fair w" "request_depth h = 0" "h_op_code (m_header m) = OP_Query" "m_queries m = q # qs"
    and response: "answer w pos (secure_request m) = Inr response" "one_rrset (n, t) rs [rrsig] response"
      "t \<noteq> RT_DNSKEY" "sig_of rrsig = Some s"
    and keys: "answer w (pos @ [0, 1]) (secure_request (client_query (fresh_id w (pos @ [0, 1])) (signer_name s) (q_class q) RT_DNSKEY))
        = Inr key_response" "one_rrset (z, RT_DNSKEY) ks [] key_response"
      "a \<in> set ks" "key_of a = Some k" "ta_contains (public_key k) (sh_trust_anchor h)"
      "any_ok (key_verifies ssl s \<lparr>srr_name = n, srr_type = t, srr_class = q_class q, srr_records = rs\<rparr>) ks = Ok True"
  shows "secure_send ssl w h pos m = Ok (response\<lparr>m_answers := rs\<rparr>)"
proof -
  let ?s = "\<lparr>srr_name = n, srr_type = t, srr_class = q_class q, srr_records = rs\<rparr>"
  let ?c = "clone_with_context (clone_with_context (clone_with_context h))"
  let ?q = "client_query (fresh_id w (pos @ [0, 1])) (signer_name s) (q_class q) RT_DNSKEY"
  have "\<exists>y. m_queries ?q = [y]"
    by (simp add: client_query_def Let_def extended_dns_def get_edns_mut_def add_query_def message_new_def split: prod.splits option.splits)
  then obtain y where y: "m_queries ?q = [y]" ..
  have "secure_send ssl w (clone_with_context ?c) (pos @ [0, 1]) ?q = Ok key_response"
    by (rule unsigned_keys_accepted [OF assms(1) _ client_query_op y keys(1,2,3,4)]) (simp_all add: assms(2) keys(5))
  moreover have "filter (\<lambda>r. rr_type r = RT_DNSKEY) (m_answers key_response) = ks"
    using keys(2) by (auto simp: one_rrset_def intro!: filter_True)
  ultimately have "verify_with_sig ssl w (secure_send ssl w) ?c (pos @ [0, 1]) ?s s = Ok ?s"
    using keys(6) by (simp add: verify_with_sig_def)
  then have "verify_rrset ssl w (secure_send ssl w) (clone_with_context (clone_with_context h)) (pos @ [0]) ?s [rrsig] = Ok ?s"
    using response(2-4) fair_one [OF assms(1)]
    by (simp add: verify_rrset_def verify_default_rrset_def Let_def one_rrset_def)
  with verify_rrsets_one [OF response(2) _ assms(1), of "clone_with_context h" ssl "secure_send ssl w" pos "q_class q" ?s] assms(2)
  have "verify_rrsets ssl w (secure_send ssl w) (clone_with_context h) pos response (q_class q) = Ok (response\<lparr>m_answers := rs\<rparr>)"
    by simp
  from secure_send_verified [OF _ assms(3,4) response(1) this] show ?thesis
    using assms(2) response(2) by (simp add: one_rrset_def)
qed

text \<open>
  The documented behaviour of the signature library that the two sides of a signature rely on: the key
  built from the modulus and the exponent of a private key verifies what the private key signed.
\<close>

definition public_part_verifies :: "'p ssl \<Rightarrow> bool" where
  "public_part_verifies ssl \<longleftrightarrow>
     (\<forall>p e n. ssl_rsa_parts ssl p = (e, n) \<longrightarrow>
        (\<exists>p'. ssl_rsa_public ssl n e = Some p' \<and>
          (\<forall>d bs s. ssl_sign ssl d p bs = Some s \<longrightarrow> ssl_verify ssl d p' bs s = Some True)))"

lemma public_key_verifies:
  assumes "public_part_verifies ssl" "ssl_rsa_parts ssl p = (e, n)" "1 \<le> length e" "length e < 65536"
    "3 \<le> length e + length n" "length e + length n \<le> 4096" "alg \<in> {RSASHA1, RSASHA1NSEC3SHA1, RSASHA256, RSASHA512}"
    "to_public_bytes ssl (KP_RSA p) = Ok pk" "key_sign ssl alg bs (KP_RSA p) = Ok s"
  shows "\<exists>kp. from_public_bytes ssl pk alg = Ok kp \<and> key_verify ssl alg bs s kp = Ok ()"
proof -
  obtain p' where p': "ssl_rsa_public ssl n e = Some p'" "\<And>d bs s. ssl_sign ssl d p bs = Some s \<Longrightarrow> ssl_verify ssl d p' bs s = Some True"
    using assms(1,2) unfolding public_part_verifies_def by blast
  have "from_public_bytes ssl pk alg = Ok (KP_RSA p')"
    using rsa_public_bytes_roundtrip [OF assms(2-7)] assms(8) p'(1) by (simp add: of_option_def)
  moreover obtain d where "to_openssl_digest (digest_of_alg alg) = Ok d" "ssl_sign ssl d p bs = Some s"
    using assms(9) by (auto simp: pkey_sign_def of_option_Ok bind_outcome_Ok_iff)
  ultimately show ?thesis using p'(2) by (simp add: pkey_verify_def of_option_def)
qed

text \<open>
  C13. What the server signs, the client verifies: the signature that the signing of a zone adds to a record
  set for an RSA key covers the type of the set, names the signer, and is verified by the validating
  client with the DNSKEY of that key, for the records of the set in the class of the zone.
\<close>
theorem zone_signature_verifies:
  assumes "public_part_verifies ssl" "ssl_rsa_parts ssl p = (e, n)" "1 \<le> length e" "length e < 65536"
    "3 \<le> length e + length n" "length e + length n \<le> 4096"
    "sg_algorithm sr \<in> {RSASHA1, RSASHA1NSEC3SHA1, RSASHA256, RSASHA512}" "sg_key sr = KP_RSA p"
    "to_dnskey ssl (sg_algorithm sr) (KP_RSA p) = Ok k"
    "sign_set ssl now zone_ttl cls [sr] s = (Ok (), s')" "rs_rrsigs s' \<noteq> rs_rrsigs s"
  shows "\<exists>rrsig sg. rs_rrsigs s' = rs_rrsigs s @ [rrsig] \<and> rr_type rrsig = RT_RRSIG \<and> rr_name rrsig = rs_name s \<and>
    sig_of rrsig = Some sg \<and> type_covered sg = rs_type s \<and> signer_name sg = sg_signer_name sr \<and>
    verify_rrset_with_dnskey ssl k sg
      \<lparr>srr_name = rs_name s, srr_type = rs_type s, srr_class = cls, srr_records = rs_records s\<rparr> = Ok ()"
proof -
  let ?exp = "timestamp (now + sg_sig_duration sr)"
  obtain tag where tag: "calculate_key_tag ssl sr = Ok tag"
    using assms(10) by (cases "calculate_key_tag ssl sr") simp_all
  let ?hash = "hash_rrset (rs_name s) cls (num_labels (rs_name s)) (rs_type s) (sg_algorithm sr) (rs_ttl s)
       ?exp (timestamp now) tag (sg_signer_name sr) (rs_records s)"
  obtain hash where h: "?hash = Ok hash"
    using assms(10,11) tag by (cases ?hash) (simp_all add: get_records_def)
  obtain signature where sg: "key_sign ssl (sg_algorithm sr) hash (KP_RSA p) = Ok signature"
    using assms(8,10,11) tag h
    by (cases "key_sign ssl (sg_algorithm sr) hash (KP_RSA p)") (simp_all add: get_records_def signer_sign_def)
  have s': "s' = insert_rrsig (make_rrsig zone_ttl sr ?exp (timestamp now) tag signature s) s"
    using assms(8,10) tag h sg by (simp add: get_records_def signer_sign_def)
  obtain pk where k: "to_public_bytes ssl (KP_RSA p) = Ok pk"
    "k = \<lparr>zone_key = True, secure_entry_point = True, revoke = False, dk_algorithm = sg_algorithm sr, public_key = pk\<rparr>"
    using assms(9) by (auto simp: to_dnskey_def bind_outcome_Ok_iff)
  obtain kp where "from_public_bytes ssl pk (sg_algorithm sr) = Ok kp" "key_verify ssl (sg_algorithm sr) hash signature kp = Ok ()"
    using public_key_verifies [OF assms(1-7) k(1) sg] by blast
  then show ?thesis
    by (simp add: s' insert_rrsig_def make_rrsig_def sig_of_def resource_with_def k(2) h
        verify_rrset_with_dnskey_def hash_rrset_with_sig_def new_verifier_def signer_verify_def)
qed

section \<open>Witnesses\<close>

text \<open>A network with the toy library, in which one key signs the zone \<open>x\<close> and is the trust anchor.\<close>

definition sample_signer :: "bytes signer" where
  "sample_signer = signer_new RSASHA256 (KP_RSA [9, 9]) (Name [''x'']) 3600 True False"

definition sample_key :: dnskey where
  "sample_key = \<lparr>zone_key = True, secure_entry_point = True, revoke = False, dk_algorithm = RSASHA256,
     public_key = [3, 1, 0, 1, 9, 9]\<rparr>"

definition sample_anchor :: trust_anchor where
  "sample_anchor = insert_trust_anchor [3, 1, 0, 1, 9, 9] trust_anchor_new"

definition signed_records :: "rr_set \<Rightarrow> resource list" where
  "signed_records s = rs_records s @ rs_rrsigs (snd (sign_set toy_ssl 0 0 CL_IN [sample_signer] s))"

definition key_message :: message where
  "key_message = message_new\<lparr>m_answers := [from_rdata (Name [''x'']) 0 RT_DNSKEY (RD_DNSKEY sample_key)]\<rparr>"

definition sample_net :: "message \<Rightarrow> net" where
  "sample_net response =
     \<lparr>answer = (\<lambda>pos m. Inr (if pos = [] then response else key_message)), fresh_id = (\<lambda>_. 7),
      completion = (\<lambda>_ n. [0..<n])\<rparr>"

lemma sample_net_fair: "fair (sample_net m)"
  by (simp add: fair_def sample_net_def)

definition a_set :: rr_set where
  "a_set = rr_set_from (a_record 1)"

definition nsec_set :: rr_set where
  "nsec_set = rr_set_from (from_rdata (Name [''a'', ''x'']) 0 RT_NSEC
     (RD_NSEC \<lparr>next_domain_name = Name [''c'', ''x''], nsec_types = [RT_A]\<rparr>))"

definition ok_with :: "(message \<Rightarrow> bool) \<Rightarrow> (message, 'e) outcome \<Rightarrow> bool" where
  "ok_with P r \<longleftrightarrow> (case r of Ok m \<Rightarrow> P m | _ \<Rightarrow> False)"

lemma ok_with_iff: "ok_with P r \<longleftrightarrow> (\<exists>m. r = Ok m \<and> P m)"
  by (cases r) (auto simp: ok_with_def)

abbreviation a_query :: "string list \<Rightarrow> message" where
  "a_query ls \<equiv> client_query 1 (Name ls) CL_IN RT_A"

lemma client_query_queries:
  "m_queries (client_query i n c t) = [query_new\<lparr>q_name := n, q_class := c, q_type := t\<rparr>]"
  by (simp add: client_query_def Let_def extended_dns_def get_edns_mut_def add_query_def message_new_def split: prod.splits option.splits)

lemma sample_answer: "answer (sample_net response) [] m = Inr response" "p \<noteq> [] \<Longrightarrow> answer (sample_net response) p m = Inr key_message"
  by (simp_all add: sample_net_def)

theorem secure_answers_proved_witness:
  "\<exists>m r. secure_send toy_ssl (sample_net (message_new\<lparr>m_answers := signed_records a_set\<rparr>))
      (with_trust_anchor sample_anchor) [] (a_query [''a'']) = Ok m \<and>
     r \<in> set (m_answers m) \<and>
     (\<exists>n. authentic toy_ssl sample_anchor (heard (sample_net (message_new\<lparr>m_answers := signed_records a_set\<rparr>))) CL_IN
        (message_new\<lparr>m_answers := signed_records a_set\<rparr>) n (rr_type r))"
proof -
  let ?w = "sample_net (message_new\<lparr>m_answers := signed_records a_set\<rparr>)" and ?h = "with_trust_anchor sample_anchor"
  have "ok_with (\<lambda>m. m_answers m \<noteq> []) (secure_send toy_ssl ?w ?h [] (a_query [''a'']))" by code_simp
  then obtain m where m: "secure_send toy_ssl ?w ?h [] (a_query [''a'']) = Ok m" "hd (m_answers m) \<in> set (m_answers m)"
    by (auto simp: ok_with_iff)
  with secure_answers_proved [OF sample_net_fair m(1) client_query_op, of "hd (m_answers m)"] show ?thesis
    by (auto simp: with_trust_anchor_def client_query_queries sample_answer)
qed

theorem secure_denial_proved_witness:
  "\<exists>m r. secure_send toy_ssl (sample_net (message_new\<lparr>m_name_servers := signed_records nsec_set\<rparr>))
      (with_trust_anchor sample_anchor) [] (a_query [''b'', ''x'']) = Ok m \<and> r \<in> set (m_name_servers m) \<and> rr_type r = RT_NSEC"
proof -
  let ?w = "sample_net (message_new\<lparr>m_name_servers := signed_records nsec_set\<rparr>)" and ?h = "with_trust_anchor sample_anchor"
  have "ok_with (\<lambda>m. m_answers m = []) (secure_send toy_ssl ?w ?h [] (a_query [''b'', ''x'']))" by code_simp
  then obtain m where m: "secure_send toy_ssl ?w ?h [] (a_query [''b'', ''x'']) = Ok m" "m_answers m = []"
    by (auto simp: ok_with_iff)
  then show ?thesis using secure_denial_proved [OF sample_net_fair m(1) client_query_op m(2)] by blast
qed

definition other_key :: dnskey where
  "other_key = sample_key\<lparr>public_key := [3, 1, 0, 1, 6, 6]\<rparr>"

definition forged_keys :: message where
  "forged_keys = message_new\<lparr>m_answers := map (\<lambda>k. from_rdata (Name [''x'']) 0 RT_DNSKEY (RD_DNSKEY k)) [sample_key, other_key]\<rparr>"

lemma sample_key_anchored:
  "key_of (from_rdata n ttl RT_DNSKEY (RD_DNSKEY sample_key)) = Some sample_key"
  "ta_contains (public_key sample_key) (sh_trust_anchor (with_trust_anchor sample_anchor))"
  by (simp add: key_of_def from_rdata_def) code_simp

lemma sample_depth: "request_depth (with_trust_anchor ta) = 0"
  by (simp add: with_trust_anchor_def)

theorem secure_unsigned_keys_pass_witness:
  "secure_send toy_ssl (sample_net forged_keys) (with_trust_anchor sample_anchor) []
     (client_query 1 (Name [''x'']) CL_IN RT_DNSKEY) = Ok forged_keys \<and>
   \<not> ta_contains (public_key other_key) sample_anchor"
proof
  show "\<not> ta_contains (public_key other_key) sample_anchor" by code_simp
  have keys: "one_rrset (Name [''x''], RT_DNSKEY) (from_rdata (Name [''x'']) 0 RT_DNSKEY (RD_DNSKEY sample_key) #
      [from_rdata (Name [''x'']) 0 RT_DNSKEY (RD_DNSKEY other_key)]) [] forged_keys"
    by (simp add: one_rrset_def forged_keys_def message_new_def from_rdata_def)
  have "request_depth (with_trust_anchor sample_anchor) \<le> 20" by (simp add: sample_depth)
  from secure_unsigned_keys_pass [OF sample_net_fair this client_query_op client_query_queries sample_answer(1) keys sample_key_anchored]
  show "secure_send toy_ssl (sample_net forged_keys) (with_trust_anchor sample_anchor) []
     (client_query 1 (Name [''x'']) CL_IN RT_DNSKEY) = Ok forged_keys" by blast
qed

definition a_sig :: resource where
  "a_sig = hd (rs_rrsigs (snd (sign_set toy_ssl 0 0 CL_IN [sample_signer] a_set)))"

theorem zone_signature_verifies_witness:
  "\<exists>rrsig sg. rs_rrsigs (snd (sign_set toy_ssl 0 0 CL_IN [sample_signer] a_set)) = [rrsig] \<and> sig_of rrsig = Some sg \<and>
     verify_rrset_with_dnskey toy_ssl sample_key sg
       \<lparr>srr_name = Name [''a''], srr_type = RT_A, srr_class = CL_IN, srr_records = [a_record 1]\<rparr> = Ok ()"
proof -
  have "is_ok (fst (sign_set toy_ssl 0 0 CL_IN [sample_signer] a_set))"
    "rs_rrsigs (snd (sign_set toy_ssl 0 0 CL_IN [sample_signer] a_set)) \<noteq> rs_rrsigs a_set" by code_simp+
  then obtain s' where s': "sign_set toy_ssl 0 0 CL_IN [sample_signer] a_set = (Ok (), s')" "rs_rrsigs s' \<noteq> rs_rrsigs a_set"
    by (cases "sign_set toy_ssl 0 0 CL_IN [sample_signer] a_set") (auto simp: is_ok_iff)
  have "public_part_verifies toy_ssl" by (auto simp: public_part_verifies_def toy_ssl_def)
  moreover have "ssl_rsa_parts toy_ssl [9, 9] = ([1, 0, 1], [9, 9])" "sg_key sample_signer = KP_RSA [9, 9]"
    "sg_algorithm sample_signer = RSASHA256" "to_dnskey toy_ssl RSASHA256 (KP_RSA [9, 9]) = Ok sample_key"
    by (simp_all add: toy_ssl_def sample_signer_def signer_new_def to_dnskey_def sample_key_def)
  moreover have "rs_rrsigs a_set = []" "rs_name a_set = Name [''a'']" "rs_type a_set = RT_A" "rs_records a_set = [a_record 1]"
    by (simp_all add: a_set_def rr_set_from_def a_record_def)
  ultimately show ?thesis
    using zone_signature_verifies [of toy_ssl "[9, 9]" "[1, 0, 1]" "[9, 9]" sample_signer sample_key 0 0 CL_IN a_set s'] s' by auto
qed

theorem secure_signed_answer_accepted_witness:
  "secure_send toy_ssl (sample_net (message_new\<lparr>m_answers := [a_record 1, a_sig]\<rparr>)) (with_trust_anchor sample_anchor) []
     (a_query [''a'']) = Ok (message_new\<lparr>m_answers := [a_record 1]\<rparr>)"
proof -
  let ?r = "message_new\<lparr>m_answers := [a_record 1, a_sig]\<rparr>" and ?k = "from_rdata (Name [''x'']) 0 RT_DNSKEY (RD_DNSKEY sample_key)"
  let ?P = "\<lambda>s. type_covered s = RT_A \<and>
      any_ok (key_verifies toy_ssl s \<lparr>srr_name = Name [''a''], srr_type = RT_A, srr_class = CL_IN, srr_records = [a_record 1]\<rparr>) [?k] = Ok True"
  have "case sig_of a_sig of Some s \<Rightarrow> ?P s | None \<Rightarrow> False" "rr_type a_sig = RT_RRSIG" by code_simp+
  then obtain s where s: "sig_of a_sig = Some s" "?P s" and t: "rr_type a_sig = RT_RRSIG" by (auto split: option.splits)
  have r: "one_rrset (Name [''a''], RT_A) [a_record 1] [a_sig] ?r"
    using s t by (simp add: one_rrset_def message_new_def a_record_def)
  have k: "one_rrset (Name [''x''], RT_DNSKEY) [?k] [] key_message"
    by (simp add: one_rrset_def key_message_def message_new_def from_rdata_def)
  show ?thesis
    using secure_signed_answer_accepted [OF sample_net_fair sample_depth client_query_op
        client_query_queries [of 1 "Name [''a'']" CL_IN RT_A] sample_answer(1) r _ s(1) sample_answer(2) k _
        sample_key_anchored(1) [of "Name [''x'']" 0] sample_key_anchored(2), of toy_ssl] s(2) by simp
qed

end
