(* ===== verification/Tcp_Stream.thy ===== *)
theory Tcp_Stream
  imports Prelude
begin

text \<open>
  Messages on a stream connection: \<open>TcpStream::poll\<close> of \<open>client/src/tcp/tcp_stream.rs\<close>, used by the client
  and by the server, over TCP and over TLS. Each message follows its length in two octets. \<open>poll\<close> first sends
  what is queued, then reads until one message is complete, and picks up where the socket blocked.

  The socket is a parameter: what each read, write and flush gives is taken from a list of events. A list
  that is used up blocks. \<open>'a\<close> is the type of socket addresses.
\<close>

section \<open>Sockets\<close>

datatype in_event = In_Data bytes | In_Block | In_Eof | In_Err
datatype out_event = Out_Accept nat | Out_Block | Out_Err
datatype 'a queue_event = Q_Message bytes 'a | Q_NotReady | Q_End | Q_Err

datatype tcp_error = TE_Socket | TE_Unknown | TE_MismatchedPeer | TE_ClosedInLength | TE_ClosedInMessage

datatype 'a nb = NB 'a | NB_Block | NB_Err

datatype write_tcp_state = W_LenBytes nat bytes bytes | W_Bytes nat bytes | W_Flushing

datatype read_tcp_state = R_LenBytes nat bytes | R_Bytes nat bytes

text \<open>The stream with its socket; \<open>written\<close> holds the octets the socket has taken.\<close>

record 'a tcp_stream =
  incoming :: "in_event list"
  accepts :: "out_event list"
  flushes :: "out_event list"
  written :: bytes
  outbound_messages :: "'a queue_event list"
  send_state :: "write_tcp_state option"
  read_state :: read_tcp_state
  peer_addr :: 'a

datatype 'a tcp_poll = TP_Item bytes 'a | TP_End | TP_NotReady | TP_Err tcp_error | TP_Panic

text \<open>\<open>from_stream_with_receiver\<close>.\<close>

definition from_stream :: "in_event list \<Rightarrow> out_event list \<Rightarrow> out_event list \<Rightarrow> 'a queue_event list \<Rightarrow> 'a \<Rightarrow> 'a tcp_stream" where
  "from_stream ins outs fls queue peer =
     \<lparr>incoming = ins, accepts = outs, flushes = fls, written = [], outbound_messages = queue, send_state = None,
      read_state = R_LenBytes 0 [0, 0], peer_addr = peer\<rparr>"

definition sock_write :: "bytes \<Rightarrow> 'a tcp_stream \<Rightarrow> nat nb \<times> 'a tcp_stream" where
  "sock_write buf s =
     (case accepts s of
        [] \<Rightarrow> (NB_Block, s)
      | Out_Accept n # es \<Rightarrow>
          (NB (min n (length buf)), s\<lparr>accepts := es, written := written s @ take n buf\<rparr>)
      | Out_Block # es \<Rightarrow> (NB_Block, s\<lparr>accepts := es\<rparr>)
      | Out_Err # es \<Rightarrow> (NB_Err, s\<lparr>accepts := es\<rparr>))"

definition sock_flush :: "'a tcp_stream \<Rightarrow> unit nb \<times> 'a tcp_stream" where
  "sock_flush s =
     (case flushes s of
        [] \<Rightarrow> (NB_Block, s)
      | Out_Accept _ # es \<Rightarrow> (NB (), s\<lparr>flushes := es\<rparr>)
      | Out_Block # es \<Rightarrow> (NB_Block, s\<lparr>flushes := es\<rparr>)
      | Out_Err # es \<Rightarrow> (NB_Err, s\<lparr>flushes := es\<rparr>))"

text \<open>
  A read of at most \<open>n\<close> octets. What does not fit stays for the next read; a read into an empty buffer
  gives no octets, whatever the socket holds.
\<close>

definition sock_read :: "nat \<Rightarrow> 'a tcp_stream \<Rightarrow> bytes nb \<times> 'a tcp_stream" where
  "sock_read n s =
     (if n = 0 then (NB [], s)
      else case incoming s of
        [] \<Rightarrow> (NB_Block, s)
      | In_Data bs # es \<Rightarrow>
          (NB (take n bs), s\<lparr>incoming := (if length bs \<le> n then es else In_Data (drop n bs) # es)\<rparr>)
      | In_Block # es \<Rightarrow> (NB_Block, s\<lparr>incoming := es\<rparr>)
      | In_Eof # es \<Rightarrow> (NB [], s)
      | In_Err # es \<Rightarrow> (NB_Err, s\<lparr>incoming := es\<rparr>))"

section \<open>Sending\<close>

definition frame_length :: "bytes \<Rightarrow> bytes" where
  "frame_length buffer = [of_nat (length buffer div 256), of_nat (length buffer)]"

text \<open>The match that moves to the next sending state.\<close>

fun switch_state :: "write_tcp_state \<Rightarrow> write_tcp_state option" where
  "switch_state (W_LenBytes pos len bytes) =
     Some (if pos < length len then W_LenBytes pos len bytes else W_Bytes 0 bytes)"
| "switch_state (W_Bytes pos bytes) = Some (if pos < length bytes then W_Bytes pos bytes else W_Flushing)"
| "switch_state W_Flushing = None"

definition after_write :: "(nat \<Rightarrow> write_tcp_state) \<Rightarrow> nat nb \<times> 'a tcp_stream \<Rightarrow> 'a tcp_poll option \<times> 'a tcp_stream" where
  "after_write st r =
     (case r of
        (NB wrote, s) \<Rightarrow> (None, s\<lparr>send_state := switch_state (st wrote)\<rparr>)
      | (NB_Block, s) \<Rightarrow> (Some TP_NotReady, s)
      | (NB_Err, s) \<Rightarrow> (Some (TP_Err TE_Socket), s))"

text \<open>One round of the sending loop; a result ends the poll.\<close>

fun send_step :: "write_tcp_state \<Rightarrow> 'a tcp_stream \<Rightarrow> 'a tcp_poll option \<times> 'a tcp_stream" where
  "send_step (W_LenBytes pos len bytes) s =
     after_write (\<lambda>wrote. W_LenBytes (pos + wrote) len bytes) (sock_write (drop pos len) s)"
| "send_step (W_Bytes pos bytes) s = after_write (\<lambda>wrote. W_Bytes (pos + wrote) bytes) (sock_write (drop pos bytes) s)"
| "send_step W_Flushing s =
     (case sock_flush s of
        (NB _, s) \<Rightarrow> (None, s\<lparr>send_state := switch_state W_Flushing\<rparr>)
      | (NB_Block, s) \<Rightarrow> (Some TP_NotReady, s)
      | (NB_Err, s) \<Rightarrow> (Some (TP_Err TE_Socket), s))"

text \<open>The next queued message, or the end of the sending loop (\<open>Inr\<close>).\<close>

definition next_message :: "'a tcp_stream \<Rightarrow> ('a tcp_poll option + unit) \<times> 'a tcp_stream" where
  "next_message s =
     (case outbound_messages s of
        [] \<Rightarrow> (Inr (), s)
      | Q_Message buffer dst # es \<Rightarrow>
          if peer_addr s \<noteq> dst then (Inl (Some (TP_Err TE_MismatchedPeer)), s\<lparr>outbound_messages := es\<rparr>)
          else (Inl None, s\<lparr>outbound_messages := es, send_state := Some (W_LenBytes 0 (frame_length buffer) buffer)\<rparr>)
      | Q_NotReady # es \<Rightarrow> (Inr (), s\<lparr>outbound_messages := es\<rparr>)
      | Q_End # es \<Rightarrow> (Inr (), s)
      | Q_Err # es \<Rightarrow> (Inl (Some (TP_Err TE_Unknown)), s\<lparr>outbound_messages := es\<rparr>))"

lemma sock_write_events: "sock_write buf s = (NB n, s') \<Longrightarrow> length (accepts s') < length (accepts s) \<and> flushes s' = flushes s \<and>
    outbound_messages s' = outbound_messages s"
  by (auto simp: sock_write_def split: list.splits out_event.splits)

lemma send_step_decreases:
  "send_step st s = (None, s') \<Longrightarrow>
     length (accepts s') + length (flushes s') + length (outbound_messages s') <
     length (accepts s) + length (flushes s) + length (outbound_messages s)"
  by (cases st)
    (auto simp: after_write_def sock_flush_def split: prod.splits nb.splits list.splits out_event.splits dest!: sock_write_events)

lemma next_message_decreases:
  "next_message s = (Inl None, s') \<Longrightarrow> length (outbound_messages s') < length (outbound_messages s) \<and>
     accepts s' = accepts s \<and> flushes s' = flushes s"
  by (auto simp: next_message_def split: list.splits queue_event.splits if_splits)

function tcp_send_loop :: "'a tcp_stream \<Rightarrow> 'a tcp_poll option \<times> 'a tcp_stream" where
  "tcp_send_loop s =
     (case send_state s of
        Some st \<Rightarrow>
          (case send_step st s of
             (Some r, s') \<Rightarrow> (Some r, s')
           | (None, s') \<Rightarrow> tcp_send_loop s')
      | None \<Rightarrow>
          (case next_message s of
             (Inl (Some r), s') \<Rightarrow> (Some r, s')
           | (Inl None, s') \<Rightarrow> tcp_send_loop s'
           | (Inr _, s') \<Rightarrow> (None, s')))"
  by pat_completeness auto

termination
  by (relation "measure (\<lambda>s. length (accepts s) + length (flushes s) + length (outbound_messages s))")
    (auto dest!: send_step_decreases [OF sym] next_message_decreases [OF sym])

declare tcp_send_loop.simps [simp del]

section \<open>Reading\<close>

datatype 'a read_result = RR_Return "'a tcp_poll" | RR_Got bytes | RR_Again

definition fill :: "nat \<Rightarrow> bytes \<Rightarrow> bytes \<Rightarrow> bytes" where
  "fill pos buf data = take pos buf @ data @ drop (pos + length data) buf"

definition message_length :: "bytes \<Rightarrow> nat" where
  "message_length b =
     unat ((push_bit 8 (ucast (b ! 0)) AND 0xFF00) OR (ucast (b ! 1) AND 0x00FF) :: u16)"

fun read_step :: "read_tcp_state \<Rightarrow> 'a tcp_stream \<Rightarrow> 'a read_result \<times> 'a tcp_stream" where
  "read_step (R_LenBytes pos buf) s =
     (case sock_read (length buf - pos) s of
        (NB_Block, s) \<Rightarrow> (RR_Return TP_NotReady, s)
      | (NB_Err, s) \<Rightarrow> (RR_Return (TP_Err TE_Socket), s)
      | (NB data, s) \<Rightarrow>
          if data = [] then (RR_Return (if pos = 0 then TP_End else TP_Err TE_ClosedInLength), s)
          else
            let buf = fill pos buf data; pos = pos + length data in
            if pos < length buf then (RR_Again, s\<lparr>read_state := R_LenBytes pos buf\<rparr>)
            else (RR_Again, s\<lparr>read_state := R_Bytes 0 (replicate (message_length buf) 0)\<rparr>))"
| "read_step (R_Bytes pos buf) s =
     (case sock_read (length buf - pos) s of
        (NB_Block, s) \<Rightarrow> (RR_Return TP_NotReady, s)
      | (NB_Err, s) \<Rightarrow> (RR_Return (TP_Err TE_Socket), s)
      | (NB data, s) \<Rightarrow>
          if data = [] then (RR_Return (TP_Err TE_ClosedInMessage), s)
          else
            let buf = fill pos buf data; pos = pos + length data in
            if pos < length buf then (RR_Again, s\<lparr>read_state := R_Bytes pos buf\<rparr>)
            else (if pos = length buf then RR_Got buf else RR_Return TP_Panic, s\<lparr>read_state := R_LenBytes 0 [0, 0]\<rparr>))"

primrec event_size :: "in_event \<Rightarrow> nat" where
  "event_size (In_Data bs) = Suc (length bs)"
| "event_size In_Block = 1"
| "event_size In_Eof = 1"
| "event_size In_Err = 1"

lemma sock_read_decreases:
  "sock_read n s = (NB data, s') \<Longrightarrow> data \<noteq> [] \<Longrightarrow>
     sum_list (map event_size (incoming s')) < sum_list (map event_size (incoming s))"
  by (auto simp: sock_read_def split: list.splits in_event.splits if_splits)

lemma read_step_decreases:
  "read_step st s = (RR_Again, s') \<Longrightarrow> sum_list (map event_size (incoming s')) < sum_list (map event_size (incoming s))"
  by (cases st) (auto simp: Let_def split: prod.splits nb.splits if_splits dest!: sock_read_decreases)

function read_loop :: "'a tcp_stream \<Rightarrow> 'a tcp_poll \<times> 'a tcp_stream" where
  "read_loop s =
     (case read_step (read_state s) s of
        (RR_Return r, s') \<Rightarrow> (r, s')
      | (RR_Got buffer, s') \<Rightarrow> (TP_Item buffer (peer_addr s'), s')
      | (RR_Again, s') \<Rightarrow> read_loop s')"
  by pat_completeness auto

termination
  by (relation "measure (\<lambda>s. sum_list (map event_size (incoming s)))") (auto dest!: read_step_decreases [OF sym])

declare read_loop.simps [simp del]

definition tcp_poll :: "'a tcp_stream \<Rightarrow> 'a tcp_poll \<times> 'a tcp_stream" where
  "tcp_poll s =
     (case tcp_send_loop s of
        (Some r, s') \<Rightarrow> (r, s')
      | (None, s') \<Rightarrow> read_loop s')"

section \<open>The octets of a connection\<close>

text \<open>
  A message on the wire, the octets that a stream has still to deliver, and the octets that it has
  written or will write for the messages queued for its peer.
\<close>

definition frame :: "bytes \<Rightarrow> bytes" where
  "frame m = frame_length m @ m"

definition octets :: "in_event list \<Rightarrow> bytes" where
  "octets es = concat (map (\<lambda>e. case e of In_Data bs \<Rightarrow> bs | _ \<Rightarrow> []) es)"

fun read_so_far :: "read_tcp_state \<Rightarrow> bytes" where
  "read_so_far (R_LenBytes pos buf) = take pos buf"
| "read_so_far (R_Bytes pos buf) = frame_length buf @ take pos buf"

fun unsent :: "write_tcp_state option \<Rightarrow> bytes" where
  "unsent None = []"
| "unsent (Some (W_LenBytes pos len buf)) = drop pos len @ buf"
| "unsent (Some (W_Bytes pos buf)) = drop pos buf"
| "unsent (Some W_Flushing) = []"

definition queued :: "'a \<Rightarrow> 'a queue_event list \<Rightarrow> bytes list" where
  "queued peer es = concat (map (\<lambda>e. case e of Q_Message m dst \<Rightarrow> if dst = peer then [m] else [] | _ \<Rightarrow> []) es)"

definition undelivered :: "'a tcp_stream \<Rightarrow> bytes" where
  "undelivered s = read_so_far (read_state s) @ octets (incoming s)"

definition outgoing :: "'a tcp_stream \<Rightarrow> bytes" where
  "outgoing s = written s @ unsent (send_state s) @ concat (map frame (queued (peer_addr s) (outbound_messages s)))"

fun read_ok :: "read_tcp_state \<Rightarrow> bool" where
  "read_ok (R_LenBytes pos buf) \<longleftrightarrow> length buf = 2 \<and> pos < 2"
| "read_ok (R_Bytes pos buf) \<longleftrightarrow> length buf < 65536 \<and> (pos < length buf \<or> pos = 0)"

lemma octets_simps [simp]:
  "octets [] = []" "octets (In_Data bs # es) = bs @ octets es" "octets (In_Block # es) = octets es"
  "octets (In_Eof # es) = octets es" "octets (In_Err # es) = octets es"
  by (simp_all add: octets_def)

lemma queued_simps [simp]:
  "queued p [] = []" "queued p (Q_Message m d # es) = (if d = p then [m] else []) @ queued p es"
  "queued p (Q_NotReady # es) = queued p es" "queued p (Q_End # es) = queued p es" "queued p (Q_Err # es) = queued p es"
  by (simp_all add: queued_def)

lemma frame_length_length [simp]: "length (frame_length m) = 2"
  by (simp add: frame_length_def)

lemma fill_length: "pos + length data \<le> length buf \<Longrightarrow> length (fill pos buf data) = length buf"
  by (simp add: fill_def)

lemma take_fill: "pos \<le> length buf \<Longrightarrow> take (pos + length data) (fill pos buf data) = take pos buf @ data"
  by (simp add: fill_def)

lemma u16_octets: "(of_nat (unat w) :: u8) = ucast w" "(of_nat (unat w div 256) :: u8) = ucast (drop_bit 8 w)" for w :: u16
proof -
  show "(of_nat (unat w) :: u8) = ucast w" by simp
  have "unat w div 256 = unat (drop_bit 8 w)" by (simp add: drop_bit_eq_div unat_div)
  then show "(of_nat (unat w div 256) :: u8) = ucast (drop_bit 8 w)" by simp
qed

lemma message_length_frame:
  assumes "length b = 2" "message_length b = n"
  shows "[of_nat (n div 256), of_nat n] = b" "n < 65536"
proof -
  obtain x y where b: "b = [x, y]" using assms(1) by (auto simp: length_Suc_conv numeral_2_eq_2)
  let ?w = "(push_bit 8 (ucast x) AND 0xFF00) OR (ucast y AND 0x00FF) :: u16"
  have masks: "(0x00FF :: u16) = mask 8" "(0xFF00 :: u16) = push_bit 8 (mask 8)"
    by (simp_all add: mask_eq_exp_minus_1 push_bit_eq_mult)
  have n: "n = unat ?w" using assms(2) by (simp add: b message_length_def)
  then show "n < 65536" using unsigned_less [of ?w] by simp
  have "(of_nat n :: u8) = ucast ?w" by (simp only: n u16_octets)
  also have "\<dots> = y" by (rule bit_word_eqI) (auto simp: masks bit_simps)
  finally have lo: "(of_nat n :: u8) = y" .
  have "(of_nat (n div 256) :: u8) = ucast (drop_bit 8 ?w)"
    by (simp only: n u16_octets)
  also have "\<dots> = x" by (rule bit_word_eqI) (auto simp: masks bit_simps)
  finally show "[of_nat (n div 256), of_nat n] = b" using lo by (simp add: b)
qed

lemma sock_read_conserves:
  assumes "sock_read n s = (r, s')"
  shows "octets (incoming s) = (case r of NB data \<Rightarrow> data | _ \<Rightarrow> []) @ octets (incoming s') \<and>
    (\<forall>data. r = NB data \<longrightarrow> length data \<le> n) \<and> read_state s' = read_state s \<and> peer_addr s' = peer_addr s \<and>
    outgoing s' = outgoing s"
  using assms by (auto simp: sock_read_def outgoing_def split: if_splits list.splits in_event.splits)

definition conserves :: "'a read_result \<Rightarrow> 'a tcp_stream \<Rightarrow> 'a tcp_stream \<Rightarrow> bool" where
  "conserves r s s' \<longleftrightarrow>
     read_ok (read_state s') \<and> undelivered s = (case r of RR_Got m \<Rightarrow> frame m | _ \<Rightarrow> []) @ undelivered s' \<and>
     r \<noteq> RR_Return TP_Panic \<and> (\<forall>m p. r \<noteq> RR_Return (TP_Item m p)) \<and> (\<forall>m. r = RR_Got m \<longrightarrow> m \<noteq> [] \<and> length m < 65536) \<and>
     peer_addr s' = peer_addr s \<and> outgoing s' = outgoing s"

lemma read_length_conserves:
  assumes "read_ok (R_LenBytes pos buf)" "read_step (R_LenBytes pos buf) s = (r, s')" "read_state s = R_LenBytes pos buf"
  shows "conserves r s s'"
proof -
  from assms(1) have b: "length buf = 2" "pos < 2" by simp_all
  obtain q t where q: "sock_read (length buf - pos) s = (q, t)" by (metis surj_pair)
  note c = sock_read_conserves [OF q]
  show ?thesis
  proof (cases "\<exists>data. q = NB data \<and> data \<noteq> []")
    case True
    then obtain data where d: "q = NB data" "data \<noteq> []" by blast
    let ?buf = "fill pos buf data"
    have l: "pos + length data \<le> 2" "length ?buf = 2" using c d b by (auto simp: fill_length)
    have t: "take (pos + length data) ?buf = take pos buf @ data" using b by (simp add: take_fill)
    show ?thesis
    proof (cases "pos + length data < 2")
      case True
      with assms q d l t c show ?thesis
        by (auto simp: conserves_def undelivered_def outgoing_def Let_def)
    next
      case False
      with l(1) have e: "pos + length data = 2" by simp
      with t l(2) have "?buf = take pos buf @ data" by (metis order_refl take_all)
      then have "frame_length (replicate (message_length ?buf) 0) = take pos buf @ data" "message_length ?buf < 65536"
        using message_length_frame [OF l(2) refl] by (simp_all add: frame_length_def)
      with assms q d l c e show ?thesis
        by (auto simp: conserves_def undelivered_def outgoing_def Let_def)
    qed
  next
    case False
    with assms q c show ?thesis by (cases q) (auto simp: conserves_def undelivered_def split: if_splits)
  qed
qed

lemma read_message_conserves:
  assumes "read_ok (R_Bytes pos buf)" "read_step (R_Bytes pos buf) s = (r, s')" "read_state s = R_Bytes pos buf"
  shows "conserves r s s'"
proof -
  from assms(1) have b: "length buf < 65536" "pos < length buf \<or> pos = 0" by simp_all
  obtain q t where q: "sock_read (length buf - pos) s = (q, t)" by (metis surj_pair)
  note c = sock_read_conserves [OF q]
  show ?thesis
  proof (cases "\<exists>data. q = NB data \<and> data \<noteq> []")
    case True
    then obtain data where d: "q = NB data" "data \<noteq> []" by blast
    let ?buf = "fill pos buf data"
    have l: "pos + length data \<le> length buf" "length ?buf = length buf" using c d b by (auto simp: fill_length)
    have t: "take (pos + length data) ?buf = take pos buf @ data" by (rule take_fill) (use b in auto)
    have f: "frame_length ?buf = frame_length buf" using l(2) by (simp add: frame_length_def)
    show ?thesis
    proof (cases "pos + length data < length buf")
      case True
      with assms q d l t c f b show ?thesis
        by (auto simp: conserves_def undelivered_def outgoing_def Let_def)
    next
      case False
      with l(1) have e: "pos + length data = length buf" by simp
      with t l(2) have "?buf = take pos buf @ data" by (metis order_refl take_all)
      with assms q d l c e f show ?thesis
        by (auto simp: conserves_def undelivered_def outgoing_def frame_def Let_def)
    qed
  next
    case False
    with assms q c show ?thesis by (cases q) (auto simp: conserves_def undelivered_def split: if_splits)
  qed
qed

lemma read_step_conserves:
  "read_ok (read_state s) \<Longrightarrow> read_step (read_state s) s = (r, s') \<Longrightarrow> conserves r s s'"
  by (cases "read_state s") (auto intro: read_length_conserves read_message_conserves simp del: read_step.simps read_ok.simps)

lemma read_loop_conserves:
  assumes "read_ok (read_state s)" "read_loop s = (r, s')"
  shows "read_ok (read_state s') \<and> undelivered s = (case r of TP_Item m p \<Rightarrow> frame m | _ \<Rightarrow> []) @ undelivered s' \<and> r \<noteq> TP_Panic \<and>
    peer_addr s' = peer_addr s \<and> outgoing s' = outgoing s \<and> (\<forall>m p. r = TP_Item m p \<longrightarrow> p = peer_addr s \<and> m \<noteq> [] \<and> length m < 65536)"
  using assms
proof (induction s rule: read_loop.induct)
  case (1 s)
  obtain q t where q: "read_step (read_state s) s = (q, t)" by (metis surj_pair)
  note c = read_step_conserves [OF 1(2) q, unfolded conserves_def]
  show ?case
  proof (cases q)
    case RR_Again
    with q 1(3) have "read_loop t = (r, s')" by (simp add: read_loop.simps [of s])
    with 1(1) [OF q [symmetric]] RR_Again c show ?thesis by simp
  next
    case (RR_Return x)
    with q 1(3) c show ?thesis by (cases x) (auto simp: read_loop.simps [of s])
  next
    case (RR_Got m)
    with q 1(3) c show ?thesis by (auto simp: read_loop.simps [of s])
  qed
qed

lemma drop_min_length: "drop (min n (length xs)) xs = drop n xs"
  by (simp add: min_def)

lemma after_write_conserves:
  assumes "after_write st (sock_write (drop pos buf) s) = (r, s')" "unsent (send_state s) = drop pos buf @ rest"
    "\<And>wrote. unsent (switch_state (st wrote)) = drop (pos + wrote) buf @ rest"
  shows "outgoing s' = outgoing s \<and> incoming s' = incoming s \<and> read_state s' = read_state s \<and> peer_addr s' = peer_addr s"
proof -
  have "drop (pos + min n (length buf - pos)) buf = drop n (drop pos buf)" for n
    using drop_min_length [of n "drop pos buf"] by (simp add: add.commute)
  then have "take n (drop pos buf) @ drop (pos + min n (length buf - pos)) buf = drop pos buf" for n
    by (simp only: append_take_drop_id)
  then have "take n (drop pos buf) @ drop (pos + min n (length buf - pos)) buf @ rest = drop pos buf @ rest" for n
    by (metis append.assoc)
  with assms show ?thesis
    by (auto simp: after_write_def sock_write_def outgoing_def split: list.splits out_event.splits)
qed

lemma send_step_conserves:
  assumes "send_step st s = (r, s')" "send_state s = Some st"
  shows "outgoing s' = outgoing s \<and> incoming s' = incoming s \<and> read_state s' = read_state s \<and> peer_addr s' = peer_addr s"
proof (cases st)
  case (W_LenBytes pos len buf)
  with assms show ?thesis by (intro after_write_conserves [of _ pos len s r s' buf]) auto
next
  case (W_Bytes pos buf)
  with assms show ?thesis by (intro after_write_conserves [of _ pos buf s r s' "[]"]) auto
next
  case W_Flushing
  with assms show ?thesis by (auto simp: sock_flush_def outgoing_def split: list.splits out_event.splits)
qed

lemma next_message_conserves:
  assumes "next_message s = (r, s')" "send_state s = None"
  shows "outgoing s' = outgoing s \<and> incoming s' = incoming s \<and> read_state s' = read_state s \<and> peer_addr s' = peer_addr s"
  using assms by (auto simp: next_message_def outgoing_def frame_def split: list.splits queue_event.splits if_splits)

lemma send_loop_conserves:
  assumes "tcp_send_loop s = (r, s')"
  shows "outgoing s' = outgoing s \<and> incoming s' = incoming s \<and> read_state s' = read_state s \<and> peer_addr s' = peer_addr s"
  using assms
proof (induction s rule: tcp_send_loop.induct)
  case (1 s)
  show ?case
  proof (cases "send_state s")
    case None
    obtain q t where q: "next_message s = (q, t)" by (metis surj_pair)
    note c = next_message_conserves [OF q None]
    show ?thesis using 1(3) None q c 1(1) [OF None q [symmetric]]
      by (auto simp: tcp_send_loop.simps [of s] split: sum.splits option.splits)
  next
    case (Some st)
    obtain q t where q: "send_step st s = (q, t)" by (metis surj_pair)
    note c = send_step_conserves [OF q Some]
    show ?thesis using 1(3) Some q c 1(2) [OF Some q [symmetric]]
      by (auto simp: tcp_send_loop.simps [of s] split: option.splits)
  qed
qed

lemma send_loop_result: "tcp_send_loop s = (Some r, s') \<Longrightarrow> r \<noteq> TP_Panic \<and> (\<forall>m p. r \<noteq> TP_Item m p)"
proof (induction s rule: tcp_send_loop.induct)
  case (1 s)
  show ?case
  proof (cases "send_state s")
    case None
    obtain q t where q: "next_message s = (q, t)" by (metis surj_pair)
    moreover from q have "q \<noteq> Inl (Some TP_Panic)" "q \<noteq> Inl (Some (TP_Item m p))" for m p
      by (auto simp: next_message_def split: list.splits queue_event.splits if_splits)
    ultimately show ?thesis using 1(3) None 1(1) [OF None q [symmetric]]
      by (auto simp: tcp_send_loop.simps [of s] split: sum.splits option.splits)
  next
    case (Some st)
    obtain q t where q: "send_step st s = (q, t)" by (metis surj_pair)
    moreover from q have "q \<noteq> Some TP_Panic" "q \<noteq> Some (TP_Item m p)" for m p
      by (cases st; auto simp: after_write_def split: prod.splits nb.splits)+
    ultimately show ?thesis using 1(3) Some 1(2) [OF Some q [symmetric]]
      by (auto simp: tcp_send_loop.simps [of s] split: option.splits)
  qed
qed

lemma poll_conserves:
  assumes "read_ok (read_state s)" "tcp_poll s = (r, s')"
  shows "peer_addr s' = peer_addr s \<and> read_ok (read_state s') \<and> r \<noteq> TP_Panic \<and> outgoing s' = outgoing s \<and>
    undelivered s = (case r of TP_Item m p \<Rightarrow> frame m | _ \<Rightarrow> []) @ undelivered s' \<and>
    (\<forall>m p. r = TP_Item m p \<longrightarrow> p = peer_addr s \<and> m \<noteq> [] \<and> length m < 65536)"
proof -
  obtain q t where q: "tcp_send_loop s = (q, t)" by (metis surj_pair)
  note c = send_loop_conserves [OF q]
  show ?thesis
  proof (cases q)
    case None
    with assms(2) q have "read_loop t = (r, s')" by (simp add: tcp_poll_def)
    with read_loop_conserves [of t r s'] assms(1) c show ?thesis by (simp add: undelivered_def)
  next
    case (Some x)
    with send_loop_result [of s x t] assms q c show ?thesis
      by (cases x) (auto simp: tcp_poll_def undelivered_def)
  qed
qed

text \<open>
  C15. A poll of a stream loses, repeats and reorders nothing, however the socket splits reads and writes
  and wherever it blocks. The octets written, in transit through the stream and queued for its peer
  form the same sequence before and after; the octets read form the message that the poll returned,
  after its length, and what is still to be delivered. A message is returned with the peer's address,
  and the assertion on its length does not fail.
\<close>
theorem tcp_poll_conserves:
  assumes "read_ok (read_state s)" "tcp_poll s = (r, s')"
  shows "read_ok (read_state s') \<and> r \<noteq> TP_Panic \<and> outgoing s' = outgoing s \<and>
    undelivered s = (case r of TP_Item m p \<Rightarrow> frame m | _ \<Rightarrow> []) @ undelivered s' \<and>
    (\<forall>m p. r = TP_Item m p \<longrightarrow> p = peer_addr s \<and> m \<noteq> [] \<and> length m < 65536)"
  using poll_conserves [OF assms] by (rule conjunct2)

lemma frame_length_inj:
  assumes "frame_length a = frame_length b" "length a < 65536" "length b < 65536"
  shows "length a = length b"
proof -
  have "length a div 256 = length b div 256" "length a mod 256 = length b mod 256"
    using assms by (auto simp: frame_length_def word_unat_eq_iff unsigned_of_nat take_bit_eq_mod)
  then show ?thesis by (metis div_mult_mod_eq)
qed

lemma frame_inj:
  assumes "frame a @ x = frame b @ y" "length a < 65536" "length b < 65536"
  shows "a = b \<and> x = y"
proof -
  have "frame_length a = frame_length b" "a @ x = b @ y"
    using assms(1) by (simp_all add: frame_def frame_length_def)
  with frame_length_inj [OF this(1) assms(2,3)] show ?thesis by simp
qed

definition all_data :: "in_event list \<Rightarrow> bool" where
  "all_data es \<longleftrightarrow> (\<forall>e\<in>set es. \<exists>bs. e = In_Data bs \<and> bs \<noteq> [])"

lemma sock_read_data:
  assumes "sock_read n s = (q, t)" "all_data (incoming s)"
  shows "all_data (incoming t) \<and> read_state t = read_state s \<and>
    (q = NB_Block \<and> incoming t = [] \<or> (\<exists>data. q = NB data \<and> (data = [] \<longleftrightarrow> n = 0)))"
  using assms by (auto simp: sock_read_def all_data_def split: if_splits list.splits in_event.splits)

lemma read_step_data:
  assumes "read_step (read_state s) s = (q, t)" "all_data (incoming s)" "read_ok (read_state s)"
  shows "all_data (incoming t) \<and>
    (q = RR_Return TP_NotReady \<and> incoming t = [] \<or> q = RR_Again \<or> (\<exists>m. q = RR_Got m) \<or> q = RR_Return TP_Panic \<or>
     q = RR_Return (TP_Err TE_ClosedInMessage) \<and> read_state t = R_Bytes 0 [])"
proof (cases "read_state s")
  case (R_LenBytes pos buf)
  obtain x u where x: "sock_read (length buf - pos) s = (x, u)" by (metis surj_pair)
  from sock_read_data [OF x assms(2)] x R_LenBytes assms show ?thesis
    by (auto simp: Let_def split: if_splits)
next
  case (R_Bytes pos buf)
  obtain x u where x: "sock_read (length buf - pos) s = (x, u)" by (metis surj_pair)
  from sock_read_data [OF x assms(2)] x R_Bytes assms show ?thesis
    by (auto simp: Let_def split: if_splits)
qed

lemma read_loop_data:
  assumes "read_loop s = (r, s')" "all_data (incoming s)" "read_ok (read_state s)"
  shows "all_data (incoming s') \<and>
    (r = TP_NotReady \<and> incoming s' = [] \<or> (\<exists>m p. r = TP_Item m p) \<or> r = TP_Panic \<or>
     r = TP_Err TE_ClosedInMessage \<and> read_state s' = R_Bytes 0 [])"
  using assms
proof (induction s rule: read_loop.induct)
  case (1 s)
  obtain q t where q: "read_step (read_state s) s = (q, t)" by (metis surj_pair)
  from read_step_data [OF q 1(3,4)] read_step_conserves [OF 1(4) q] 1(1) [OF q [symmetric]] 1(2) q show ?case
    by (auto simp: read_loop.simps [of s] conserves_def split: read_result.splits)
qed

lemma partial_frame:
  assumes "read_ok st" "read_so_far st = frame m @ rest" "m \<noteq> []" "length m < 65536"
  shows False
proof (cases st)
  case (R_LenBytes pos buf)
  with assms(1) have "length (read_so_far st) < 2" by simp
  then show False by (simp add: assms(2) frame_def)
next
  case (R_Bytes pos buf)
  with assms(2) have f: "frame_length buf = frame_length m" "take pos buf = m @ rest"
    by (simp_all add: frame_def frame_length_def)
  have "length buf = length m" using frame_length_inj [OF f(1)] assms(1,4) R_Bytes by simp
  moreover have "length m \<le> length (take pos buf)" by (simp add: f(2))
  ultimately show False using assms(1,3) R_Bytes by auto
qed

lemma read_delivers:
  assumes "read_ok (read_state s)" "all_data (incoming s)" "undelivered s = frame m @ rest" "m \<noteq> []" "length m < 65536"
  obtains s' where "read_loop s = (TP_Item m (peer_addr s), s')" "undelivered s' = rest" "all_data (incoming s')"
    "read_ok (read_state s')" "peer_addr s' = peer_addr s"
proof -
  obtain r s' where r: "read_loop s = (r, s')" by (metis surj_pair)
  note c = read_loop_conserves [OF assms(1) r] and d = read_loop_data [OF r assms(2,1)]
  have "\<not> (r = TP_NotReady \<and> incoming s' = [])"
    using partial_frame [of "read_state s'" m rest] c assms(3-5) by (auto simp: undelivered_def)
  moreover have "\<not> (r = TP_Err TE_ClosedInMessage \<and> read_state s' = R_Bytes 0 [])"
  proof
    assume e: "r = TP_Err TE_ClosedInMessage \<and> read_state s' = R_Bytes 0 []"
    with c assms(3) have "frame [] @ octets (incoming s') = frame m @ rest" by (simp add: undelivered_def frame_def)
    from frame_inj [OF this] assms(4,5) show False by simp
  qed
  ultimately obtain n where n: "r = TP_Item n (peer_addr s)" using d c by blast
  with c have "length n < 65536" "frame n @ undelivered s' = frame m @ rest" using assms(3) by auto
  with frame_inj [OF this(2)] assms(5) have e: "n = m" "undelivered s' = rest" by auto
  have "read_ok (read_state s')" "peer_addr s' = peer_addr s" "all_data (incoming s')" using c d by blast+
  with that [of s'] r n e show thesis by blast
qed

definition idle :: "'a tcp_stream \<Rightarrow> bool" where
  "idle s \<longleftrightarrow> send_state s = None \<and> outbound_messages s = []"

lemma idle_poll: "idle s \<Longrightarrow> tcp_poll s = read_loop s"
  by (simp add: tcp_poll_def tcp_send_loop.simps [of s] idle_def next_message_def)

lemma read_loop_idle: "read_loop s = (r, s') \<Longrightarrow> idle s \<Longrightarrow> idle s'"
proof (induction s rule: read_loop.induct)
  case (1 s)
  obtain q t where q: "read_step (read_state s) s = (q, t)" by (metis surj_pair)
  with 1(3) have "idle t"
    by (cases "read_state s")
      (auto simp: idle_def sock_read_def Let_def split: if_splits prod.splits nb.splits list.splits in_event.splits)
  with 1(1) [OF q [symmetric]] 1(2) q show ?case by (cases q) (auto simp: read_loop.simps [of s])
qed

primrec tcp_polls :: "nat \<Rightarrow> 'a tcp_stream \<Rightarrow> 'a tcp_poll list" where
  "tcp_polls 0 s = []"
| "tcp_polls (Suc n) s = (case tcp_poll s of (r, s') \<Rightarrow> r # tcp_polls n s')"

lemma polls_deliver:
  assumes "read_ok (read_state s)" "all_data (incoming s)" "idle s" "undelivered s = concat (map frame ms)"
    "\<forall>m\<in>set ms. m \<noteq> [] \<and> length m < 65536"
  shows "tcp_polls (length ms) s = map (\<lambda>m. TP_Item m (peer_addr s)) ms"
  using assms
proof (induction ms arbitrary: s)
  case (Cons m ms)
  then obtain s' where s': "read_loop s = (TP_Item m (peer_addr s), s')" "undelivered s' = concat (map frame ms)"
    "all_data (incoming s')" "read_ok (read_state s')" "peer_addr s' = peer_addr s"
    using read_delivers [of s m "concat (map frame ms)"] by auto
  with Cons.IH [of s'] Cons.prems read_loop_idle [OF s'(1)] show ?case by (simp add: idle_poll)
qed simp

inductive tcp_run :: "'a tcp_stream \<Rightarrow> 'a tcp_stream \<Rightarrow> bool" for s where
  start: "tcp_run s s"
| polled: "\<lbrakk>tcp_run s t; tcp_poll t = (r, u)\<rbrakk> \<Longrightarrow> tcp_run s u"

lemma tcp_run_outgoing:
  "tcp_run s t \<Longrightarrow> read_ok (read_state s) \<Longrightarrow> read_ok (read_state t) \<and> outgoing t = outgoing s"
  by (induction rule: tcp_run.induct) (auto dest: poll_conserves)

text \<open>
  C14. Messages arrive. Polled until its queue is empty, a sender has written octets which a receiver, whose
  socket hands them over in pieces of any size, returns as the queued messages, in order, one for each
  poll. Messages are not empty and shorter than 65536 octets.
\<close>
theorem tcp_messages_arrive:
  assumes "tcp_run (from_stream ins outs fls (map (\<lambda>m. Q_Message m p) ms) p) w" "idle w"
    "concat chunks = written w" "[] \<notin> set chunks" "\<forall>m\<in>set ms. m \<noteq> [] \<and> length m < 65536"
  shows "tcp_polls (length ms) (from_stream (map In_Data chunks) [] [] [] q) = map (\<lambda>m. TP_Item m q) ms"
proof -
  have "queued p (map (\<lambda>m. Q_Message m p) ms) = ms" by (induction ms) simp_all
  then have "written w = concat (map frame ms)"
    using tcp_run_outgoing [OF assms(1)] assms(2) by (simp add: outgoing_def from_stream_def idle_def)
  moreover have "octets (map In_Data chunks) = concat chunks" by (induction chunks) simp_all
  ultimately show ?thesis
    using polls_deliver [of "from_stream (map In_Data chunks) [] [] [] q" ms] assms(3-5)
    by (auto simp: from_stream_def idle_def undelivered_def all_data_def)
qed

section \<open>Witnesses\<close>

definition split_stream :: "nat tcp_stream" where
  "split_stream = from_stream [In_Data [0], In_Data [2, 7], In_Data [8]] [] [] [] 5"

theorem tcp_poll_conserves_witness:
  "\<exists>s'. tcp_poll split_stream = (TP_Item [7, 8] 5, s') \<and> undelivered split_stream = frame [7, 8] @ undelivered s'"
proof -
  have "fst (tcp_poll split_stream) = TP_Item [7, 8] 5" by code_simp
  then obtain s' where s': "tcp_poll split_stream = (TP_Item [7, 8] 5, s')" by (cases "tcp_poll split_stream") auto
  moreover have "read_ok (read_state split_stream)" by code_simp
  ultimately show ?thesis using tcp_poll_conserves [of split_stream "TP_Item [7, 8] 5" s'] by simp
qed

definition sample_sender :: "nat tcp_stream" where
  "sample_sender = from_stream [] [Out_Accept 1, Out_Accept 5, Out_Accept 5] [Out_Accept 0] (map (\<lambda>m. Q_Message m 5) [[7, 8]]) 5"

theorem tcp_messages_arrive_witness:
  "tcp_polls 1 split_stream = [TP_Item [7, 8] 5]"
proof -
  define w where "w = snd (tcp_poll sample_sender)"
  have "send_state w = None" "written w = [0, 2, 7, 8]" "outbound_messages w = []"
    unfolding w_def by code_simp+
  moreover have "tcp_run sample_sender w" unfolding w_def by (rule polled [OF start]) (rule prod.collapse [symmetric])
  ultimately show ?thesis
    using tcp_messages_arrive [of "[]" "[Out_Accept 1, Out_Accept 5, Out_Accept 5]" "[Out_Accept 0]" 5 "[[7, 8]]" w
        "[[0], [2, 7], [8]]" 5]
    by (simp add: idle_def sample_sender_def split_stream_def)
qed

end
