(* ===== verification/Server_Streams.thy ===== *)
theory Server_Streams
  imports Catalog Tcp_Stream
begin

text \<open>
  The server on its event loop. \<open>RequestStream\<close> (\<open>server/src/server/request_stream.rs\<close>) decodes what a stream
  of octets yields, \<open>ServerFuture\<close> (\<open>server_future.rs\<close>) hands each request to the catalog and queues the
  response on the same stream. The streams are TCP connections behind a timeout (\<open>timeout_stream.rs\<close>)
  and UDP sockets (\<open>client/src/udp/udp_stream.rs\<close>).

  The interface of a stream is a locale: a poll, a queue for responses and a bound on the messages that
  can still arrive. It is interpreted for both kinds of stream.
\<close>

section \<open>UDP\<close>

datatype 'a buf_poll = BP_Item bytes 'a | BP_NotReady | BP_End | BP_Err | BP_Panic

datatype 'a recv_event = Rv_Packet bytes 'a | Rv_Block | Rv_Err

text \<open>\<open>u_writable\<close> are the results of \<open>poll_write\<close>, \<open>u_sends\<close> those of \<open>send_to\<close>; \<open>u_sent\<close> are the datagrams sent.\<close>

record 'a udp_stream =
  u_writable :: "bool list"
  u_sends :: "out_event list"
  u_received :: "'a recv_event list"
  u_outbound :: "'a queue_event list"
  u_sent :: "(bytes \<times> 'a) list"

text \<open>One round of the sending loop: \<open>None\<close> repeats it, \<open>Some (Inl r)\<close> returns and \<open>Some (Inr ())\<close> leaves it.\<close>

definition udp_pop :: "'a udp_stream \<Rightarrow> ('a buf_poll + unit) option \<times> 'a udp_stream" where
  "udp_pop s =
     (case u_outbound s of
        [] \<Rightarrow> (Some (Inr ()), s)
      | Q_Message _ _ # es \<Rightarrow> (None, s\<lparr>u_outbound := es\<rparr>)
      | Q_NotReady # es \<Rightarrow> (Some (Inr ()), s\<lparr>u_outbound := es\<rparr>)
      | Q_End # es \<Rightarrow> (Some (Inr ()), s)
      | Q_Err # es \<Rightarrow> (Some (Inl BP_Err), s\<lparr>u_outbound := es\<rparr>))"

definition udp_send_to :: "bytes \<Rightarrow> 'a \<Rightarrow> 'a udp_stream \<Rightarrow> 'a buf_poll option \<times> 'a udp_stream" where
  "udp_send_to buffer addr s =
     (case u_writable s of
        True # ws \<Rightarrow>
          let s = s\<lparr>u_writable := ws\<rparr> in
          (case u_sends s of
             Out_Accept _ # es \<Rightarrow> (None, s\<lparr>u_sends := es, u_sent := u_sent s @ [(buffer, addr)]\<rparr>)
           | Out_Err # es \<Rightarrow> (Some BP_Err, s\<lparr>u_sends := es\<rparr>)
           | Out_Block # es \<Rightarrow> (Some BP_NotReady, s\<lparr>u_sends := es\<rparr>)
           | [] \<Rightarrow> (Some BP_NotReady, s))
      | False # ws \<Rightarrow> (Some BP_NotReady, s\<lparr>u_writable := ws\<rparr>)
      | [] \<Rightarrow> (Some BP_NotReady, s))"

definition udp_send_step :: "'a udp_stream \<Rightarrow> ('a buf_poll + unit) option \<times> 'a udp_stream" where
  "udp_send_step s =
     (case u_outbound s of
        Q_Message buffer addr # _ \<Rightarrow>
          (case udp_send_to buffer addr s of
             (Some r, s) \<Rightarrow> (Some (Inl r), s)
           | (None, s) \<Rightarrow> udp_pop s)
      | Q_Err # es \<Rightarrow> (Some (Inl BP_Err), s\<lparr>u_outbound := es\<rparr>)
      | Q_NotReady # es \<Rightarrow> udp_pop (s\<lparr>u_outbound := es\<rparr>)
      | _ \<Rightarrow> udp_pop s)"

lemma udp_pop_decreases: "udp_pop s = (None, s') \<Longrightarrow> length (u_outbound s') < length (u_outbound s)"
  by (auto simp: udp_pop_def split: list.splits queue_event.splits)

lemma udp_send_to_queue: "udp_send_to b a s = (r, s') \<Longrightarrow> u_outbound s' = u_outbound s \<and> u_received s' = u_received s"
  by (auto simp: udp_send_to_def Let_def split: list.splits bool.splits out_event.splits)

lemma udp_send_step_decreases: "udp_send_step s = (None, s') \<Longrightarrow> length (u_outbound s') < length (u_outbound s)"
  by (auto simp: udp_send_step_def split: list.splits queue_event.splits prod.splits option.splits
      dest!: udp_pop_decreases udp_send_to_queue)

function udp_send_loop :: "'a udp_stream \<Rightarrow> 'a buf_poll option \<times> 'a udp_stream" where
  "udp_send_loop s =
     (case udp_send_step s of
        (None, s') \<Rightarrow> udp_send_loop s'
      | (Some (Inl r), s') \<Rightarrow> (Some r, s')
      | (Some (Inr _), s') \<Rightarrow> (None, s'))"
  by pat_completeness auto

termination
  by (relation "measure (\<lambda>s. length (u_outbound s))") (auto dest!: udp_send_step_decreases [OF sym])

declare udp_send_loop.simps [simp del]

text \<open>A datagram is read into a buffer of 2048 octets.\<close>

definition udp_poll :: "'a udp_stream \<Rightarrow> 'a buf_poll \<times> 'a udp_stream" where
  "udp_poll s =
     (case udp_send_loop s of
        (Some r, s) \<Rightarrow> (r, s)
      | (None, s) \<Rightarrow>
          (case u_received s of
             [] \<Rightarrow> (BP_NotReady, s)
           | Rv_Packet b src # es \<Rightarrow> (BP_Item (take 2048 b) src, s\<lparr>u_received := es\<rparr>)
           | Rv_Block # es \<Rightarrow> (BP_NotReady, s\<lparr>u_received := es\<rparr>)
           | Rv_Err # es \<Rightarrow> (BP_Err, s\<lparr>u_received := es\<rparr>)))"

text \<open>\<open>UdpClientStream::poll\<close> hands on what arrives, from whatever address.\<close>

definition udp_client_poll :: "'a udp_stream \<Rightarrow> unit buf_poll \<times> 'a udp_stream" where
  "udp_client_poll s = (case udp_poll s of (r, s) \<Rightarrow> (map_buf_poll (\<lambda>_. ()) r, s))"

section \<open>Timeouts\<close>

datatype timeout_event = TO_Expired | TO_Pending | TO_Err

text \<open>\<open>ts_created\<close> are the results of creating a timer, \<open>ts_ticks\<close> those of polling it.\<close>

record 's timeout_stream =
  ts_stream :: 's
  timeout_duration :: nat
  ts_timer :: bool
  ts_created :: "bool list"
  ts_ticks :: "timeout_event list"

definition new_timeout :: "'s timeout_stream \<Rightarrow> bool \<times> 's timeout_stream" where
  "new_timeout t =
     (if timeout_duration t > 0 then
        (case ts_created t of
           True # es \<Rightarrow> (True, t\<lparr>ts_created := es, ts_timer := True\<rparr>)
         | False # es \<Rightarrow> (False, t\<lparr>ts_created := es\<rparr>)
         | [] \<Rightarrow> (False, t))
      else (True, t\<lparr>ts_timer := False\<rparr>))"

definition timeout_poll :: "('s \<Rightarrow> 'a buf_poll \<times> 's) \<Rightarrow> 's timeout_stream \<Rightarrow> 'a buf_poll \<times> 's timeout_stream" where
  "timeout_poll poll t =
     (case poll (ts_stream t) of (r, s) \<Rightarrow>
        let t = t\<lparr>ts_stream := s\<rparr> in
        case r of
          BP_NotReady \<Rightarrow>
            if \<not> ts_timer t then (BP_NotReady, t)
            else (case ts_ticks t of
                    [] \<Rightarrow> (BP_NotReady, t)
                  | TO_Pending # es \<Rightarrow> (BP_NotReady, t\<lparr>ts_ticks := es\<rparr>)
                  | _ # es \<Rightarrow> (BP_Err, t\<lparr>ts_ticks := es\<rparr>))
        | BP_Panic \<Rightarrow> (BP_Panic, t)
        | _ \<Rightarrow> (case new_timeout t of (True, t) \<Rightarrow> (r, t) | (False, t) \<Rightarrow> (BP_Err, t)))"

section \<open>Requests\<close>

datatype 'a request_result = RP_Request message 'a | RP_NotReady | RP_End | RP_Err | RP_Panic | RP_Overrun | RP_Fuel

fun request_poll :: "('s \<Rightarrow> 'a buf_poll \<times> 's) \<Rightarrow> nat \<Rightarrow> 's \<Rightarrow> 'a request_result \<times> 's" where
  "request_poll poll 0 s = (RP_Fuel, s)"
| "request_poll poll (Suc fuel) s =
     (case poll s of
        (BP_NotReady, s) \<Rightarrow> (RP_NotReady, s)
      | (BP_Err, s) \<Rightarrow> (RP_Err, s)
      | (BP_Panic, s) \<Rightarrow> (RP_Panic, s)
      | (BP_End, s) \<Rightarrow> (RP_End, s)
      | (BP_Item buffer addr, s) \<Rightarrow>
          (case message_from_vec buffer of
             Ok m \<Rightarrow> (RP_Request m addr, s)
           | Err _ \<Rightarrow> request_poll poll fuel s
           | Panic \<Rightarrow> (RP_Panic, s)
           | Overrun \<Rightarrow> (RP_Overrun, s)))"

text \<open>\<open>ResponseHandle::send\<close>: the octets of a response, queued for the source of the request.\<close>

definition response_send :: "(bytes \<Rightarrow> 'a \<Rightarrow> 's \<Rightarrow> 's) \<Rightarrow> message \<Rightarrow> 'a \<Rightarrow> 's \<Rightarrow> ('s, encode_error) outcome" where
  "response_send push response dst s = bind_outcome (message_to_vec response) (\<lambda>buffer. Ok (push buffer dst s))"

text \<open>
  The loop that \<open>ServerFuture\<close> spawns for a stream, until it waits or ends. A response that cannot be written
  ends it, as an error of the stream does. \<open>clock\<close> gives the time at which each request is handled.
\<close>

datatype serve_result = SR_Waiting | SR_Closed | SR_Io | SR_Encode encode_error | SR_Panic | SR_Overrun | SR_Fuel

fun serve ::
  "'p ssl \<Rightarrow> 'd sqlite \<Rightarrow> (nat \<Rightarrow> int) \<Rightarrow> ('s \<Rightarrow> 'a buf_poll \<times> 's) \<Rightarrow> (bytes \<Rightarrow> 'a \<Rightarrow> 's \<Rightarrow> 's) \<Rightarrow> nat \<Rightarrow> 's \<Rightarrow>
     ('p, 'd) catalog \<Rightarrow> serve_result \<times> 's \<times> ('p, 'd) catalog" where
  "serve ssl sql clock poll push 0 s c = (SR_Fuel, s, c)"
| "serve ssl sql clock poll push (Suc fuel) s c =
     (case request_poll poll (Suc fuel) s of
        (RP_NotReady, s) \<Rightarrow> (SR_Waiting, s, c)
      | (RP_End, s) \<Rightarrow> (SR_Closed, s, c)
      | (RP_Err, s) \<Rightarrow> (SR_Io, s, c)
      | (RP_Panic, s) \<Rightarrow> (SR_Panic, s, c)
      | (RP_Overrun, s) \<Rightarrow> (SR_Overrun, s, c)
      | (RP_Fuel, s) \<Rightarrow> (SR_Fuel, s, c)
      | (RP_Request m src, s) \<Rightarrow>
          (case handle_request ssl sql (clock fuel) m c of
             (Ok response, c) \<Rightarrow>
               (case response_send push response src s of
                  Ok s \<Rightarrow> serve ssl sql clock poll push fuel s c
                | Err e \<Rightarrow> (SR_Encode e, s, c)
                | Panic \<Rightarrow> (SR_Panic, s, c)
                | Overrun \<Rightarrow> (SR_Overrun, s, c))
           | (Overrun, c) \<Rightarrow> (SR_Overrun, s, c)
           | (_, c) \<Rightarrow> (SR_Panic, s, c)))"

section \<open>Streams of packets\<close>

text \<open>
  What the server relies on: a packet that a stream yields reduces a bound on the packets to come, and
  queueing a response does not raise it. Then the loops above end: fuel beyond the bound is enough.
\<close>

locale packet_stream =
  fixes poll :: "'s \<Rightarrow> 'a buf_poll \<times> 's"
    and push :: "bytes \<Rightarrow> 'a \<Rightarrow> 's \<Rightarrow> 's"
    and bound :: "'s \<Rightarrow> nat"
  assumes item_bound: "poll s = (BP_Item b a, s') \<Longrightarrow> bound s' < bound s"
    and push_bound: "bound (push b a s) = bound s"
begin

lemma request_bound: "request_poll poll fuel s = (RP_Request m a, s') \<Longrightarrow> bound s' < bound s"
proof (induction fuel arbitrary: s)
  case (Suc fuel)
  then show ?case
    by (auto split: prod.splits buf_poll.splits outcome.splits dest: item_bound less_trans)
qed simp

lemma request_fuel: "bound s < fuel \<Longrightarrow> fst (request_poll poll fuel s) \<noteq> RP_Fuel"
proof (induction fuel arbitrary: s)
  case (Suc fuel)
  obtain r t where r: "poll s = (r, t)" by (metis surj_pair)
  show ?case
  proof (cases r)
    case (BP_Item b a)
    with r item_bound [of s b a t] Suc.prems have "bound t < fuel" by simp
    with Suc.IH r BP_Item show ?thesis by (simp split: outcome.splits)
  qed (simp_all add: r)
qed simp

lemma serve_fuel: "bound s < fuel \<Longrightarrow> fst (serve ssl sql clock poll push fuel s c) \<noteq> SR_Fuel"
proof (induction fuel arbitrary: s c)
  case (Suc fuel)
  obtain r t where r: "request_poll poll (Suc fuel) s = (r, t)" by (metis surj_pair)
  from Suc.prems have "r \<noteq> RP_Fuel" using request_fuel [of s "Suc fuel"] r by simp
  moreover have "bound (push b x t) < fuel" if "r = RP_Request m a" for m a b x
    using request_bound [of "Suc fuel" s m a t] r that Suc.prems by (simp add: push_bound)
  ultimately show ?case using Suc.IH r
    by (cases r) (auto simp: response_send_def bind_outcome_Ok_iff simp del: request_poll.simps split: prod.splits outcome.splits)
qed simp

lemma timeout_stream:
  "packet_stream (timeout_poll poll) (\<lambda>b a t. t\<lparr>ts_stream := push b a (ts_stream t)\<rparr>) (\<lambda>t. bound (ts_stream t))"
  by unfold_locales
    (auto simp: timeout_poll_def new_timeout_def Let_def push_bound
      split: prod.splits buf_poll.splits if_splits list.splits timeout_event.splits bool.splits dest: item_bound)

end

section \<open>The streams of the server\<close>

fun buf_of_tcp :: "'a tcp_poll \<Rightarrow> 'a buf_poll" where
  "buf_of_tcp (TP_Item b a) = BP_Item b a"
| "buf_of_tcp TP_End = BP_End"
| "buf_of_tcp TP_NotReady = BP_NotReady"
| "buf_of_tcp (TP_Err _) = BP_Err"
| "buf_of_tcp TP_Panic = BP_Panic"

definition tcp_buf_poll :: "'a tcp_stream \<Rightarrow> 'a buf_poll \<times> 'a tcp_stream" where
  "tcp_buf_poll s = (case tcp_poll s of (r, s) \<Rightarrow> (buf_of_tcp r, s))"

definition tcp_push :: "bytes \<Rightarrow> 'a \<Rightarrow> 'a tcp_stream \<Rightarrow> 'a tcp_stream" where
  "tcp_push b a s = s\<lparr>outbound_messages := outbound_messages s @ [Q_Message b a]\<rparr>"

definition udp_push :: "bytes \<Rightarrow> 'a \<Rightarrow> 'a udp_stream \<Rightarrow> 'a udp_stream" where
  "udp_push b a s = s\<lparr>u_outbound := u_outbound s @ [Q_Message b a]\<rparr>"

definition tcp_bound :: "'a tcp_stream \<Rightarrow> nat" where
  "tcp_bound s = sum_list (map event_size (incoming s))"

lemma read_step_bound: "read_step st s = (RR_Got m, s') \<Longrightarrow> tcp_bound s' < tcp_bound s"
  by (cases st) (auto simp: tcp_bound_def Let_def split: prod.splits nb.splits if_splits dest!: sock_read_decreases)

lemma read_loop_bound: "read_loop s = (TP_Item m p, s') \<Longrightarrow> tcp_bound s' < tcp_bound s"
proof (induction s rule: read_loop.induct)
  case (1 s)
  obtain q t where q: "read_step (read_state s) s = (q, t)" by (metis surj_pair)
  show ?case
  proof (cases q)
    case RR_Again
    with q 1(2) have "read_loop t = (TP_Item m p, s')" by (simp add: read_loop.simps [of s])
    with 1(1) [OF q [symmetric]] RR_Again read_step_decreases [of "read_state s" s t] q show ?thesis by (simp add: tcp_bound_def)
  next
    case (RR_Return x)
    with q 1(2) have "x = TP_Item m p" "t = s'" by (simp_all add: read_loop.simps [of s])
    with q RR_Return show ?thesis by (cases "read_state s") (auto simp: Let_def split: prod.splits nb.splits if_splits)
  next
    case (RR_Got b)
    with q 1(2) show ?thesis using read_step_bound [of "read_state s" s b t] by (simp add: read_loop.simps [of s])
  qed
qed

lemma tcp_buf_poll_item: "tcp_buf_poll s = (BP_Item b a, s') \<longleftrightarrow> tcp_poll s = (TP_Item b a, s')"
proof -
  have "buf_of_tcp r = BP_Item b a \<longleftrightarrow> r = TP_Item b a" for r by (cases r) auto
  then show ?thesis by (simp add: tcp_buf_poll_def split: prod.splits)
qed

interpretation tcp_packets: packet_stream tcp_buf_poll tcp_push tcp_bound
proof
  fix s s' :: "'a tcp_stream" and b a
  assume "tcp_buf_poll s = (BP_Item b a, s')"
  then have p: "tcp_poll s = (TP_Item b a, s')" by (simp only: tcp_buf_poll_item)
  obtain q t where q: "tcp_send_loop s = (q, t)" by (metis surj_pair)
  have "tcp_bound t = tcp_bound s" using send_loop_conserves [OF q] by (simp add: tcp_bound_def)
  moreover have "read_loop t = (TP_Item b a, s')"
    using p q send_loop_result [of s _ t] by (auto simp: tcp_poll_def split: option.splits)
  ultimately show "tcp_bound s' < tcp_bound s" using read_loop_bound [of t b a s'] by simp
qed (simp add: tcp_bound_def tcp_push_def)

abbreviation timed_tcp_poll :: "'a tcp_stream timeout_stream \<Rightarrow> 'a buf_poll \<times> 'a tcp_stream timeout_stream" where
  "timed_tcp_poll \<equiv> timeout_poll tcp_buf_poll"

abbreviation timed_tcp_push :: "bytes \<Rightarrow> 'a \<Rightarrow> 'a tcp_stream timeout_stream \<Rightarrow> 'a tcp_stream timeout_stream" where
  "timed_tcp_push \<equiv> (\<lambda>b a t. t\<lparr>ts_stream := tcp_push b a (ts_stream t)\<rparr>)"

interpretation timed_packets: packet_stream timed_tcp_poll timed_tcp_push "\<lambda>t. tcp_bound (ts_stream t)"
  by (rule tcp_packets.timeout_stream)

lemma udp_send_loop_received: "udp_send_loop s = (r, s') \<Longrightarrow> u_received s' = u_received s"
proof (induction s rule: udp_send_loop.induct)
  case (1 s)
  obtain q t where q: "udp_send_step s = (q, t)" by (metis surj_pair)
  then have "u_received t = u_received s"
    by (auto simp: udp_send_step_def udp_pop_def split: list.splits queue_event.splits prod.splits option.splits dest!: udp_send_to_queue)
  with 1(1) [OF q [symmetric]] 1(2) q show ?case
    by (cases q) (auto simp: udp_send_loop.simps [of s] split: sum.splits)
qed

lemma udp_send_loop_result: "udp_send_loop s = (Some r, s') \<Longrightarrow> r = BP_NotReady \<or> r = BP_Err"
proof (induction s rule: udp_send_loop.induct)
  case (1 s)
  obtain q t where q: "udp_send_step s = (q, t)" by (metis surj_pair)
  then have "q = Some (Inl x) \<Longrightarrow> x = BP_NotReady \<or> x = BP_Err" for x
    by (auto simp: udp_send_step_def udp_pop_def udp_send_to_def Let_def
        split: list.splits queue_event.splits prod.splits option.splits bool.splits out_event.splits)
  with 1(1) [OF q [symmetric]] 1(2) q show ?case
    by (cases q) (auto simp: udp_send_loop.simps [of s] split: sum.splits)
qed

interpretation udp_packets: packet_stream udp_poll udp_push "\<lambda>s. length (u_received s)"
proof
  fix s s' :: "'a udp_stream" and b a
  assume p: "udp_poll s = (BP_Item b a, s')"
  obtain q t where q: "udp_send_loop s = (q, t)" by (metis surj_pair)
  show "length (u_received s') < length (u_received s)"
  proof (cases q)
    case None
    with p q udp_send_loop_received [OF q] show ?thesis
      by (auto simp: udp_poll_def split: list.splits recv_event.splits)
  next
    case (Some r)
    with p q have "udp_send_loop s = (Some (BP_Item b a), s')" by (simp add: udp_poll_def)
    then show ?thesis using udp_send_loop_result [of s "BP_Item b a" s'] by simp
  qed
qed (simp add: udp_push_def)

section \<open>A connection\<close>

lemma handle_request_id:
  assumes "handle_request ssl sql now request c = (Ok m, c')"
  shows "h_id (m_header m) = h_id (m_header request)"
  using assms
  by (auto simp: handle_request_def Let_def set_edns_def message_response_code_def header_response_code_def header_new_def
      message_new_def replies_to_def st_return_def st_bind_Ok_iff
    dest!: dispatch_replies split: option.splits if_splits)

lemma timed_poll_inner:
  assumes "timed_tcp_poll t = (r, t')" "r \<noteq> BP_Err" "r \<noteq> BP_Panic"
  shows "\<exists>q. tcp_poll (ts_stream t) = (q, ts_stream t') \<and> buf_of_tcp q = r"
proof -
  obtain q s where q: "tcp_poll (ts_stream t) = (q, s)" by (metis surj_pair)
  with assms show ?thesis
    by (cases q) (auto simp: timeout_poll_def tcp_buf_poll_def new_timeout_def Let_def
        split: prod.splits if_splits list.splits timeout_event.splits bool.splits)
qed

definition keeps :: "'a tcp_stream timeout_stream \<Rightarrow> bytes list \<Rightarrow> 'a tcp_stream timeout_stream \<Rightarrow> bool" where
  "keeps t bs t' \<longleftrightarrow>
     read_ok (read_state (ts_stream t')) \<and> peer_addr (ts_stream t') = peer_addr (ts_stream t) \<and>
     outgoing (ts_stream t') = outgoing (ts_stream t) \<and>
     undelivered (ts_stream t) = concat (map frame bs) @ undelivered (ts_stream t')"

lemma keeps_trans: "keeps t as u \<Longrightarrow> keeps u bs v \<Longrightarrow> keeps t (as @ bs) v"
  by (simp add: keeps_def)

lemma timed_poll_keeps:
  assumes "timed_tcp_poll t = (r, t')" "r \<noteq> BP_Err" "r \<noteq> BP_Panic" "read_ok (read_state (ts_stream t))"
  shows "keeps t (case r of BP_Item b _ \<Rightarrow> [b] | _ \<Rightarrow> []) t' \<and> (\<forall>b a. r = BP_Item b a \<longrightarrow> a = peer_addr (ts_stream t))"
proof -
  obtain q where q: "tcp_poll (ts_stream t) = (q, ts_stream t')" "buf_of_tcp q = r"
    using timed_poll_inner [OF assms(1-3)] by blast
  from poll_conserves [OF assms(4) q(1)] q(2) show ?thesis by (cases q) (auto simp: keeps_def)
qed

lemma request_poll_keeps:
  assumes "request_poll timed_tcp_poll fuel t = (r, t')" "read_ok (read_state (ts_stream t))"
    "r = RP_NotReady \<or> r = RP_End \<or> (\<exists>m a. r = RP_Request m a)"
  shows "\<exists>skipped bs. keeps t (skipped @ bs) t' \<and> (\<forall>b\<in>set skipped. \<exists>e. message_from_vec b = Err e) \<and>
    (case r of RP_Request m a \<Rightarrow> a = peer_addr (ts_stream t) \<and> (\<exists>b. bs = [b] \<and> message_from_vec b = Ok m) | _ \<Rightarrow> bs = [])"
  using assms
proof (induction fuel arbitrary: t)
  case (Suc fuel)
  obtain q u where q: "timed_tcp_poll t = (q, u)" by (metis surj_pair)
  with Suc.prems(1,3) have ok: "q \<noteq> BP_Err" "q \<noteq> BP_Panic" by auto
  note k = timed_poll_keeps [OF q ok Suc.prems(2)]
  show ?case
  proof (cases "\<exists>b a e. q = BP_Item b a \<and> message_from_vec b = Err e")
    case True
    then obtain b a e where b: "q = BP_Item b a" "message_from_vec b = Err e" by blast
    with Suc.prems(1) q have "request_poll timed_tcp_poll fuel u = (r, t')" by simp
    moreover from k b have ku: "keeps t [b] u" by simp
    ultimately obtain skipped bs where ih: "keeps u (skipped @ bs) t'" "\<forall>b\<in>set skipped. \<exists>e. message_from_vec b = Err e"
      "case r of RP_Request m a \<Rightarrow> a = peer_addr (ts_stream u) \<and> (\<exists>b. bs = [b] \<and> message_from_vec b = Ok m) | _ \<Rightarrow> bs = []"
      using Suc.IH [of u] Suc.prems(3) by (auto simp: keeps_def)
    show ?thesis
      by (rule exI [of _ "b # skipped"], rule exI [of _ bs])
        (use keeps_trans [OF ku ih(1)] ih(2,3) b(2) ku in \<open>auto simp: keeps_def split: request_result.splits\<close>)
  next
    case False
    show ?thesis
      by (rule exI [of _ "[]"], rule exI [of _ "case q of BP_Item b _ \<Rightarrow> [b] | _ \<Rightarrow> []"])
        (use False Suc.prems(1,3) q k in \<open>cases q; auto split: outcome.splits\<close>)
  qed
qed auto

text \<open>
  The exchange on a connection: each packet read, with the octets queued for it. Nothing is queued for a
  packet that is not a message; a request is handled by the catalog as the ones before it left it.
\<close>

inductive converses ::
  "'p ssl \<Rightarrow> 'd sqlite \<Rightarrow> (nat \<Rightarrow> int) \<Rightarrow> (bytes \<times> bytes option) list \<Rightarrow> ('p, 'd) catalog \<Rightarrow> ('p, 'd) catalog \<Rightarrow> bool"
  for ssl sql clock where
  con_done: "converses ssl sql clock [] c c"
| con_skip: "message_from_vec b = Err e \<Longrightarrow> converses ssl sql clock ex c c' \<Longrightarrow> converses ssl sql clock ((b, None) # ex) c c'"
| con_reply: "message_from_vec b = Ok m \<Longrightarrow> handle_request ssl sql (clock i) m c = (Ok r, c1) \<Longrightarrow>
    h_id (m_header r) = h_id (m_header m) \<Longrightarrow> message_to_vec r = Ok reply \<Longrightarrow> converses ssl sql clock ex c1 c' \<Longrightarrow>
    converses ssl sql clock ((b, Some reply) # ex) c c'"

definition exchanged ::
  "'p ssl \<Rightarrow> 'd sqlite \<Rightarrow> (nat \<Rightarrow> int) \<Rightarrow> 'a tcp_stream \<Rightarrow> ('p, 'd) catalog \<Rightarrow> 'a tcp_stream \<Rightarrow> ('p, 'd) catalog \<Rightarrow> bool" where
  "exchanged ssl sql clock s c s' c' \<longleftrightarrow>
     (\<exists>ex. undelivered s = concat (map (frame \<circ> fst) ex) @ undelivered s' \<and>
        outgoing s' = outgoing s @ concat (map frame (List.map_filter snd ex)) \<and> converses ssl sql clock ex c c')"

lemma skip_converses:
  "\<forall>b\<in>set skipped. \<exists>e. message_from_vec b = Err e \<Longrightarrow> converses ssl sql clock ex c c' \<Longrightarrow>
   converses ssl sql clock (map (\<lambda>b. (b, None)) skipped @ ex) c c'"
  by (induction skipped) (auto intro: con_skip)

lemma exchanged_step:
  assumes "keeps t (skipped @ bs) u" "\<forall>b\<in>set skipped. \<exists>e. message_from_vec b = Err e"
    and "outgoing s = outgoing (ts_stream u) @ concat (map frame rs)" "undelivered s = undelivered (ts_stream u)"
    and "bs = [] \<and> rs = [] \<and> c1 = c \<or> (\<exists>b m i r reply. bs = [b] \<and> rs = [reply] \<and> message_from_vec b = Ok m \<and>
      handle_request ssl sql (clock i) m c = (Ok r, c1) \<and> message_to_vec r = Ok reply)"
    and "exchanged ssl sql clock s c1 s' c'"
  shows "exchanged ssl sql clock (ts_stream t) c s' c'"
proof -
  obtain ex where ex: "undelivered s = concat (map (frame \<circ> fst) ex) @ undelivered s'"
    "outgoing s' = outgoing s @ concat (map frame (List.map_filter snd ex))" "converses ssl sql clock ex c1 c'"
    using assms(6) by (auto simp: exchanged_def)
  let ?one = "if bs = [] then [] else [(hd bs, Some (hd rs))]"
  let ?new = "map (\<lambda>b. (b, None)) skipped @ ?one"
  have "converses ssl sql clock (?one @ ex) c c'"
    using assms(5) ex(3) handle_request_id [of ssl sql] by (auto intro: con_reply)
  then have con: "converses ssl sql clock (?new @ ex) c c'" unfolding append_assoc by (rule skip_converses [OF assms(2)])
  have new: "map fst ?new = skipped @ bs" "List.map_filter snd ?new = rs"
    using assms(5) by (auto simp: List.map_filter_def o_def)
  have "undelivered (ts_stream t) = concat (map (frame \<circ> fst) (?new @ ex)) @ undelivered s'"
    using assms(1,4) ex(1) new(1) by (simp add: keeps_def flip: map_map)
  moreover have "outgoing s' = outgoing (ts_stream t) @ concat (map frame (List.map_filter snd (?new @ ex)))"
    using assms(1,3) ex(2) new(2) by (simp add: keeps_def List.map_filter_def)
  ultimately show ?thesis using con unfolding exchanged_def by blast
qed

lemma serve_exchanged:
  assumes "serve ssl sql clock timed_tcp_poll timed_tcp_push fuel t c = (res, t', c')" "read_ok (read_state (ts_stream t))"
    "res = SR_Waiting \<or> res = SR_Closed"
  shows "exchanged ssl sql clock (ts_stream t) c (ts_stream t') c'"
  using assms
proof (induction fuel arbitrary: t c)
  case (Suc fuel)
  obtain r u where r: "request_poll timed_tcp_poll (Suc fuel) t = (r, u)" by (metis surj_pair)
  have fin: "exchanged ssl sql clock s c s c" for s
    by (auto simp: exchanged_def List.map_filter_def intro!: exI [of _ "[]"] con_done)
  show ?case
  proof (cases "\<exists>m a. r = RP_Request m a")
    case True
    then obtain m a where m: "r = RP_Request m a" by blast
    obtain skipped b where k: "keeps t (skipped @ [b]) u" "\<forall>b\<in>set skipped. \<exists>e. message_from_vec b = Err e"
      "a = peer_addr (ts_stream t)" "message_from_vec b = Ok m"
      using request_poll_keeps [OF r Suc.prems(2)] m by auto
    obtain h c1 where h: "handle_request ssl sql (clock fuel) m c = (h, c1)" by (metis surj_pair)
    obtain response where resp: "h = Ok response"
      using Suc.prems(1,3) r m h by (cases h) (auto simp del: request_poll.simps)
    obtain bs where bs: "message_to_vec response = Ok bs"
      using Suc.prems(1,3) r m h resp
      by (cases "message_to_vec response") (auto simp: response_send_def simp del: request_poll.simps)
    let ?v = "timed_tcp_push bs a u"
    have "serve ssl sql clock timed_tcp_poll timed_tcp_push fuel ?v c1 = (res, t', c')"
      using Suc.prems(1) r m h resp bs by (simp add: response_send_def del: request_poll.simps)
    moreover have "read_ok (read_state (ts_stream ?v))" using k(1) by (simp add: keeps_def tcp_push_def)
    ultimately have ih: "exchanged ssl sql clock (ts_stream ?v) c1 (ts_stream t') c'" using Suc.IH [of ?v c1] Suc.prems(3) by simp
    have "outgoing (ts_stream ?v) = outgoing (ts_stream u) @ frame bs"
      using k(1,3) by (simp add: outgoing_def tcp_push_def keeps_def queued_def)
    moreover have "undelivered (ts_stream ?v) = undelivered (ts_stream u)" by (simp add: undelivered_def tcp_push_def)
    ultimately show ?thesis
      using k(4) h resp bs by (intro exchanged_step [OF k(1,2) _ _ _ ih, of "[bs]"]) auto
  next
    case False
    with Suc.prems(1,3) r have e: "r = RP_NotReady \<or> r = RP_End" "t' = u" "c' = c" by (cases r; auto simp del: request_poll.simps)+
    then obtain skipped where "keeps t (skipped @ []) u" "\<forall>b\<in>set skipped. \<exists>e. message_from_vec b = Err e"
      using request_poll_keeps [OF r Suc.prems(2)] by auto
    from exchanged_step [OF this _ _ _ fin, where rs = "[]"] show ?thesis unfolding e(2,3) by simp
  qed
qed simp

text \<open>
  C8. A connection of the server, from octets to octets. While it is served, the octets that arrived are
  the frames of packets, each of which is either no message, and is skipped, or a request. The requests
  are handled one after the other, each by the catalog the one before it left, from the catalog the server
  had to the one it has afterwards; the octets sent or queued are exactly the frames of the responses,
  one for each request and in their order, with their ids. This holds wherever the socket and the timer
  block, and the loop ends within a number of rounds given by what has arrived.
\<close>
theorem tcp_server_conversation:
  assumes "serve ssl sql clock timed_tcp_poll timed_tcp_push fuel t c = (res, t', c')" "read_ok (read_state (ts_stream t))"
    "tcp_bound (ts_stream t) < fuel"
  shows "res \<noteq> SR_Fuel \<and> (res = SR_Waiting \<or> res = SR_Closed \<longrightarrow>
    (\<exists>ex. undelivered (ts_stream t) = concat (map (frame \<circ> fst) ex) @ undelivered (ts_stream t') \<and>
       outgoing (ts_stream t') = outgoing (ts_stream t) @ concat (map frame (List.map_filter snd ex)) \<and>
       converses ssl sql clock ex c c'))"
  using serve_exchanged [OF assms(1,2)] timed_packets.serve_fuel [OF assms(3), of ssl sql clock c] assms(1)
  by (auto simp: exchanged_def)

definition sample_connection :: "nat tcp_stream timeout_stream" where
  "sample_connection =
     \<lparr>ts_stream = from_stream [In_Data [0, 1, 7], In_Data [0, 12, 0, 7, 0, 0, 0, 0, 0, 0, 0, 0, 0, 0]] [] [] [] 5, timeout_duration = 5, ts_timer = True,
      ts_created = [True, True], ts_ticks = []\<rparr>"

theorem tcp_server_conversation_witness:
  "\<exists>t' c' ex. serve toy_ssl list_sqlite (\<lambda>_. 0) timed_tcp_poll timed_tcp_push 30 sample_connection keyed_catalog = (SR_Waiting, t', c') \<and>
     undelivered (ts_stream sample_connection) = concat (map (frame \<circ> fst) ex) @ undelivered (ts_stream t') \<and>
     converses toy_ssl list_sqlite (\<lambda>_. 0) ex keyed_catalog c'"
proof -
  let ?r = "serve toy_ssl list_sqlite (\<lambda>_. 0) timed_tcp_poll timed_tcp_push 30 sample_connection keyed_catalog"
  have "fst ?r = SR_Waiting" by code_simp
  then obtain t' c' where r: "?r = (SR_Waiting, t', c')" by (cases ?r) auto
  have "read_ok (read_state (ts_stream sample_connection))" "tcp_bound (ts_stream sample_connection) < 30" by code_simp+
  from tcp_server_conversation [OF r this] r show ?thesis by auto
qed

end
