(* ===== verification/Spec2Isabelle.thy ===== *)
theory Spec2Isabelle
  imports Prelude Binary Record_Types Tokens Domain Codec Rdata Rdata_Codec Bit_Maps Edns_Options Resource
    Record_Set Messages Signing Journal Authority Zone_Updates Zone_Recovery Catalog Rdata_Text Master_Lex Master_Parser Client_Requests Client_Future
    Client_Handles Secure_Client Tcp_Stream Server_Streams
begin

text \<open>
  A verification of TRust-DNS: the DNS library under \<open>src/client/src\<close> and the name server under
  \<open>src/server/src\<close> (paths below are relative to one of them).

  \<^bold>\<open>The program.\<close> A message (\<open>op/message.rs\<close>) holds queries and resource records (\<open>rr/resource.rs\<close>), whose data
  (\<open>rr/record_data.rs\<close>) have a binary form (\<open>serialize/binary\<close>) and a text form (\<open>serialize/txt\<close>). A server
  reads messages from UDP and TCP streams (\<open>udp\<close>, \<open>tcp\<close>, \<open>server\<close>) and hands them to the catalog
  (\<open>authority/catalog.rs\<close>), which finds the zone (\<open>authority/authority.rs\<close>) that answers a query or carries out
  an update; a zone keeps its records in record sets (\<open>rr/rr_set.rs\<close>), signs them (\<open>rr/dnssec\<close>) and logs its
  updates in a journal (\<open>authority/persistence.rs\<close>). A client builds requests and matches the responses
  (\<open>client/client_future.rs\<close>), behind handles that repeat, share or validate them.

  \<^bold>\<open>Conventions.\<close> A Rust struct is a record, an enum a datatype, an integer a word of its width. A result is
  an \<open>outcome\<close>: \<open>Ok\<close>, \<open>Err\<close> with the error kind of the source, \<open>Panic\<close> for a failed assertion, \<open>unwrap\<close>, index
  or checked addition, and \<open>Overrun\<close> for a recursion deeper than a bound. Code that changes state returns
  the new state beside its outcome, also when it fails. A \<open>BTreeMap\<close> is a sorted association list
  (\<open>btree\<close>). OpenSSL and ring are the record \<open>ssl\<close> of functions, SQLite the record \<open>sqlite\<close> of what it does for a statement, the
  clock, random numbers, sockets and timers are arguments. What a property needs of them are named
  hypotheses (\<open>library_verifies\<close>, \<open>public_part_verifies\<close>, \<open>table_laws\<close>), met by \<open>toy_ssl\<close> and \<open>list_sqlite\<close>.

  \<^bold>\<open>Theories.\<close>
  \<^item> \<open>Prelude\<close>: words, outcomes, sorted maps, and the locale \<open>comparator\<close> of total preorders, interpreted
    for every \<open>Ord\<close> of the source.
  \<^item> \<open>Binary\<close>, \<open>Record_Types\<close>, \<open>Tokens\<close>: decoder and encoder, code points, algorithms, tokens and errors.
  \<^item> \<open>Domain\<close>: \<open>rr/domain.rs\<close>. \<open>Name::read\<close> accepts exactly the encodings \<open>name_at\<close> declares, those of RFC 1035
    without its limits; the order of names is a total preorder that agrees with equality and hashing; \<open>zone_of\<close>.
  \<^item> \<open>Codec\<close>: the locale \<open>wire_codec\<close>, what an encoder and a decoder promise each other inside a
    message with name compression; interpreted for integers, strings, names, queries and records.
  \<^item> \<open>Rdata\<close>, \<open>Rdata_Codec\<close>, \<open>Bit_Maps\<close>, \<open>Edns_Options\<close>, \<open>Resource\<close>: record data, type bit maps,
    EDNS options and records, with the round trip of every kind.
  \<^item> \<open>Record_Set\<close>: \<open>rr/rr_set.rs\<close> with its invariant; insertion and removal refine those of a set of data
    (locale \<open>set_contract\<close>).
  \<^item> \<open>Messages\<close>: header, query, EDNS and message, with their round trip and the form that is signed.
  \<^item> \<open>Signing\<close>: keys, key tags, digests, signatures of messages and record sets, trust anchors.
  \<^item> \<open>Journal\<close>, \<open>Authority\<close>: the journal and the zone, with lookups, updates, NSEC chain, signing and recovery.
  \<^item> \<open>Zone_Updates\<close>: the invariant \<open>zone_inv\<close>, the abstract zone \<open>zone_has\<close>, and the proof that
    \<open>update_records\<close> refines \<open>spec_update\<close>; authorisation, prerequisites, the serial number.
  \<^item> \<open>Zone_Recovery\<close>: a zone persisted to its journal and updated since is recovered by a restart, where SQLite
    visits the rows in the order of their ids, which the SELECT of the journal does not ask for.
  \<^item> \<open>Catalog\<close>: the search for a zone and the handling of requests, with the zones behind their locks; a query is
    answered with the rows of the zone that \<open>zone_answer\<close> names.
  \<^item> \<open>Master_Lex\<close>, \<open>Rdata_Text\<close>, \<open>Master_Parser\<close>: \<open>serialize/txt/master_lex.rs\<close>, the \<open>parse\<close> functions of
    record data and \<open>serialize/txt/master.rs\<close>; a printed zone parses to exactly the records it was printed from.
  \<^item> \<open>Client_Requests\<close>: the messages of \<open>ClientHandle\<close>, and what the server does with them.
  \<^item> \<open>Client_Future\<close>: \<open>ClientFuture::poll\<close>; runs of a client answer no request twice and lose none.
  \<^item> \<open>Client_Handles\<close>: \<open>client/rc_future.rs\<close>, \<open>memoize_client_handle.rs\<close>, \<open>retry_client_handle.rs\<close>.
  \<^item> \<open>Secure_Client\<close>: \<open>client/secure_client_handle.rs\<close>. Every record returned was in the response, in a set that is
    \<open>authentic\<close> by the signatures, DS records and trust anchors in the messages received; an empty answer has
    such an NSEC record, and what the server signs is accepted.
  \<^item> \<open>Tcp_Stream\<close>, \<open>Server_Streams\<close>: \<open>tcp/tcp_stream.rs\<close>, \<open>udp/udp_stream.rs\<close> and \<open>server\<close>. A poll conserves the octets
    in both directions; a connection sends exactly the responses of the catalog to its requests,
    handled one after the other. The
    locale \<open>packet_stream\<close> is the interface of streams, interpreted for TCP, TCP with timeout and UDP.

  \<^bold>\<open>Bounds.\<close> \<open>Name::read\<close> follows pointers recursively without a limit; the model allows 16384, the number of
  places a pointer can name, and \<open>name_read_bound_exact\<close> shows that a deeper recursion would never end. \<open>journal_iter\<close> and
  \<open>recover_loop\<close> take a fuel above the number of rows, with which they end. \<open>serve\<close> takes a fuel above the number of
  messages that can still arrive, and is shown not to run out of it. \<open>secure_send\<close> ends because
  \<open>request_depth\<close> is limited to 20, as in the source; every other recursion has a termination proof.

  \<^bold>\<open>Not modelled.\<close> The synchronous \<open>client/client.rs\<close> runs the methods modelled here on an event loop. Creating
  sockets and TLS sessions (\<open>tls\<close>, \<open>tcp_client_stream.rs\<close>, the connection files, the listeners of
  \<open>server_future.rs\<close>) is done by tokio and \<open>native_tls\<close>. Private keys (\<open>rr/dnssec/key_format.rs\<close>, key generation) are
  encoded by OpenSSL. Start-up (\<open>named.rs\<close>, \<open>config.rs\<close>) reads files, the command line and TOML. Log
  output, \<open>mod.rs\<close> files and the \<open>Display\<close> of errors have no behaviour to verify.
\<close>

end
